(* ===== verification/Prelude.thy ===== *)
theory Prelude
  imports Main "HOL-Library.Word" "HOL-Library.While_Combinator"
begin

text \<open>
  The vocabulary every component of the development shares.

  \<^item> the machine types of the Rust sources: \<open>u8\<close>, \<open>u16\<close>, \<open>u32\<close>, \<open>u64\<close> are words of that
    width, a \<open>usize\<close> (a length or an offset on a 64-bit target) is a natural number whose checked
    and saturating operations name the bound \<open>usize_max\<close>, a byte slice is a list of bytes;
  \<^item> a Rust \<open>Result\<close> is a sum whose left side is the error;
  \<^item> little and big endian encodings of integers, with their round trips packaged as the
    locale \<open>byte_codec\<close> and interpreted for every width the wire format uses;
  \<^item> two contracts the stateful components fulfil: \<open>one_time\<close> (no value is handed out
    twice along any run) and \<open>invariant_system\<close> (an invariant of every reachable state);
  \<^item> the interface of a random number generator, which the sources take from the
    \<open>rand\<close> crates, as a record of functions over an abstract generator state.
\<close>

section \<open>Machine types\<close>

type_synonym u8 = "8 word"
type_synonym u16 = "16 word"
type_synonym u32 = "32 word"
type_synonym u64 = "64 word"
type_synonym bytes = "u8 list"

named_theorems codec_simps
named_theorems len_simps

abbreviation Ok :: "'a \<Rightarrow> 'e + 'a" where
  "Ok \<equiv> Inr"

abbreviation Err :: "'e \<Rightarrow> 'e + 'a" where
  "Err \<equiv> Inl"

definition is_ok :: "'e + 'a \<Rightarrow> bool" where
  "is_ok r = (case r of Inl _ \<Rightarrow> False | Inr _ \<Rightarrow> True)"

text \<open>The \<open>?\<close> operator of Rust on \<open>Result\<close>.\<close>

definition and_then :: "'e + 'a \<Rightarrow> ('a \<Rightarrow> 'e + 'b) \<Rightarrow> 'e + 'b" where
  "and_then r f = (case r of Inl e \<Rightarrow> Inl e | Inr a \<Rightarrow> f a)"

definition usize_max :: nat where
  "usize_max = 2 ^ 64 - 1"

definition checked_add :: "nat \<Rightarrow> nat \<Rightarrow> nat option" where
  "checked_add a b = (if a + b \<le> usize_max then Some (a + b) else None)"

definition saturating_add :: "nat \<Rightarrow> nat \<Rightarrow> nat" where
  "saturating_add a b = min (a + b) usize_max"

text \<open>The subslice \<open>xs[i..j]\<close>; the sources index in range, which each use establishes.\<close>

definition slice :: "nat \<Rightarrow> nat \<Rightarrow> 'a list \<Rightarrow> 'a list" where
  "slice i j xs = take (j - i) (drop i xs)"

text \<open>Overwriting the bytes of \<open>dst\<close> from offset \<open>i\<close> (\<open>copy_from_slice\<close>).\<close>

definition copy_at :: "nat \<Rightarrow> 'a list \<Rightarrow> 'a list \<Rightarrow> 'a list" where
  "copy_at i src dst = take i dst @ src @ drop (i + length src) dst"

section \<open>Integer encodings\<close>

primrec le_bytes :: "nat \<Rightarrow> nat \<Rightarrow> bytes" where
  "le_bytes 0 x = []"
| "le_bytes (Suc n) x = of_nat (x mod 256) # le_bytes n (x div 256)"

primrec le_value :: "bytes \<Rightarrow> nat" where
  "le_value [] = 0"
| "le_value (b # bs) = unat b + 256 * le_value bs"

definition be_bytes :: "nat \<Rightarrow> nat \<Rightarrow> bytes" where
  "be_bytes n x = rev (le_bytes n x)"

definition be_value :: "bytes \<Rightarrow> nat" where
  "be_value bs = le_value (rev bs)"

definition u32_to_le :: "u32 \<Rightarrow> bytes" where
  "u32_to_le w = le_bytes 4 (unat w)"

definition u32_from_le :: "bytes \<Rightarrow> u32" where
  "u32_from_le bs = of_nat (le_value bs)"

definition u64_to_le :: "u64 \<Rightarrow> bytes" where
  "u64_to_le w = le_bytes 8 (unat w)"

definition u64_from_le :: "bytes \<Rightarrow> u64" where
  "u64_from_le bs = of_nat (le_value bs)"

definition u16_to_be :: "u16 \<Rightarrow> bytes" where
  "u16_to_be w = be_bytes 2 (unat w)"

definition u16_from_be :: "bytes \<Rightarrow> u16" where
  "u16_from_be bs = of_nat (be_value bs)"

definition u32_to_be :: "u32 \<Rightarrow> bytes" where
  "u32_to_be w = be_bytes 4 (unat w)"

definition u32_from_be :: "bytes \<Rightarrow> u32" where
  "u32_from_be bs = of_nat (be_value bs)"

definition u64_to_be :: "u64 \<Rightarrow> bytes" where
  "u64_to_be w = be_bytes 8 (unat w)"

definition u64_from_be :: "bytes \<Rightarrow> u64" where
  "u64_from_be bs = of_nat (be_value bs)"

section \<open>Text\<close>

text \<open>
  A \<open>str\<close> is its bytes: \<open>ascii\<close> gives those of a literal, \<open>hex_width w\<close> those of a number formatted
  with \<open>w\<close> lowercase hexadecimal digits, \<open>decimal\<close> those of a number formatted in decimal.
\<close>

definition ascii :: "string \<Rightarrow> bytes" where
  "ascii s = map of_char s"

definition hex_char :: "nat \<Rightarrow> u8" where
  "hex_char n = (if n < 10 then of_nat (48 + n) else of_nat (87 + n))"

primrec hex_width :: "nat \<Rightarrow> nat \<Rightarrow> bytes" where
  "hex_width 0 n = []"
| "hex_width (Suc w) n = hex_width w (n div 16) @ [hex_char (n mod 16)]"

fun decimal :: "nat \<Rightarrow> bytes" where
  "decimal n = (if n < 10 then [of_nat (48 + n)] else decimal (n div 10) @ [of_nat (48 + n mod 10)])"

declare decimal.simps [simp del]

lemma length_hex_width [simp]: "length (hex_width w n) = w"
  by (induction w arbitrary: n) simp_all

lemma length_ascii [simp]: "length (ascii s) = length s"
  by (simp add: ascii_def)

section \<open>Random number generators\<close>

text \<open>
  \<open>RngCore\<close> of the \<open>rand_core\<close> crate: the generator's state is abstract, every draw returns the
  successor state.
\<close>

record 'g rng =
  next_u32 :: "'g \<Rightarrow> u32 \<times> 'g"
  next_u64 :: "'g \<Rightarrow> u64 \<times> 'g"
  fill_bytes :: "nat \<Rightarrow> 'g \<Rightarrow> bytes \<times> 'g"

definition fills_exactly :: "'g rng \<Rightarrow> bool" where
  "fills_exactly R \<longleftrightarrow> (\<forall>n g. length (fst (fill_bytes R n g)) = n)"

text \<open>
  A generator that does not stay in the upper half of its range for ever. Rejection sampling
  relies on it to end; a uniform generator has it with probability one.
\<close>

definition rng_fair :: "'g rng \<Rightarrow> bool" where
  "rng_fair R \<longleftrightarrow> (\<forall>g. \<exists>n. unat (fst (next_u64 R (((\<lambda>g. snd (next_u64 R g)) ^^ n) g))) < 2 ^ 63)"

text \<open>A generator that only draws zeros, for concrete evaluations.\<close>

definition zero_rng :: "unit rng" where
  "zero_rng = \<lparr> next_u32 = (\<lambda>g. (0, g)), next_u64 = (\<lambda>g. (0, g)),
                fill_bytes = (\<lambda>n g. (replicate n 0, g)) \<rparr>"

section \<open>Runs and reachability\<close>

text \<open>The values a stateful operation hands out along a list of inputs.\<close>

fun handed_out :: "('s \<Rightarrow> 'i \<Rightarrow> 'o option \<times> 's) \<Rightarrow> 's \<Rightarrow> 'i list \<Rightarrow> 'o list" where
  "handed_out op s [] = []"
| "handed_out op s (i # is) =
     (case op s i of
        (None, s') \<Rightarrow> handed_out op s' is
      | (Some v, s') \<Rightarrow> v # handed_out op s' is)"

inductive reachable :: "('s \<Rightarrow> bool) \<Rightarrow> ('s \<Rightarrow> 's \<Rightarrow> bool) \<Rightarrow> 's \<Rightarrow> bool"
  for init :: "'s \<Rightarrow> bool" and step :: "'s \<Rightarrow> 's \<Rightarrow> bool"
  where
    reachable_init: "init s \<Longrightarrow> reachable init step s"
  | reachable_step: "reachable init step s \<Longrightarrow> step s s' \<Longrightarrow> reachable init step s'"

section \<open>Facts on results, slices and lengths\<close>

lemma is_ok_simps [simp]: "is_ok (Inr a)" "\<not> is_ok (Inl e)"
  by (simp_all add: is_ok_def)

lemma and_then_simps [simp]: "and_then (Inl e) f = Inl e" "and_then (Inr a) f = f a"
  by (simp_all add: and_then_def)

lemma and_then_Inr_iff: "and_then r f = Inr b \<longleftrightarrow> (\<exists>a. r = Inr a \<and> f a = Inr b)"
  by (cases r) auto

lemma and_then_Inl_iff: "and_then r f = Inl e \<longleftrightarrow> r = Inl e \<or> (\<exists>a. r = Inr a \<and> f a = Inl e)"
  by (cases r) auto

lemma length_slice [simp, len_simps]: "j \<le> length xs \<Longrightarrow> length (slice i j xs) = j - i"
  by (simp add: slice_def)

lemma slice_append_left [simp]: "j \<le> length xs \<Longrightarrow> slice i j (xs @ ys) = slice i j xs"
  by (auto simp: slice_def)

lemma slice_append_right [simp]:
  "length xs \<le> i \<Longrightarrow> slice i j (xs @ ys) = slice (i - length xs) (j - length xs) ys"
  by (simp add: slice_def)

lemma slice_full [simp]: "length xs \<le> j \<Longrightarrow> slice 0 j xs = xs"
  by (simp add: slice_def)

lemma length_copy_at [simp, len_simps]:
  "i + length src \<le> length dst \<Longrightarrow> length (copy_at i src dst) = length dst"
  by (simp add: copy_at_def)

lemma checked_add_Some: "checked_add a b = Some c \<longleftrightarrow> c = a + b \<and> a + b \<le> usize_max"
  by (auto simp: checked_add_def)

lemma zero_rng_fair: "rng_fair zero_rng"
  by (simp add: rng_fair_def zero_rng_def)

lemma zero_rng_fills: "fills_exactly zero_rng"
  by (simp add: fills_exactly_def zero_rng_def)

section \<open>Codec laws\<close>

lemma length_le_bytes [simp, len_simps]: "length (le_bytes n x) = n"
  by (induction n arbitrary: x) simp_all

lemma length_be_bytes [simp, len_simps]: "length (be_bytes n x) = n"
  by (simp add: be_bytes_def)

lemma unat_bound: "unat (w :: 'a::len word) < 2 ^ LENGTH('a)"
  by (fact unsigned_less)

lemma unat_ucast_up [simp]:
  assumes "LENGTH('a::len) \<le> LENGTH('b::len)"
  shows "unat (ucast (w :: 'a word) :: 'b word) = unat w"
proof -
  have "unat w < 2 ^ LENGTH('b)"
    using unat_bound [of w] power_increasing [OF assms, of "2::nat"] by linarith
  then show ?thesis by (simp add: unsigned_ucast_eq take_bit_nat_eq_self)
qed

lemma unat_ucast_down: "unat w < 2 ^ LENGTH('b::len) \<Longrightarrow> unat (ucast (w :: 'a::len word) :: 'b word) = unat w"
  by (simp add: unsigned_ucast_eq take_bit_nat_eq_self)

lemma unat_minus_one [simp]: "unat (- 1 :: 'a::len word) = 2 ^ LENGTH('a) - 1"
  by (simp add: unsigned_minus_1_eq_mask mask_eq_exp_minus_1)

lemma unat_add_nowrap:
  "unat a + unat b < 2 ^ LENGTH('a) \<Longrightarrow> unat (a + b) = unat a + unat (b :: 'a::len word)"
  by (simp add: unat_word_ariths)

lemma unat_of_nat_u64: "n < 2 ^ 64 \<Longrightarrow> unat (of_nat n :: u64) = n"
  by (simp add: unat_of_nat)

lemma unat_byte_of_nat [simp]: "unat (of_nat (x mod 256) :: u8) = x mod 256"
  by (simp add: unat_of_nat)

lemma le_value_le_bytes: "le_value (le_bytes n x) = x mod 256 ^ n"
proof (induction n arbitrary: x)
  case (Suc n)
  have "x mod 256 + 256 * (x div 256 mod 256 ^ n) = x mod (256 * 256 ^ n)"
    by (simp add: mod_mult2_eq)
  with Suc show ?case by simp
qed simp

lemma le_value_less: "le_value bs < 256 ^ length bs"
proof (induction bs)
  case (Cons b bs)
  have "unat b < 256" using unat_bound [of b] by simp
  with Cons show ?case by simp
qed simp

lemma le_bytes_le_value: "le_bytes (length bs) (le_value bs) = bs"
proof (induction bs)
  case (Cons b bs)
  have b: "unat b < 256" using unat_bound [of b] by simp
  then have "(unat b + 256 * le_value bs) div 256 = le_value bs"
    and "(unat b + 256 * le_value bs) mod 256 = unat b"
    by simp_all
  with Cons show ?case by simp
qed simp

lemma be_value_be_bytes: "be_value (be_bytes n x) = x mod 256 ^ n"
  by (simp add: be_value_def be_bytes_def le_value_le_bytes)

lemma be_bytes_be_value: "be_bytes (length bs) (be_value bs) = bs"
  using le_bytes_le_value [of "rev bs"] by (simp add: be_value_def be_bytes_def)

lemma be_value_less: "be_value bs < 256 ^ length bs"
  using le_value_less [of "rev bs"] by (simp add: be_value_def)

text \<open>
  The contract of a fixed-width field of the wire format: an encoder, a decoder and the width.
\<close>

locale byte_codec =
  fixes enc :: "'a \<Rightarrow> bytes" and dec :: "bytes \<Rightarrow> 'a" and width :: nat
  assumes enc_width: "length (enc a) = width"
    and dec_enc: "dec (enc a) = a"
    and enc_dec: "length bs = width \<Longrightarrow> enc (dec bs) = bs"
begin

lemma enc_inject: "enc a = enc b \<longleftrightarrow> a = b"
  by (metis dec_enc)

lemma dec_field: "length pre = i \<Longrightarrow> j = i + width \<Longrightarrow> dec (slice i j (pre @ enc a @ post)) = a"
  by (simp add: slice_def enc_width dec_enc)

lemma dec_inject: "length bs = width \<Longrightarrow> length cs = width \<Longrightarrow> dec bs = dec cs \<longleftrightarrow> bs = cs"
  by (metis enc_dec)

end

interpretation le32: byte_codec u32_to_le u32_from_le 4
proof unfold_locales
  fix a :: u32
  show "length (u32_to_le a) = 4" by (simp add: u32_to_le_def)
  have "unat a < 256 ^ 4" using unat_bound [of a] by simp
  then show "u32_from_le (u32_to_le a) = a"
    by (simp add: u32_to_le_def u32_from_le_def le_value_le_bytes)
next
  fix bs :: bytes assume l: "length bs = 4"
  then have "le_value bs < 2 ^ 32" using le_value_less [of bs] by simp
  then show "u32_to_le (u32_from_le bs) = bs"
    using le_bytes_le_value [of bs] l by (simp add: u32_to_le_def u32_from_le_def unat_of_nat)
qed

interpretation le64: byte_codec u64_to_le u64_from_le 8
proof unfold_locales
  fix a :: u64
  show "length (u64_to_le a) = 8" by (simp add: u64_to_le_def)
  have "unat a < 256 ^ 8" using unat_bound [of a] by simp
  then show "u64_from_le (u64_to_le a) = a"
    by (simp add: u64_to_le_def u64_from_le_def le_value_le_bytes)
next
  fix bs :: bytes assume l: "length bs = 8"
  then have "le_value bs < 2 ^ 64" using le_value_less [of bs] by simp
  then show "u64_to_le (u64_from_le bs) = bs"
    using le_bytes_le_value [of bs] l by (simp add: u64_to_le_def u64_from_le_def unat_of_nat)
qed

interpretation be16: byte_codec u16_to_be u16_from_be 2
proof unfold_locales
  fix a :: u16
  show "length (u16_to_be a) = 2" by (simp add: u16_to_be_def)
  have "unat a < 256 ^ 2" using unat_bound [of a] by simp
  then show "u16_from_be (u16_to_be a) = a"
    by (simp add: u16_to_be_def u16_from_be_def be_value_be_bytes)
next
  fix bs :: bytes assume l: "length bs = 2"
  then have "be_value bs < 2 ^ 16" using be_value_less [of bs] by simp
  then show "u16_to_be (u16_from_be bs) = bs"
    using be_bytes_be_value [of bs] l by (simp add: u16_to_be_def u16_from_be_def unat_of_nat)
qed

interpretation be32: byte_codec u32_to_be u32_from_be 4
proof unfold_locales
  fix a :: u32
  show "length (u32_to_be a) = 4" by (simp add: u32_to_be_def)
  have "unat a < 256 ^ 4" using unat_bound [of a] by simp
  then show "u32_from_be (u32_to_be a) = a"
    by (simp add: u32_to_be_def u32_from_be_def be_value_be_bytes)
next
  fix bs :: bytes assume l: "length bs = 4"
  then have "be_value bs < 2 ^ 32" using be_value_less [of bs] by simp
  then show "u32_to_be (u32_from_be bs) = bs"
    using be_bytes_be_value [of bs] l by (simp add: u32_to_be_def u32_from_be_def unat_of_nat)
qed

interpretation be64: byte_codec u64_to_be u64_from_be 8
proof unfold_locales
  fix a :: u64
  show "length (u64_to_be a) = 8" by (simp add: u64_to_be_def)
  have "unat a < 256 ^ 8" using unat_bound [of a] by simp
  then show "u64_from_be (u64_to_be a) = a"
    by (simp add: u64_to_be_def u64_from_be_def be_value_be_bytes)
next
  fix bs :: bytes assume l: "length bs = 8"
  then have "be_value bs < 2 ^ 64" using be_value_less [of bs] by simp
  then show "u64_to_be (u64_from_be bs) = bs"
    using be_bytes_be_value [of bs] l by (simp add: u64_to_be_def u64_from_be_def unat_of_nat)
qed

lemmas enc_widths [simp, len_simps] =
  le32.enc_width le64.enc_width be16.enc_width be32.enc_width be64.enc_width

lemmas dec_encs [simp, codec_simps] =
  le32.dec_enc le64.dec_enc be16.dec_enc be32.dec_enc be64.dec_enc

section \<open>Contracts of stateful operations\<close>

text \<open>
  An operation that hands out values (a nonce to send with, a counter it accepts) from a
  state \<open>s\<close>, where \<open>spent s\<close> are the values it will never hand out again.
\<close>

locale one_time =
  fixes op :: "'s \<Rightarrow> 'i \<Rightarrow> 'o option \<times> 's"
    and inv :: "'s \<Rightarrow> bool"
    and spent :: "'s \<Rightarrow> 'o set"
  assumes op_inv: "inv s \<Longrightarrow> inv (snd (op s i))"
    and op_fresh: "inv s \<Longrightarrow> fst (op s i) = Some v \<Longrightarrow> v \<notin> spent s \<and> v \<in> spent (snd (op s i))"
    and op_spent: "inv s \<Longrightarrow> spent s \<subseteq> spent (snd (op s i))"
begin

lemma handed_out_unspent: "inv s \<Longrightarrow> v \<in> set (handed_out op s is) \<Longrightarrow> v \<notin> spent s"
proof (induction "is" arbitrary: s)
  case (Cons i "is")
  obtain r s' where op: "op s i = (r, s')" by (cases "op s i")
  have s': "inv s'" "spent s \<subseteq> spent s'"
    using op_inv [OF Cons.prems(1), of i] op_spent [OF Cons.prems(1), of i] op by auto
  show ?case
    using Cons op s' op_fresh [OF Cons.prems(1), of i] by (cases r) auto
qed simp

lemma handed_out_distinct: "inv s \<Longrightarrow> distinct (handed_out op s is)"
proof (induction "is" arbitrary: s)
  case (Cons i "is")
  obtain r s' where op: "op s i = (r, s')" by (cases "op s i")
  have s': "inv s'" using op_inv [OF Cons.prems, of i] op by auto
  show ?case
    using Cons op s' op_fresh [OF Cons.prems, of i] handed_out_unspent [OF s'] by (cases r) auto
qed simp

end

text \<open>A state machine with an inductive invariant.\<close>

locale invariant_system =
  fixes init :: "'s \<Rightarrow> bool" and step :: "'s \<Rightarrow> 's \<Rightarrow> bool" and inv :: "'s \<Rightarrow> bool"
  assumes inv_init: "init s \<Longrightarrow> inv s"
    and inv_step: "inv s \<Longrightarrow> step s s' \<Longrightarrow> inv s'"
begin

lemma reachable_inv: "reachable init step s \<Longrightarrow> inv s"
  by (induction rule: reachable.induct) (auto intro: inv_init inv_step)

end

end
