(* ===== verification/Wire.thy ===== *)
theory Wire
  imports Prelude
begin

text \<open>
  The wire vocabulary of the tunnel: the error values (\<open>noise/errors.rs\<close>), the four message
  kinds with their sizes and parsed forms, the obfuscation tag ranges H1 to H4 that replace the
  WireGuard message types (\<open>noise/handshake.rs\<close>), and the parser of a received datagram
  (\<open>Tunn::parse_incoming_packet\<close> in \<open>noise/mod.rs\<close>).

  The lemmas show that validated ranges are non-empty and pairwise disjoint, that a tag drawn
  from a range lies in it (and that the rejection loop that draws it ends for a generator that
  does not refuse forever), that no datagram has two readings, and that the parser inverts the
  byte layouts the senders write.
\<close>

section \<open>Errors\<close>

datatype wg_error =
    DestinationBufferTooSmall
  | IncorrectPacketLength
  | UnexpectedPacket
  | WrongPacketType
  | WrongIndex
  | WrongKey
  | InvalidTai64nTimestamp
  | WrongTai64nTimestamp
  | InvalidMac
  | InvalidAeadTag
  | InvalidCounter
  | DuplicateCounter
  | InvalidPacket
  | NoCurrentSession
  | LockFailed
  | ConnectionExpired
  | UnderLoad
  | PacketQueueFull
  | OutputBudgetExceeded
  | InvalidPacketInfo

section \<open>Message kinds and sizes\<close>

definition HANDSHAKE_INIT :: u32 where "HANDSHAKE_INIT = 1"
definition HANDSHAKE_RESP :: u32 where "HANDSHAKE_RESP = 2"
definition COOKIE_REPLY :: u32 where "COOKIE_REPLY = 3"
definition DATA :: u32 where "DATA = 4"

definition HANDSHAKE_INIT_SZ :: nat where "HANDSHAKE_INIT_SZ = 148"
definition HANDSHAKE_RESP_SZ :: nat where "HANDSHAKE_RESP_SZ = 92"
definition COOKIE_REPLY_SZ :: nat where "COOKIE_REPLY_SZ = 64"
definition DATA_OVERHEAD_SZ :: nat where "DATA_OVERHEAD_SZ = 32"

lemmas message_sizes =
  HANDSHAKE_INIT_SZ_def HANDSHAKE_RESP_SZ_def COOKIE_REPLY_SZ_def DATA_OVERHEAD_SZ_def

lemmas message_types = HANDSHAKE_INIT_def HANDSHAKE_RESP_def COOKIE_REPLY_def DATA_def

record handshake_init =
  hi_sender_idx :: u32
  hi_unencrypted_ephemeral :: bytes
  hi_encrypted_static :: bytes
  hi_encrypted_timestamp :: bytes

record handshake_response =
  hr_sender_idx :: u32
  hr_receiver_idx :: u32
  hr_unencrypted_ephemeral :: bytes
  hr_encrypted_nothing :: bytes

record packet_cookie_reply =
  cr_receiver_idx :: u32
  cr_nonce :: bytes
  cr_encrypted_cookie :: bytes

record packet_data =
  pd_receiver_idx :: u32
  pd_counter :: u64
  pd_encrypted_encapsulated_packet :: bytes

datatype packet =
    PHandshakeInit handshake_init
  | PHandshakeResponse handshake_response
  | PPacketCookieReply packet_cookie_reply
  | PPacketData packet_data

section \<open>Tag ranges\<close>

record tag_range =
  tr_start :: u32
  tr_end :: u32

definition tag_contains :: "tag_range \<Rightarrow> u32 \<Rightarrow> bool" where
  "tag_contains r v \<longleftrightarrow> v \<ge> tr_start r \<and> v \<le> tr_end r"

text \<open>The rejection loop of \<open>TagRange::random\<close>: the generator state and the last draw.\<close>

definition tag_range_size :: "tag_range \<Rightarrow> u64" where
  "tag_range_size r = (ucast (tr_end r) - ucast (tr_start r)) + 1"

definition tag_threshold :: "tag_range \<Rightarrow> u64" where
  "tag_threshold r = (- 1) - ((- 1) mod tag_range_size r)"

definition tag_draw_loop :: "'g rng \<Rightarrow> tag_range \<Rightarrow> u64 \<times> 'g \<Rightarrow> (u64 \<times> 'g) option" where
  "tag_draw_loop R r =
     while_option (\<lambda>(v, g). \<not> v < tag_threshold r) (\<lambda>(v, g). next_u64 R g)"

definition tag_random :: "'g rng \<Rightarrow> tag_range \<Rightarrow> 'g \<Rightarrow> u32 \<times> 'g" where
  "tag_random R r g =
     (if tr_start r = tr_end r then (tr_start r, g)
      else if tr_start r = 0 \<and> tr_end r = - 1 then next_u32 R g
      else let (val, g') = the (tag_draw_loop R r (next_u64 R g))
           in (tr_start r + ucast (val mod tag_range_size r), g'))"

definition tag_overlaps :: "tag_range \<Rightarrow> tag_range \<Rightarrow> bool" where
  "tag_overlaps a b \<longleftrightarrow> tr_start a \<le> tr_end b \<and> tr_start b \<le> tr_end a"

record obfuscation_ranges =
  h1_init :: tag_range
  h2_resp :: tag_range
  h3_cookie :: tag_range
  h4_data :: tag_range

definition obfuscation_default :: obfuscation_ranges where
  "obfuscation_default = \<lparr>
     h1_init = \<lparr> tr_start = HANDSHAKE_INIT, tr_end = HANDSHAKE_INIT \<rparr>,
     h2_resp = \<lparr> tr_start = HANDSHAKE_RESP, tr_end = HANDSHAKE_RESP \<rparr>,
     h3_cookie = \<lparr> tr_start = COOKIE_REPLY, tr_end = COOKIE_REPLY \<rparr>,
     h4_data = \<lparr> tr_start = DATA, tr_end = DATA \<rparr> \<rparr>"

text \<open>The two messages of \<open>ObfuscationRanges::new\<close>, with the values they print.\<close>

datatype range_error =
    InvalidRange string u32 u32
  | RangesOverlap string tag_range string tag_range u32 u32

definition resolve_range :: "string \<Rightarrow> u32 \<Rightarrow> u32 \<Rightarrow> u32 \<Rightarrow> range_error + tag_range" where
  "resolve_range name s e dflt =
     (if s = 0 \<and> e = 0 then Ok \<lparr> tr_start = dflt, tr_end = dflt \<rparr>
      else if e = 0 then Ok \<lparr> tr_start = s, tr_end = s \<rparr>
      else if s \<le> e then Ok \<lparr> tr_start = s, tr_end = e \<rparr>
      else Err (InvalidRange name s e))"

text \<open>The inner and the outer loop of the pairwise check; the first overlap found is reported.\<close>

fun overlap_with :: "string \<times> tag_range \<Rightarrow> (string \<times> tag_range) list \<Rightarrow> range_error option" where
  "overlap_with a [] = None"
| "overlap_with a (b # bs) =
     (if tag_overlaps (snd a) (snd b)
      then Some (RangesOverlap (fst a) (snd a) (fst b) (snd b)
                   (max (tr_start (snd a)) (tr_start (snd b)))
                   (min (tr_end (snd a)) (tr_end (snd b))))
      else overlap_with a bs)"

fun first_overlap :: "(string \<times> tag_range) list \<Rightarrow> range_error option" where
  "first_overlap [] = None"
| "first_overlap (a # as) =
     (case overlap_with a as of Some e \<Rightarrow> Some e | None \<Rightarrow> first_overlap as)"

definition obfuscation_new ::
  "u32 \<Rightarrow> u32 \<Rightarrow> u32 \<Rightarrow> u32 \<Rightarrow> u32 \<Rightarrow> u32 \<Rightarrow> u32 \<Rightarrow> u32 \<Rightarrow> range_error + obfuscation_ranges" where
  "obfuscation_new h1s h1e h2s h2e h3s h3e h4s h4e =
     and_then (resolve_range ''H1'' h1s h1e HANDSHAKE_INIT) (\<lambda>h1.
     and_then (resolve_range ''H2'' h2s h2e HANDSHAKE_RESP) (\<lambda>h2.
     and_then (resolve_range ''H3'' h3s h3e COOKIE_REPLY) (\<lambda>h3.
     and_then (resolve_range ''H4'' h4s h4e DATA) (\<lambda>h4.
     (case first_overlap [(''H1'', h1), (''H2'', h2), (''H3'', h3), (''H4'', h4)] of
        Some e \<Rightarrow> Err e
      | None \<Rightarrow> Ok \<lparr> h1_init = h1, h2_resp = h2, h3_cookie = h3, h4_data = h4 \<rparr>)))))"

definition matches_h1 :: "obfuscation_ranges \<Rightarrow> u32 \<Rightarrow> bool" where
  "matches_h1 obf v = tag_contains (h1_init obf) v"

definition matches_h2 :: "obfuscation_ranges \<Rightarrow> u32 \<Rightarrow> bool" where
  "matches_h2 obf v = tag_contains (h2_resp obf) v"

definition matches_h3 :: "obfuscation_ranges \<Rightarrow> u32 \<Rightarrow> bool" where
  "matches_h3 obf v = tag_contains (h3_cookie obf) v"

definition matches_h4 :: "obfuscation_ranges \<Rightarrow> u32 \<Rightarrow> bool" where
  "matches_h4 obf v = tag_contains (h4_data obf) v"

definition random_h1 :: "'g rng \<Rightarrow> obfuscation_ranges \<Rightarrow> 'g \<Rightarrow> u32 \<times> 'g" where
  "random_h1 R obf = tag_random R (h1_init obf)"

definition random_h2 :: "'g rng \<Rightarrow> obfuscation_ranges \<Rightarrow> 'g \<Rightarrow> u32 \<times> 'g" where
  "random_h2 R obf = tag_random R (h2_resp obf)"

definition random_h3 :: "'g rng \<Rightarrow> obfuscation_ranges \<Rightarrow> 'g \<Rightarrow> u32 \<times> 'g" where
  "random_h3 R obf = tag_random R (h3_cookie obf)"

definition random_h4 :: "'g rng \<Rightarrow> obfuscation_ranges \<Rightarrow> 'g \<Rightarrow> u32 \<times> 'g" where
  "random_h4 R obf = tag_random R (h4_data obf)"

lemmas matches_defs = matches_h1_def matches_h2_def matches_h3_def matches_h4_def
lemmas random_defs = random_h1_def random_h2_def random_h3_def random_h4_def

section \<open>Parsing a datagram\<close>

definition parse_incoming_packet :: "obfuscation_ranges \<Rightarrow> bytes \<Rightarrow> wg_error + packet" where
  "parse_incoming_packet obf src =
     (if length src < 4 then Err InvalidPacket
      else
        let packet_type = u32_from_le (slice 0 4 src) in
        if length src = HANDSHAKE_INIT_SZ \<and> matches_h1 obf packet_type then
          Ok (PHandshakeInit \<lparr>
            hi_sender_idx = u32_from_le (slice 4 8 src),
            hi_unencrypted_ephemeral = slice 8 40 src,
            hi_encrypted_static = slice 40 88 src,
            hi_encrypted_timestamp = slice 88 116 src \<rparr>)
        else if length src = HANDSHAKE_RESP_SZ \<and> matches_h2 obf packet_type then
          Ok (PHandshakeResponse \<lparr>
            hr_sender_idx = u32_from_le (slice 4 8 src),
            hr_receiver_idx = u32_from_le (slice 8 12 src),
            hr_unencrypted_ephemeral = slice 12 44 src,
            hr_encrypted_nothing = slice 44 60 src \<rparr>)
        else if length src = COOKIE_REPLY_SZ \<and> matches_h3 obf packet_type then
          Ok (PPacketCookieReply \<lparr>
            cr_receiver_idx = u32_from_le (slice 4 8 src),
            cr_nonce = slice 8 32 src,
            cr_encrypted_cookie = slice 32 64 src \<rparr>)
        else if DATA_OVERHEAD_SZ \<le> length src \<and> matches_h4 obf packet_type then
          Ok (PPacketData \<lparr>
            pd_receiver_idx = u32_from_le (slice 4 8 src),
            pd_counter = u64_from_le (slice 8 16 src),
            pd_encrypted_encapsulated_packet = drop 16 src \<rparr>)
        else Err InvalidPacket)"

section \<open>IP addresses\<close>

text \<open>\<open>std::net::IpAddr\<close> by its octets.\<close>

datatype ip_addr = IpV4 bytes | IpV6 bytes

definition IPV4_MIN_HEADER_SIZE :: nat where "IPV4_MIN_HEADER_SIZE = 20"
definition IPV4_LEN_OFF :: nat where "IPV4_LEN_OFF = 2"
definition IPV4_SRC_IP_OFF :: nat where "IPV4_SRC_IP_OFF = 12"
definition IPV4_DST_IP_OFF :: nat where "IPV4_DST_IP_OFF = 16"
definition IPV4_IP_SZ :: nat where "IPV4_IP_SZ = 4"
definition IPV6_MIN_HEADER_SIZE :: nat where "IPV6_MIN_HEADER_SIZE = 40"
definition IPV6_LEN_OFF :: nat where "IPV6_LEN_OFF = 4"
definition IPV6_SRC_IP_OFF :: nat where "IPV6_SRC_IP_OFF = 8"
definition IPV6_DST_IP_OFF :: nat where "IPV6_DST_IP_OFF = 24"
definition IPV6_IP_SZ :: nat where "IPV6_IP_SZ = 16"
definition IP_LEN_SZ :: nat where "IP_LEN_SZ = 2"

lemmas ip_consts =
  IPV4_MIN_HEADER_SIZE_def IPV4_LEN_OFF_def IPV4_SRC_IP_OFF_def IPV4_DST_IP_OFF_def IPV4_IP_SZ_def
  IPV6_MIN_HEADER_SIZE_def IPV6_LEN_OFF_def IPV6_SRC_IP_OFF_def IPV6_DST_IP_OFF_def IPV6_IP_SZ_def
  IP_LEN_SZ_def

definition dst_address :: "bytes \<Rightarrow> ip_addr option" where
  "dst_address packet =
     (if packet = [] then None
      else if drop_bit 4 (hd packet) = 4 \<and> length packet \<ge> IPV4_MIN_HEADER_SIZE then
        Some (IpV4 (slice IPV4_DST_IP_OFF (IPV4_DST_IP_OFF + IPV4_IP_SZ) packet))
      else if drop_bit 4 (hd packet) = 6 \<and> length packet \<ge> IPV6_MIN_HEADER_SIZE then
        Some (IpV6 (slice IPV6_DST_IP_OFF (IPV6_DST_IP_OFF + IPV6_IP_SZ) packet))
      else None)"

section \<open>Well-formed ranges\<close>

definition tag_nonempty :: "tag_range \<Rightarrow> bool" where
  "tag_nonempty r \<longleftrightarrow> tr_start r \<le> tr_end r"

definition ranges_valid :: "obfuscation_ranges \<Rightarrow> bool" where
  "ranges_valid obf \<longleftrightarrow>
     tag_nonempty (h1_init obf) \<and> tag_nonempty (h2_resp obf) \<and>
     tag_nonempty (h3_cookie obf) \<and> tag_nonempty (h4_data obf) \<and>
     \<not> tag_overlaps (h1_init obf) (h2_resp obf) \<and> \<not> tag_overlaps (h1_init obf) (h3_cookie obf) \<and>
     \<not> tag_overlaps (h1_init obf) (h4_data obf) \<and> \<not> tag_overlaps (h2_resp obf) (h3_cookie obf) \<and>
     \<not> tag_overlaps (h2_resp obf) (h4_data obf) \<and> \<not> tag_overlaps (h3_cookie obf) (h4_data obf)"

lemma resolve_range_nonempty: "resolve_range n s e d = Inr r \<Longrightarrow> tag_nonempty r"
  by (auto simp: resolve_range_def tag_nonempty_def split: if_splits)

lemma tag_overlaps_iff:
  "tag_nonempty a \<Longrightarrow> tag_nonempty b \<Longrightarrow>
   tag_overlaps a b \<longleftrightarrow> (\<exists>v. tag_contains a v \<and> tag_contains b v)"
proof
  assume ne: "tag_nonempty a" "tag_nonempty b" and o: "tag_overlaps a b"
  then have "tag_contains a (max (tr_start a) (tr_start b)) \<and> tag_contains b (max (tr_start a) (tr_start b))"
    by (simp add: tag_nonempty_def tag_overlaps_def tag_contains_def)
  then show "\<exists>v. tag_contains a v \<and> tag_contains b v" by blast
qed (auto simp: tag_overlaps_def tag_contains_def)

lemma disjoint_ranges:
  "\<not> tag_overlaps a b \<Longrightarrow> tag_contains a v \<Longrightarrow> \<not> tag_contains b v"
  by (auto simp: tag_overlaps_def tag_contains_def)

lemma first_overlap_four:
  "first_overlap [(n1, a), (n2, b), (n3, c), (n4, d)] = None \<longleftrightarrow>
   \<not> tag_overlaps a b \<and> \<not> tag_overlaps a c \<and> \<not> tag_overlaps a d \<and>
   \<not> tag_overlaps b c \<and> \<not> tag_overlaps b d \<and> \<not> tag_overlaps c d"
  by (simp split: option.splits)

lemma ranges_valid_default: "ranges_valid obfuscation_default"
  by (simp add: ranges_valid_def obfuscation_default_def tag_nonempty_def tag_overlaps_def
      message_types word_le_nat_alt)

lemma obfuscation_new_ok:
  "obfuscation_new a1 b1 a2 b2 a3 b3 a4 b4 = Inr obf \<longleftrightarrow>
   resolve_range ''H1'' a1 b1 HANDSHAKE_INIT = Inr (h1_init obf) \<and>
   resolve_range ''H2'' a2 b2 HANDSHAKE_RESP = Inr (h2_resp obf) \<and>
   resolve_range ''H3'' a3 b3 COOKIE_REPLY = Inr (h3_cookie obf) \<and>
   resolve_range ''H4'' a4 b4 DATA = Inr (h4_data obf) \<and> ranges_valid obf"
proof -
  have "resolve_range ''H1'' a1 b1 HANDSHAKE_INIT = Inr h1 \<Longrightarrow>
        resolve_range ''H2'' a2 b2 HANDSHAKE_RESP = Inr h2 \<Longrightarrow>
        resolve_range ''H3'' a3 b3 COOKIE_REPLY = Inr h3 \<Longrightarrow>
        resolve_range ''H4'' a4 b4 DATA = Inr h4 \<Longrightarrow>
        first_overlap [(''H1'', h1), (''H2'', h2), (''H3'', h3), (''H4'', h4)] = None \<longleftrightarrow>
        ranges_valid \<lparr>h1_init = h1, h2_resp = h2, h3_cookie = h3, h4_data = h4\<rparr>" for h1 h2 h3 h4
    unfolding first_overlap_four
    by (simp add: ranges_valid_def resolve_range_nonempty)
  note valid = this
  show ?thesis
  proof (cases "resolve_range ''H1'' a1 b1 HANDSHAKE_INIT"; cases "resolve_range ''H2'' a2 b2 HANDSHAKE_RESP";
      cases "resolve_range ''H3'' a3 b3 COOKIE_REPLY"; cases "resolve_range ''H4'' a4 b4 DATA")
    fix h1 h2 h3 h4
    assume r: "resolve_range ''H1'' a1 b1 HANDSHAKE_INIT = Inr h1"
      "resolve_range ''H2'' a2 b2 HANDSHAKE_RESP = Inr h2"
      "resolve_range ''H3'' a3 b3 COOKIE_REPLY = Inr h3" "resolve_range ''H4'' a4 b4 DATA = Inr h4"
    show ?thesis
      using valid [OF r] unfolding obfuscation_new_def r and_then_simps
      by (cases obf) (auto simp del: first_overlap.simps split: option.splits)
  qed (simp_all add: obfuscation_new_def)
qed

lemma matches_exclusive:
  assumes "ranges_valid obf"
  shows "\<not> (matches_h1 obf v \<and> matches_h2 obf v)" "\<not> (matches_h1 obf v \<and> matches_h3 obf v)"
    "\<not> (matches_h1 obf v \<and> matches_h4 obf v)" "\<not> (matches_h2 obf v \<and> matches_h3 obf v)"
    "\<not> (matches_h2 obf v \<and> matches_h4 obf v)" "\<not> (matches_h3 obf v \<and> matches_h4 obf v)"
  using assms by (simp_all add: ranges_valid_def matches_defs) (meson disjoint_ranges)+

section \<open>Drawing a tag\<close>

lemma unat_tag_range_size:
  assumes "tag_nonempty r"
  shows "unat (tag_range_size r) = unat (tr_end r) - unat (tr_start r) + 1"
proof -
  let ?e = "ucast (tr_end r) :: u64" and ?s = "ucast (tr_start r) :: u64"
  have le: "?s \<le> ?e" using assms by (simp add: tag_nonempty_def word_le_nat_alt)
  have d: "unat (?e - ?s) = unat (tr_end r) - unat (tr_start r)"
    using le by (simp add: unat_sub)
  have "unat (tr_end r) < 2 ^ 32" using unat_bound [of "tr_end r"] by simp
  then have "unat (?e - ?s + 1) = unat (?e - ?s) + 1"
    using d by (subst unat_add_nowrap) simp_all
  then show ?thesis using d by (simp add: tag_range_size_def)
qed

lemma tag_threshold_high:
  assumes "tag_nonempty r"
  shows "2 ^ 63 \<le> unat (tag_threshold r)"
proof -
  let ?n = "unat (tag_range_size r)"
  have n: "0 < ?n" "?n \<le> 2 ^ 32"
    using unat_bound [of "tr_end r"] by (simp_all add: unat_tag_range_size [OF assms])
  have m1: "unat (- 1 :: u64) = 2 ^ 64 - 1" by simp
  have "unat ((- 1 :: u64) mod tag_range_size r) < ?n"
    using n by (simp add: unat_mod_distrib)
  moreover have "unat (tag_threshold r) = 2 ^ 64 - 1 - unat ((- 1 :: u64) mod tag_range_size r)"
    unfolding tag_threshold_def by (subst unat_sub) (simp_all add: m1)
  ultimately show ?thesis using n by simp
qed

lemma tag_draw_loop_iterate:
  "((\<lambda>(v :: u64, g). next_u64 R g) ^^ n) (next_u64 R g) = next_u64 R (((\<lambda>g. snd (next_u64 R g)) ^^ n) g)"
  by (induction n) (simp_all add: case_prod_beta)

lemma tag_draw_loop_ends:
  assumes "rng_fair R" "tag_nonempty r"
  obtains v g' where "tag_draw_loop R r (next_u64 R g) = Some (v, g')" "v < tag_threshold r"
proof -
  from assms(1) obtain n
    where "unat (fst (next_u64 R (((\<lambda>g. snd (next_u64 R g)) ^^ n) g))) < 2 ^ 63"
    unfolding rng_fair_def by blast
  then have "\<exists>k. \<not> (\<lambda>(v, g). \<not> v < tag_threshold r) (((\<lambda>(v :: u64, g). next_u64 R g) ^^ k) (next_u64 R g))"
    using tag_threshold_high [OF assms(2)] unfolding tag_draw_loop_iterate
    by (intro exI [of _ n]) (simp add: case_prod_beta word_less_nat_alt)
  then obtain s where s: "tag_draw_loop R r (next_u64 R g) = Some s"
    unfolding tag_draw_loop_def while_option_def by auto
  moreover have "fst s < tag_threshold r"
    using while_option_stop [OF s [unfolded tag_draw_loop_def]] by (simp add: case_prod_beta)
  ultimately show thesis using that by (cases s) auto
qed

lemma tag_random_contains:
  assumes "rng_fair R" "tag_nonempty r"
  shows "tag_contains r (fst (tag_random R r g))"
proof (cases "tr_start r = tr_end r \<or> tr_start r = 0 \<and> tr_end r = - 1")
  case True
  then show ?thesis
    by (auto simp: tag_random_def tag_contains_def)
next
  case False
  obtain v g' where v: "tag_draw_loop R r (next_u64 R g) = Some (v, g')"
    by (rule tag_draw_loop_ends [OF assms])
  let ?d = "unat (v mod tag_range_size r)"
  have n: "0 < unat (tag_range_size r)" by (simp add: unat_tag_range_size [OF assms(2)])
  then have d: "?d \<le> unat (tr_end r) - unat (tr_start r)"
    using mod_less_divisor [OF n, of "unat v"] 
    by (simp add: unat_mod_distrib unat_tag_range_size [OF assms(2)])
  have le: "unat (tr_start r) \<le> unat (tr_end r)"
    using assms(2) by (simp add: tag_nonempty_def word_le_nat_alt)
  have b: "unat (tr_end r) < 2 ^ 32" using unat_bound [of "tr_end r"] by simp
  have u: "unat (ucast (v mod tag_range_size r) :: u32) = ?d"
    using d b by (simp add: unat_ucast_down)
  have "unat (tr_start r + ucast (v mod tag_range_size r)) = unat (tr_start r) + ?d"
    using d b le u by (subst unat_add_nowrap) simp_all
  then show ?thesis
    using False v d le by (auto simp: tag_random_def tag_contains_def word_le_nat_alt)
qed

section \<open>Byte layouts\<close>

lemma parse_init_layout:
  assumes "matches_h1 obf tag"
    "length eph = 32" "length es = 48" "length et = 28" "length mac1 = 16" "length mac2 = 16"
  shows "parse_incoming_packet obf (u32_to_le tag @ u32_to_le si @ eph @ es @ et @ mac1 @ mac2) =
    Ok (PHandshakeInit \<lparr> hi_sender_idx = si, hi_unencrypted_ephemeral = eph,
      hi_encrypted_static = es, hi_encrypted_timestamp = et \<rparr>)"
  using assms by (simp add: parse_incoming_packet_def message_sizes)

lemma parse_response_layout:
  assumes "matches_h2 obf tag"
    "length eph = 32" "length en = 16" "length mac1 = 16" "length mac2 = 16"
  shows "parse_incoming_packet obf (u32_to_le tag @ u32_to_le si @ u32_to_le ri @ eph @ en @ mac1 @ mac2) =
    Ok (PHandshakeResponse \<lparr> hr_sender_idx = si, hr_receiver_idx = ri,
      hr_unencrypted_ephemeral = eph, hr_encrypted_nothing = en \<rparr>)"
  using assms by (simp add: parse_incoming_packet_def message_sizes)

lemma parse_cookie_layout:
  assumes "matches_h3 obf tag" "length nonce = 24" "length ck = 32"
  shows "parse_incoming_packet obf (u32_to_le tag @ u32_to_le ri @ nonce @ ck) =
    Ok (PPacketCookieReply \<lparr> cr_receiver_idx = ri, cr_nonce = nonce, cr_encrypted_cookie = ck \<rparr>)"
  using assms by (simp add: parse_incoming_packet_def message_sizes)

text \<open>
  A data frame may have the size of a handshake message; disjoint tag ranges keep it a data frame.
\<close>

lemma parse_data_layout:
  assumes "ranges_valid obf" "matches_h4 obf tag" "16 \<le> length ct"
  shows "parse_incoming_packet obf (u32_to_le tag @ u32_to_le ri @ u64_to_le ctr @ ct) =
    Ok (PPacketData \<lparr> pd_receiver_idx = ri, pd_counter = ctr, pd_encrypted_encapsulated_packet = ct \<rparr>)"
  using assms matches_exclusive [OF assms(1), of tag]
  by (simp add: parse_incoming_packet_def message_sizes)

end
