(* ===== verification/Junk.thy ===== *)
theory Junk
  imports Wire "HOL-Library.Monad_Syntax"
begin

text \<open>
  The bytes an AmneziaWG endpoint invents (the second half of \<open>noise/amnezia.rs\<close>): uniform draws
  from a range, random prefixes, and the prefixes shaped like DNS, QUIC, SIP and STUN, with the
  validation of the host name that is spliced into them.

  A filler gets the slice to fill, whose old bytes it may keep, and the generator. A store outside
  the slice is a panic in the source and \<open>None\<close> here. The lemmas show that no filler ever panics and
  that each fills exactly the slice it was given, for every size, host, trailing length and sequence
  of draws; that the rejection loop of the uniform draw ends, stays in range and favours no value;
  that a host passes the check exactly when its labels are well-formed, and that a generated host
  passes; and that the length fields of the DNS padding record frame the rest of the datagram.
\<close>

section \<open>Stores\<close>

definition put_byte :: "nat \<Rightarrow> u8 \<Rightarrow> bytes \<Rightarrow> bytes option" where
  "put_byte i b dst = (if i < length dst then Some (dst[i := b]) else None)"

definition put_slice :: "nat \<Rightarrow> bytes \<Rightarrow> bytes \<Rightarrow> bytes option" where
  "put_slice i src dst = (if i + length src \<le> length dst then Some (copy_at i src dst) else None)"

primrec put_all :: "(nat \<times> u8) list \<Rightarrow> bytes \<Rightarrow> bytes option" where
  "put_all [] dst = Some dst"
| "put_all (p # ps) dst = do { dst \<leftarrow> put_byte (fst p) (snd p) dst; put_all ps dst }"

section \<open>Draws\<close>

definition draw_threshold :: "nat \<Rightarrow> nat" where
  "draw_threshold range_size = (2 ^ 64 - 1) - (2 ^ 64 - 1) mod range_size"

definition draw_loop :: "'g rng \<Rightarrow> nat \<Rightarrow> u64 \<times> 'g \<Rightarrow> (u64 \<times> 'g) option" where
  "draw_loop R range_size =
     while_option (\<lambda>(v, g). \<not> unat v < draw_threshold range_size) (\<lambda>(v, g). next_u64 R g)"

definition random_usize_inclusive :: "'g rng \<Rightarrow> nat \<Rightarrow> nat \<Rightarrow> 'g \<Rightarrow> nat \<times> 'g" where
  "random_usize_inclusive R lo hi g =
     (if lo \<ge> hi then (lo, g)
      else
        let range_size = hi - lo + 1;
            (val, g') = the (draw_loop R range_size (next_u64 R g))
        in (lo + unat val mod range_size, g'))"

definition random_below :: "'g rng \<Rightarrow> nat \<Rightarrow> 'g \<Rightarrow> nat \<times> 'g" where
  "random_below R n g = (if n = 0 then (0, g) else random_usize_inclusive R 0 (n - 1) g)"

definition optional_below :: "'g rng \<Rightarrow> nat \<Rightarrow> 'g \<Rightarrow> nat \<times> 'g" where
  "optional_below R n g = random_below R n g"

fun random_words :: "'g rng \<Rightarrow> nat \<Rightarrow> 'g \<Rightarrow> bytes \<times> 'g" where
  "random_words R n g =
     (if n = 0 then ([], g)
      else if n < 4 then
        let (w, g) = next_u32 R g in (take n (u32_to_le w), g)
      else
        let (w, g) = next_u32 R g; (rest, g) = random_words R (n - 4) g
        in (u32_to_le w @ rest, g))"

declare random_words.simps [simp del]

definition fill_random :: "'g rng \<Rightarrow> bytes \<Rightarrow> 'g \<Rightarrow> bytes \<times> 'g" where
  "fill_random R dst g = random_words R (length dst) g"

definition random_byte :: "'g rng \<Rightarrow> 'g \<Rightarrow> u8 \<times> 'g" where
  "random_byte R g = (let (w, g) = next_u32 R g in (ucast (and w 0xff), g))"

primrec random_bytes :: "'g rng \<Rightarrow> nat \<Rightarrow> 'g \<Rightarrow> bytes \<times> 'g" where
  "random_bytes R 0 g = ([], g)"
| "random_bytes R (Suc n) g =
     (let (b, g) = random_byte R g; (bs, g) = random_bytes R n g in (b # bs, g))"

section \<open>Host names\<close>

definition is_alphanumeric :: "u8 \<Rightarrow> bool" where
  "is_alphanumeric b \<longleftrightarrow>
     48 \<le> unat b \<and> unat b \<le> 57 \<or> 65 \<le> unat b \<and> unat b \<le> 90 \<or> 97 \<le> unat b \<and> unat b \<le> 122"

abbreviation dot :: u8 where "dot \<equiv> 46"
abbreviation hyphen :: u8 where "hyphen \<equiv> 45"

text \<open>The byte loop of \<open>is_valid_imitation_host\<close> and the test after it.\<close>

fun host_loop :: "nat \<Rightarrow> bool \<Rightarrow> bool \<Rightarrow> bytes \<Rightarrow> bool" where
  "host_loop label_len label_start previous_hyphen [] = (label_len > 0 \<and> \<not> previous_hyphen)"
| "host_loop label_len label_start previous_hyphen (b # bs) =
     (if b = dot then
        if label_len = 0 \<or> previous_hyphen then False else host_loop 0 True False bs
      else if \<not> (is_alphanumeric b \<or> b = hyphen) then False
      else if label_start \<and> b = hyphen then False
      else if label_len + 1 > 63 then False
      else host_loop (label_len + 1) False (b = hyphen) bs)"

definition is_valid_imitation_host :: "bytes \<Rightarrow> bool" where
  "is_valid_imitation_host host =
     (if host = [] \<or> length host > 253 \<or> hd host = dot \<or> hd host = hyphen \<or>
         last host = dot \<or> last host = hyphen
      then False
      else host_loop 0 True False host)"

definition is_valid_quic_sni :: "bytes \<Rightarrow> bool" where
  "is_valid_quic_sni host \<longleftrightarrow>
     host \<noteq> [] \<and> length host \<le> 253 \<and> \<not> list_ex (\<lambda>b. unat b < 0x20 \<or> b = 0x7f) host"

primrec random_letters :: "'g rng \<Rightarrow> nat \<Rightarrow> 'g \<Rightarrow> bytes \<times> 'g" where
  "random_letters R 0 g = ([], g)"
| "random_letters R (Suc n) g =
     (let (w, g) = next_u32 R g; (bs, g) = random_letters R n g
      in (of_nat (97 + unat w mod 26) # bs, g))"

definition TLDS :: "bytes list" where
  "TLDS = [ascii ''com'', ascii ''net'', ascii ''org'', ascii ''io'']"

definition random_imitation_domain :: "'g rng \<Rightarrow> 'g \<Rightarrow> bytes \<times> 'g" where
  "random_imitation_domain R g =
     (let (w, g) = next_u32 R g;
          label_len = 7 + unat w mod 10;
          (host, g) = random_letters R label_len g;
          (t, g) = next_u32 R g
      in (host @ [dot] @ TLDS ! (unat t mod length TLDS), g))"

section \<open>QUIC and STUN prefixes\<close>

definition fill_quic_short :: "'g rng \<Rightarrow> bytes \<Rightarrow> 'g \<Rightarrow> (bytes \<times> 'g) option" where
  "fill_quic_short R dst g =
     (if dst = [] then Some (dst, g)
      else
        let (a, g) = next_u32 R g; spin = ucast (and (drop_bit 8 a) 1) :: u8;
            (b, g) = next_u32 R g; key_phase = ucast (and (drop_bit 8 b) 1) :: u8;
            (c, g) = next_u32 R g; pn_len = ucast (and c 3) :: u8;
            (rest, g) = random_bytes R (length dst - 1) g
        in do {
          dst \<leftarrow> put_byte 0 (or (or (or 0x40 (push_bit 5 spin)) (push_bit 2 key_phase)) pn_len) dst;
          dst \<leftarrow> put_slice 1 rest dst;
          Some (dst, g) })"

definition fill_quic_initial :: "'g rng \<Rightarrow> bytes \<Rightarrow> 'g \<Rightarrow> (bytes \<times> 'g) option" where
  "fill_quic_initial R dst g =
     (let (dst, g) = fill_random R dst g in do {
        (dst, g) \<leftarrow> (if dst \<noteq> [] then
            let (w, g) = next_u32 R g in
            do { dst \<leftarrow> put_byte 0 (or 0xc0 (ucast (and w 3))) dst; Some (dst, g) }
          else Some (dst, g));
        dst \<leftarrow> (if length dst \<ge> 5 then put_all [(1, 0), (2, 0), (3, 0), (4, 1)] dst else Some dst);
        (if length dst \<ge> 6 then
            let (w, g) = next_u32 R g in
            do { dst \<leftarrow> put_byte 5 (of_nat (unat w mod 17 + 4)) dst; Some (dst, g) }
          else Some (dst, g)) })"

definition STUN_MAGIC_COOKIE :: bytes where
  "STUN_MAGIC_COOKIE = [0x21, 0x12, 0xa4, 0x42]"

text \<open>The printable value bytes of the SOFTWARE attribute.\<close>

primrec random_printable :: "'g rng \<Rightarrow> nat \<Rightarrow> 'g \<Rightarrow> bytes \<times> 'g" where
  "random_printable R 0 g = ([], g)"
| "random_printable R (Suc n) g =
     (let (b, g) = random_byte R g; (bs, g) = random_printable R n g
      in ((0x20 + b mod 0x5f) # bs, g))"

definition stun_body :: "nat \<Rightarrow> nat" where
  "stun_body sz = (if sz > 20 then (sz - 20) div 4 * 4 else 0)"

definition stun_value_len :: "nat \<Rightarrow> nat" where
  "stun_value_len sz = (if stun_body sz \<ge> 4 then min (stun_body sz - 4) 124 else 0)"

definition stun_attr_len :: "nat \<Rightarrow> nat" where
  "stun_attr_len sz = (if stun_body sz \<ge> 4 then 4 + stun_value_len sz else 0)"

definition fill_stun :: "'g rng \<Rightarrow> bytes \<Rightarrow> 'g \<Rightarrow> (bytes \<times> 'g) option" where
  "fill_stun R dst g =
     (let (dst, g) = fill_random R dst g;
          sz = length dst;
          value_len = stun_value_len sz;
          attr_len = stun_attr_len sz
      in do {
        dst \<leftarrow> (if sz \<ge> 2 then put_all [(0, 0), (1, 1)] dst else Some dst);
        dst \<leftarrow> (if sz \<ge> 4 then put_slice 2 (u16_to_be (of_nat attr_len)) dst else Some dst);
        dst \<leftarrow> (if sz \<ge> 8 then put_slice 4 STUN_MAGIC_COOKIE dst else Some dst);
        (dst, g) \<leftarrow> (if sz > 8 then
            let (bs, g) = random_bytes R (min sz 20 - 8) g in
            do { dst \<leftarrow> put_slice 8 bs dst; Some (dst, g) }
          else Some (dst, g));
        (dst, g) \<leftarrow> (if attr_len \<ge> 4 then do {
            dst \<leftarrow> put_all [(20, 0x80), (21, 0x22)] dst;
            dst \<leftarrow> put_slice 22 (u16_to_be (of_nat value_len)) dst;
            let (vs, g) = random_printable R value_len g in
            do { dst \<leftarrow> put_slice 24 vs dst; Some (dst, g) } }
          else Some (dst, g));
        (if sz \<ge> 20 + attr_len then
            let (bs, g) = random_bytes R (sz - (20 + attr_len)) g in
            do { dst \<leftarrow> put_slice (20 + attr_len) bs dst; Some (dst, g) }
          else Some (dst, g)) })"

section \<open>SIP prefixes\<close>

definition SIP_REQUEST_LINE_MIN :: nat where "SIP_REQUEST_LINE_MIN = 31"

definition SEEDS :: "(bytes \<times> bytes \<times> bytes) list" where
  "SEEDS = map (\<lambda>(m, u, h). (ascii m, ascii u, ascii h))
     [(''OPTIONS'', ''u'', ''x''), (''OPTIONS'', ''100'', ''pbx''), (''REGISTER'', ''101'', ''gw''),
      (''MESSAGE'', ''noc'', ''lan''), (''OPTIONS'', ''m'', ''voip''), (''REGISTER'', ''sip'', ''edge'')]"

definition crlf :: bytes where "crlf = [13, 10]"

definition put_sip_line :: "bytes \<Rightarrow> nat \<Rightarrow> bytes \<Rightarrow> bool \<times> bytes \<times> nat" where
  "put_sip_line dst pos line =
     (let add = length line in
      if pos + add + 2 > length dst then (False, dst, pos)
      else (True, copy_at pos line dst, pos + add))"

text \<open>The \<open>&&\<close> chain of optional header lines: it stops at the first that does not fit.\<close>

fun put_sip_lines :: "bytes \<Rightarrow> nat \<Rightarrow> bytes list \<Rightarrow> bytes \<times> nat" where
  "put_sip_lines dst pos [] = (dst, pos)"
| "put_sip_lines dst pos (l # ls) =
     (let (ok, dst, pos) = put_sip_line dst pos l in
      if ok then put_sip_lines dst pos ls else (dst, pos))"

definition request_line :: "bytes \<Rightarrow> bytes \<Rightarrow> bytes \<Rightarrow> bytes" where
  "request_line method user host =
     method @ ascii '' sip:'' @ user @ ascii ''@'' @ host @ ascii '' SIP/2.0'' @ crlf"

definition via_line :: "bytes \<Rightarrow> u32 \<Rightarrow> bytes" where
  "via_line host token =
     ascii ''Via: SIP/2.0/UDP '' @ host @ ascii '';branch=z9hG4bK'' @ hex_width 8 (unat token) @ crlf"

definition optional_lines :: "bytes \<Rightarrow> bytes \<Rightarrow> bytes \<Rightarrow> u32 \<Rightarrow> bytes list" where
  "optional_lines method user host token =
     [ascii ''Max-Forwards: 70'' @ crlf,
      ascii ''From: <sip:'' @ user @ ascii ''@'' @ host @ ascii ''>;tag='' @
        hex_width 4 (unat (and token 0xffff)) @ crlf,
      ascii ''To: <sip:'' @ user @ ascii ''@'' @ host @ ascii ''>'' @ crlf,
      ascii ''Call-ID: '' @ hex_width 8 (unat token) @ ascii ''@'' @ host @ crlf,
      ascii ''CSeq: 1 '' @ method @ crlf]"

definition emit_sip ::
  "'g rng \<Rightarrow> bytes \<Rightarrow> bytes \<Rightarrow> bytes \<Rightarrow> bytes \<Rightarrow> bool \<Rightarrow> 'g \<Rightarrow> (bool \<times> bytes \<times> 'g) option" where
  "emit_sip R dst method user host require_via g =
     (let (token, g) = next_u32 R g;
          (ok, dst, pos) = put_sip_line dst 0 (request_line method user host)
      in if \<not> ok then Some (False, dst, g)
      else
        let (via_ok, dst, pos) = put_sip_line dst pos (via_line host token) in
        if require_via \<and> \<not> via_ok then Some (False, dst, g)
        else
          let (dst, pos) =
                (if via_ok then put_sip_lines dst pos (optional_lines method user host token)
                 else (dst, pos))
          in do {
            dst \<leftarrow> put_all [(pos, 13), (pos + 1, 10)] dst;
            dst \<leftarrow> put_slice (pos + 2) (replicate (length dst - (pos + 2)) 32) dst;
            Some (True, dst, g) })"

text \<open>The candidates of one chain, in order, and the loop that takes the first that is emitted.\<close>

definition sip_candidates ::
  "bytes \<times> bytes \<times> bytes \<Rightarrow> bytes option \<Rightarrow> (bytes \<times> bytes \<times> bytes) list" where
  "sip_candidates seed domain =
     (let (m, u, h) = seed in
      (case domain of
         Some d \<Rightarrow>
           [(m, u, h @ ascii ''.'' @ d), (m, u, d),
            (ascii ''OPTIONS'', ascii ''u'', ascii ''x.'' @ d), (ascii ''OPTIONS'', ascii ''u'', d)]
       | None \<Rightarrow> []) @
      [(m, u, h), (ascii ''OPTIONS'', ascii ''u'', ascii ''x'')])"

fun try_sip ::
  "'g rng \<Rightarrow> bytes \<Rightarrow> bool \<Rightarrow> (bytes \<times> bytes \<times> bytes) list \<Rightarrow> 'g \<Rightarrow> (bool \<times> bytes \<times> 'g) option" where
  "try_sip R dst require_via [] g = Some (False, dst, g)"
| "try_sip R dst require_via ((m, u, h) # cs) g = do {
     (ok, dst, g) \<leftarrow> emit_sip R dst m u h require_via g;
     if ok then Some (True, dst, g) else try_sip R dst require_via cs g }"

definition run_sip_candidate_chain ::
  "'g rng \<Rightarrow> bytes \<Rightarrow> bytes \<times> bytes \<times> bytes \<Rightarrow> bytes option \<Rightarrow> bool \<Rightarrow> 'g \<Rightarrow>
   (bool \<times> bytes \<times> 'g) option" where
  "run_sip_candidate_chain R dst seed domain require_via g =
     try_sip R dst require_via (sip_candidates seed domain) g"

definition fill_sip :: "'g rng \<Rightarrow> bytes \<Rightarrow> bytes option \<Rightarrow> 'g \<Rightarrow> (bytes \<times> 'g) option" where
  "fill_sip R dst domain g =
     (let (dst, g) = fill_random R dst g in
      if length dst < SIP_REQUEST_LINE_MIN then Some (dst, g)
      else
        let (w, g) = next_u32 R g; seed = SEEDS ! (unat w mod length SEEDS) in do {
          (ok, dst, g) \<leftarrow> run_sip_candidate_chain R dst seed domain True g;
          if ok then Some (dst, g)
          else do {
            (ok, dst, g) \<leftarrow> run_sip_candidate_chain R dst seed domain False g;
            Some (dst, g) } })"


section \<open>DNS prefixes\<close>

definition DNS_OPT_FIXED_LEN :: nat where "DNS_OPT_FIXED_LEN = 11"
definition DNS_OPT_MIN_WIRE_SIZE :: nat where "DNS_OPT_MIN_WIRE_SIZE = DNS_OPT_FIXED_LEN + 4"

definition write_dns_header :: "'g rng \<Rightarrow> bytes \<Rightarrow> 'g \<Rightarrow> (nat \<times> bytes \<times> 'g) option" where
  "write_dns_header R dst g =
     (let (a, g) = random_byte R g; (b, g) = random_byte R g in do {
        dst \<leftarrow> put_all [(0, a), (1, b), (2, 0x01), (3, 0x20), (4, 0x00), (5, 0x01)] dst;
        dst \<leftarrow> put_slice 6 (replicate 6 0) dst;
        Some (12, dst, g) })"

definition write_dns_question_tail :: "bytes \<Rightarrow> nat \<Rightarrow> (nat \<times> bytes) option" where
  "write_dns_question_tail dst pos = do {
     dst \<leftarrow> put_all [(pos, 0x00), (pos + 1, 0x01), (pos + 2, 0x00), (pos + 3, 0x01)] dst;
     Some (pos + 4, dst) }"

definition dns_qname_wire_size :: "bytes \<Rightarrow> nat" where
  "dns_qname_wire_size name = (if is_valid_imitation_host name then length name + 2 else 0)"

text \<open>\<open>str::split('.')\<close>.\<close>

fun split_dots :: "bytes \<Rightarrow> bytes list" where
  "split_dots [] = [[]]"
| "split_dots (b # bs) =
     (if b = dot then [] # split_dots bs
      else case split_dots bs of l # ls \<Rightarrow> (b # l) # ls | [] \<Rightarrow> [[b]])"

text \<open>The label loop of \<open>write_dns_qname\<close>: the flag is its early return.\<close>

fun write_labels :: "bytes \<Rightarrow> nat \<Rightarrow> bytes list \<Rightarrow> (bool \<times> nat \<times> bytes) option" where
  "write_labels dst pos [] = Some (True, pos, dst)"
| "write_labels dst pos (l # ls) =
     (if length l = 0 \<or> length l > 63 \<or> pos + 1 + length l > length dst then Some (False, pos, dst)
      else do {
        dst \<leftarrow> put_byte pos (of_nat (length l)) dst;
        dst \<leftarrow> put_slice (pos + 1) l dst;
        write_labels dst (pos + 1 + length l) ls })"

definition write_dns_qname :: "bytes \<Rightarrow> nat \<Rightarrow> bytes \<Rightarrow> (bool \<times> nat \<times> bytes) option" where
  "write_dns_qname dst pos name =
     (let wire_size = dns_qname_wire_size name in
      if wire_size = 0 \<or> pos > length dst \<or> wire_size > length dst - pos
      then Some (False, pos, dst)
      else do {
        (ok, pos, dst) \<leftarrow> write_labels dst pos (split_dots name);
        if \<not> ok \<or> pos \<ge> length dst then Some (False, pos, dst)
        else do { dst \<leftarrow> put_byte pos 0x00 dst; Some (True, pos + 1, dst) } })"

definition PREFIXES :: "bytes list" where
  "PREFIXES = [ascii ''www'', ascii ''api'', ascii ''cdn'', ascii ''dns'', []]"

definition qname_candidate :: "bytes \<Rightarrow> nat \<Rightarrow> bytes" where
  "qname_candidate domain i =
     (let prefix = PREFIXES ! (i mod length PREFIXES)
      in if prefix = [] then domain else prefix @ ascii ''.'' @ domain)"

text \<open>The first candidate of the rotation that fits the budget; a budget of 0 is skipped.\<close>

definition first_fitting :: "bytes \<Rightarrow> nat \<Rightarrow> nat \<Rightarrow> bytes option" where
  "first_fitting domain start budget =
     (if budget = 0 then None
      else find (\<lambda>c. dns_qname_wire_size c > 0 \<and> dns_qname_wire_size c \<le> budget)
             (map (\<lambda>i. qname_candidate domain (start + i)) [0..<length PREFIXES]))"

definition choose_dns_domain_qname ::
  "'g rng \<Rightarrow> bytes \<Rightarrow> nat \<Rightarrow> nat \<Rightarrow> 'g \<Rightarrow> bytes option \<times> 'g" where
  "choose_dns_domain_qname R domain max_wire_size opt_reserve g =
     (if \<not> is_valid_imitation_host domain then (None, g)
      else
        let (w, g) = next_u32 R g;
            start = unat w mod length PREFIXES;
            reserved = (if opt_reserve > 0 \<and> opt_reserve \<le> max_wire_size
                        then max_wire_size - opt_reserve else 0)
        in ((case first_fitting domain start reserved of
               Some c \<Rightarrow> Some c
             | None \<Rightarrow> first_fitting domain start max_wire_size), g))"

text \<open>
  The EDNS(0) OPT record. The subtractions of the source are checked ones; the guards in front of
  them make them exact.
\<close>

definition write_dns_opt_padding ::
  "bytes \<Rightarrow> nat \<Rightarrow> nat \<Rightarrow> nat \<Rightarrow> nat \<Rightarrow> (bool \<times> nat \<times> bytes) option" where
  "write_dns_opt_padding dst write_limit total_len pos arcount_pos =
     (if total_len < write_limit then Some (False, pos, dst)
      else if pos > write_limit \<or> write_limit - pos < DNS_OPT_MIN_WIRE_SIZE then Some (False, pos, dst)
      else if arcount_pos \<ge> write_limit - 1 then Some (False, pos, dst)
      else if total_len - pos - DNS_OPT_FIXED_LEN > 0xffff then Some (False, pos, dst)
      else
        let option_code = (if total_len > write_limit then 0xfde9 else 0x000c) :: u16;
            rdata_len = total_len - (pos + 9) - 2;
            pad_value_len = rdata_len - 4
        in do {
          dst \<leftarrow> put_slice pos [0x00, 0x00, 0x29, 0x10, 0x00, 0x00, 0x00, 0x00, 0x00] dst;
          dst \<leftarrow> put_slice (pos + 9) (u16_to_be (of_nat rdata_len)) dst;
          dst \<leftarrow> put_slice (pos + 11) (u16_to_be option_code) dst;
          dst \<leftarrow> put_slice (pos + 13) (u16_to_be (of_nat pad_value_len)) dst;
          dst \<leftarrow> put_slice (pos + 15) (replicate (write_limit - (pos + 15)) 0x00) dst;
          dst \<leftarrow> put_all [(arcount_pos, 0x00), (arcount_pos + 1, 0x01)] dst;
          Some (True, max (pos + 15) write_limit, dst) })"

definition emit_dns_domain ::
  "'g rng \<Rightarrow> bytes \<Rightarrow> nat \<Rightarrow> bytes \<Rightarrow> 'g \<Rightarrow> (bool \<times> bytes \<times> 'g) option" where
  "emit_dns_domain R dst total_len name g =
     (let qname_size = dns_qname_wire_size name in
      if qname_size = 0 \<or> length dst < 12 + qname_size + 4 + DNS_OPT_MIN_WIRE_SIZE
      then Some (False, dst, g)
      else do {
        (pos, dst, g) \<leftarrow> write_dns_header R dst g;
        (ok, pos, dst) \<leftarrow> write_dns_qname dst pos name;
        if \<not> ok then Some (False, dst, g)
        else do {
          (pos, dst) \<leftarrow> write_dns_question_tail dst pos;
          (ok, pos, dst) \<leftarrow> write_dns_opt_padding dst (length dst) total_len pos 10;
          Some (ok, dst, g) } })"

definition fill_dns_minimal_root_query :: "'g rng \<Rightarrow> bytes \<Rightarrow> 'g \<Rightarrow> (bytes \<times> 'g) option" where
  "fill_dns_minimal_root_query R dst g =
     (let n = length dst in do {
        (dst, g) \<leftarrow> (if n \<ge> 2 then
            let (a, g) = random_byte R g; (b, g) = random_byte R g in
            do { dst \<leftarrow> put_all [(0, a), (1, b)] dst; Some (dst, g) }
          else Some (dst, g));
        dst \<leftarrow> (if n \<ge> 4 then put_all [(2, 0x01), (3, 0x20)] dst else Some dst);
        dst \<leftarrow> (if n \<ge> 6 then put_all [(4, 0x00), (5, 0x01)] dst else Some dst);
        dst \<leftarrow> (if min n 12 > 6 then put_slice 6 (replicate (min n 12 - 6) 0x00) dst else Some dst);
        dst \<leftarrow> (if n > 12 then put_byte 12 0x00 dst else Some dst);
        dst \<leftarrow> (if n > 13 then put_byte 13 0x00 dst else Some dst);
        dst \<leftarrow> (if n > 14 then put_byte 14 0x01 dst else Some dst);
        dst \<leftarrow> (if n > 15 then put_byte 15 0x00 dst else Some dst);
        dst \<leftarrow> (if n > 16 then put_byte 16 0x01 dst else Some dst);
        dst \<leftarrow> (if n > 17 then put_slice 17 (replicate (n - 17) 0x00) dst else Some dst);
        Some (dst, g) })"

text \<open>The two early exits of \<open>fill_dns\<close>, each with the flag that it has filled the slice.\<close>

definition fill_dns_domain ::
  "'g rng \<Rightarrow> bytes \<Rightarrow> nat \<Rightarrow> bytes option \<Rightarrow> 'g \<Rightarrow> (bool \<times> bytes \<times> 'g) option" where
  "fill_dns_domain R dst total_len domain g =
     (case domain of
        None \<Rightarrow> Some (False, dst, g)
      | Some d \<Rightarrow>
          let (name, g) = choose_dns_domain_qname R d (length dst - 16) DNS_OPT_MIN_WIRE_SIZE g in
          (case name of
             None \<Rightarrow> Some (False, dst, g)
           | Some name \<Rightarrow> emit_dns_domain R dst total_len name g))"

definition fill_dns_root_padding ::
  "'g rng \<Rightarrow> bytes \<Rightarrow> nat \<Rightarrow> nat \<Rightarrow> 'g \<Rightarrow> (bool \<times> bytes \<times> 'g) option" where
  "fill_dns_root_padding R dst trailing_size total_len g =
     (if trailing_size > 0 \<and> length dst \<ge> 12 + 1 + 4 + DNS_OPT_MIN_WIRE_SIZE then do {
        (pos, dst, g) \<leftarrow> write_dns_header R dst g;
        dst \<leftarrow> put_byte pos 0x00 dst;
        (pos, dst) \<leftarrow> write_dns_question_tail dst (pos + 1);
        (ok, pos, dst) \<leftarrow> write_dns_opt_padding dst (length dst) total_len pos 10;
        Some (ok, dst, g) }
      else Some (False, dst, g))"

definition fill_dns ::
  "'g rng \<Rightarrow> bytes \<Rightarrow> nat \<Rightarrow> bytes option \<Rightarrow> 'g \<Rightarrow> (bytes \<times> 'g) option" where
  "fill_dns R dst trailing_size domain g =
     (if length dst = 0 then Some (dst, g)
      else
        let total_len = saturating_add (length dst) trailing_size in do {
          (ok, dst, g) \<leftarrow> fill_dns_domain R dst total_len domain g;
          if ok then Some (dst, g)
          else do {
            (ok, dst, g) \<leftarrow> fill_dns_root_padding R dst trailing_size total_len g;
            if ok then Some (dst, g) else fill_dns_minimal_root_query R dst g } })"


section \<open>Filling for a protocol\<close>

datatype imitation_protocol = ImNone | ImDns | ImQuic | ImSip | ImStun | ImAuto

definition fill_protocol_like ::
  "'g rng \<Rightarrow> imitation_protocol \<Rightarrow> bytes option \<Rightarrow> bytes \<Rightarrow> nat \<Rightarrow> 'g \<Rightarrow> (bytes \<times> 'g) option" where
  "fill_protocol_like R protocol domain dst trailing_size g =
     (case protocol of
        ImNone \<Rightarrow> Some (fill_random R dst g)
      | ImAuto \<Rightarrow> Some (fill_random R dst g)
      | ImDns \<Rightarrow> fill_dns R dst trailing_size domain g
      | ImQuic \<Rightarrow> fill_quic_short R dst g
      | ImSip \<Rightarrow> fill_sip R dst domain g
      | ImStun \<Rightarrow> fill_stun R dst g)"

section \<open>Fillers never panic\<close>

text \<open>
  Partial correctness with no panic, for the three shapes of results: a slice, a slice with the
  generator, and these with a flag. The rules below step through a filler.
\<close>

named_theorems filling

definition stores :: "nat \<Rightarrow> bytes option \<Rightarrow> bool" where
  "stores n r \<longleftrightarrow> (\<exists>d. r = Some d \<and> length d = n)"

definition fills :: "nat \<Rightarrow> (bytes \<times> 'g) option \<Rightarrow> bool" where
  "fills n r \<longleftrightarrow> (\<exists>d g. r = Some (d, g) \<and> length d = n)"

definition emits :: "nat \<Rightarrow> ('a \<times> bytes \<times> 'g) option \<Rightarrow> bool" where
  "emits n r \<longleftrightarrow> (\<exists>ok d g. r = Some (ok, d, g) \<and> length d = n)"

lemma results_Some [simp]:
  "stores n (Some d) \<longleftrightarrow> length d = n" "fills n (Some (d, g)) \<longleftrightarrow> length d = n"
  "emits n (Some (ok, d, g)) \<longleftrightarrow> length d = n"
  by (simp_all add: stores_def fills_def emits_def)

lemma fills_Some_pair [simp]: "fills n (Some x) \<longleftrightarrow> length (fst x) = n"
  by (cases x) simp

lemma bind_results [filling]:
  "stores n m \<Longrightarrow> (\<And>d. length d = n \<Longrightarrow> stores n (f d)) \<Longrightarrow> stores n (m \<bind> f)"
  "stores n m \<Longrightarrow> (\<And>d. length d = n \<Longrightarrow> fills n (f' d)) \<Longrightarrow> fills n (m \<bind> f')"
  "stores n m \<Longrightarrow> (\<And>d. length d = n \<Longrightarrow> emits n (f'' d)) \<Longrightarrow> emits n (m \<bind> f'')"
  by (auto simp: stores_def)

lemma bind_fills [filling]:
  "fills n m \<Longrightarrow> (\<And>d g. length d = n \<Longrightarrow> fills n (f (d, g))) \<Longrightarrow> fills n (m \<bind> f)"
  by (auto simp: fills_def)

lemma bind_emits [filling]:
  "emits n m \<Longrightarrow> (\<And>ok d g. length d = n \<Longrightarrow> fills n (f (ok, d, g))) \<Longrightarrow> fills n (m \<bind> f)"
  "emits n m \<Longrightarrow> (\<And>ok d g. length d = n \<Longrightarrow> emits n (f' (ok, d, g))) \<Longrightarrow> emits n (m \<bind> f')"
  by (auto simp: emits_def)

lemma if_results [filling]:
  "(c \<Longrightarrow> stores n a) \<Longrightarrow> (\<not> c \<Longrightarrow> stores n b) \<Longrightarrow> stores n (if c then a else b)"
  "(c \<Longrightarrow> fills n a') \<Longrightarrow> (\<not> c \<Longrightarrow> fills n b') \<Longrightarrow> fills n (if c then a' else b')"
  "(c \<Longrightarrow> emits n a'') \<Longrightarrow> (\<not> c \<Longrightarrow> emits n b'') \<Longrightarrow> emits n (if c then a'' else b'')"
  by simp_all

lemma stores_put_byte [filling]: "i < n \<Longrightarrow> length d = n \<Longrightarrow> stores n (put_byte i b d)"
  by (simp add: put_byte_def)

lemma stores_put_slice [filling]: "i + length src \<le> n \<Longrightarrow> length d = n \<Longrightarrow> stores n (put_slice i src d)"
  by (simp add: put_slice_def)

lemma stores_put_all [filling]:
  "list_all (\<lambda>p. fst p < n) ps \<Longrightarrow> length d = n \<Longrightarrow> stores n (put_all ps d)"
  by (induction ps arbitrary: d) (auto intro!: filling)

lemma length_random_words [simp]: "length (fst (random_words R n g)) = n"
proof (induction n arbitrary: g rule: less_induct)
  case (less n)
  show ?case
    using less [of "n - 4"] by (subst random_words.simps) (auto simp: Let_def case_prod_beta)
qed

lemma length_fill_random [simp]: "length (fst (fill_random R dst g)) = length dst"
  by (simp add: fill_random_def)

lemma fill_random_empty [simp]: "fst (fill_random R dst g) = [] \<longleftrightarrow> dst = []"
  by (metis length_fill_random length_0_conv)

lemma length_random_bytes [simp]: "length (fst (random_bytes R n g)) = n"
  by (induction n arbitrary: g) (simp_all add: Let_def case_prod_beta)

lemma length_random_printable [simp]: "length (fst (random_printable R n g)) = n"
  by (induction n arbitrary: g) (simp_all add: Let_def case_prod_beta)

lemma length_random_letters [simp]: "length (fst (random_letters R n g)) = n"
  by (induction n arbitrary: g) (simp_all add: Let_def case_prod_beta)

lemma fill_quic_short_fills: "fills (length dst) (fill_quic_short R dst g)"
  unfolding fill_quic_short_def Let_def case_prod_beta
  by (intro filling) (auto simp: Suc_le_eq)

lemma fill_quic_initial_fills: "fills (length dst) (fill_quic_initial R dst g)"
  unfolding fill_quic_initial_def Let_def case_prod_beta
  by (intro filling) (auto simp: Suc_le_eq)

lemma stun_attr_len_bound:
  "stun_attr_len n = 0 \<or> stun_attr_len n = 4 + stun_value_len n \<and> 24 + stun_value_len n \<le> n"
  by (auto simp: stun_attr_len_def stun_value_len_def stun_body_def)

lemma fill_stun_fills: "fills (length dst) (fill_stun R dst g)"
  using stun_attr_len_bound [of "length dst"]
  unfolding fill_stun_def Let_def case_prod_beta
  by (intro filling) (auto simp: STUN_MAGIC_COOKIE_def)

section \<open>Host names and their labels\<close>

text \<open>The grammar of a host name: its dot-separated labels.\<close>

definition good_label :: "bytes \<Rightarrow> bool" where
  "good_label l \<longleftrightarrow> l \<noteq> [] \<and> length l \<le> 63 \<and> list_all (\<lambda>b. is_alphanumeric b \<or> b = hyphen) l \<and>
     hd l \<noteq> hyphen \<and> last l \<noteq> hyphen"

definition label_prefix :: "bytes \<Rightarrow> bool" where
  "label_prefix l \<longleftrightarrow> length l \<le> 63 \<and> list_all (\<lambda>b. is_alphanumeric b \<or> b = hyphen) l \<and>
     (l \<noteq> [] \<longrightarrow> hd l \<noteq> hyphen)"

lemma split_dots_not_Nil [simp]: "split_dots bs \<noteq> []"
  by (cases bs) (auto split: list.splits)

lemma split_dots_Cons: "b \<noteq> dot \<Longrightarrow> split_dots (b # bs) = (b # hd (split_dots bs)) # tl (split_dots bs)"
  by (cases "split_dots bs") simp_all

lemma split_dots_dot [simp]: "split_dots (dot # bs) = [] # split_dots bs"
  by simp

lemma split_dots_empty: "split_dots bs = [[]] \<longleftrightarrow> bs = []"
  by (cases bs) (auto split: list.splits)

lemma good_label_prefix: "good_label (l @ m) \<Longrightarrow> label_prefix l"
  by (cases l) (auto simp: good_label_def label_prefix_def)

lemma good_label_iff_prefix: "label_prefix l \<Longrightarrow> good_label l \<longleftrightarrow> l \<noteq> [] \<and> last l \<noteq> hyphen"
  by (auto simp: good_label_def label_prefix_def)

lemma host_loop_labels:
  "label_prefix l \<Longrightarrow>
   host_loop (length l) (l = []) (l \<noteq> [] \<and> last l = hyphen) bs \<longleftrightarrow>
   good_label (l @ hd (split_dots bs)) \<and> list_all good_label (tl (split_dots bs))"
proof (induction bs arbitrary: l)
  case Nil
  then show ?case by (auto simp: good_label_iff_prefix)
next
  case (Cons b bs)
  show ?case
  proof (cases "b = dot")
    case True
    obtain s ss where sp: "split_dots bs = s # ss" by (cases "split_dots bs") simp_all
    have "host_loop 0 True False bs \<longleftrightarrow> good_label s \<and> list_all good_label ss"
      using Cons.IH [of "[]"] sp by (simp add: label_prefix_def)
    then show ?thesis
      using True sp good_label_iff_prefix [OF Cons.prems] by auto
  next
    case False
    have s: "l @ hd (split_dots (b # bs)) = (l @ [b]) @ hd (split_dots bs)"
      "tl (split_dots (b # bs)) = tl (split_dots bs)"
      using False by (simp_all add: split_dots_Cons del: split_dots.simps(2))
    have step: "host_loop (length l) (l = []) (l \<noteq> [] \<and> last l = hyphen) (b # bs) \<longleftrightarrow>
        label_prefix (l @ [b]) \<and>
        host_loop (length (l @ [b])) (l @ [b] = []) (l @ [b] \<noteq> [] \<and> last (l @ [b]) = hyphen) bs"
      using False Cons.prems by (cases l) (auto simp: label_prefix_def)
    show ?thesis
      unfolding s step using Cons.IH [of "l @ [b]"] good_label_prefix by blast
  qed
qed

lemma last_split_dots: "bs \<noteq> [] \<Longrightarrow> last bs \<noteq> dot \<Longrightarrow>
    last (split_dots bs) \<noteq> [] \<and> last (last (split_dots bs)) = last bs"
proof (induction bs)
  case (Cons b bs)
  show ?case
  proof (cases "bs = []")
    case True with Cons.prems show ?thesis by simp
  next
    case False
    with Cons have IH: "last (split_dots bs) \<noteq> []" "last (last (split_dots bs)) = last bs" by auto
    show ?thesis
      using IH False by (cases "b = dot"; cases "split_dots bs") (auto split: if_splits)
  qed
qed simp

lemma last_split_dots_dot: "bs \<noteq> [] \<Longrightarrow> last bs = dot \<Longrightarrow> last (split_dots bs) = []"
proof (induction bs)
  case (Cons b bs)
  then show ?case
    by (cases "b = dot"; cases "split_dots bs"; cases "bs = []") (auto simp: split_dots_empty split: if_splits)
qed simp

lemma valid_host_labels:
  "is_valid_imitation_host h \<longleftrightarrow> length h \<le> 253 \<and> list_all good_label (split_dots h)"
proof -
  have loop: "host_loop 0 True False h \<longleftrightarrow> list_all good_label (split_dots h)"
    using host_loop_labels [of "[]" h] by (cases "split_dots h") (simp_all add: label_prefix_def)
  have "h \<noteq> [] \<and> hd h \<noteq> dot \<and> hd h \<noteq> hyphen \<and> last h \<noteq> dot \<and> last h \<noteq> hyphen"
    if g: "list_all good_label (split_dots h)"
  proof -
    have ne: "h \<noteq> []" using g by (auto simp: good_label_def)
    have l: "good_label (last (split_dots h))" and f: "good_label (hd (split_dots h))"
      using g by (simp_all add: list_all_iff)
    have "hd h \<noteq> dot \<and> hd h \<noteq> hyphen"
      using f ne by (cases h; cases "hd h = dot") (auto simp: good_label_def split_dots_Cons simp del: split_dots.simps(2))
    moreover have "last h \<noteq> dot"
      using l last_split_dots_dot [OF ne] by (auto simp: good_label_def)
    moreover have "last h \<noteq> hyphen"
      using l last_split_dots [OF ne] calculation(2) by (auto simp: good_label_def)
    ultimately show ?thesis using ne by simp
  qed
  then show ?thesis unfolding is_valid_imitation_host_def loop by auto
qed

lemma sum_split_dots: "sum_list (map (\<lambda>l. 1 + length l) (split_dots bs)) = length bs + 1"
  by (induction bs) (auto split: list.splits)


section \<open>SIP and DNS fillers\<close>

lemma put_sip_line_result:
  assumes "put_sip_line d p l = (ok, d', p')"
  shows "length d' = length d" "ok \<Longrightarrow> p' + 2 \<le> length d" "\<not> ok \<Longrightarrow> p' = p"
  using assms by (auto simp: put_sip_line_def Let_def split: if_splits)

lemma put_sip_lines_result:
  "put_sip_lines d p ls = (d', p') \<Longrightarrow> p + 2 \<le> length d \<Longrightarrow>
     length d' = length d \<and> p' + 2 \<le> length d"
proof (induction d p ls rule: put_sip_lines.induct)
  case (2 d p l ls)
  obtain ok d1 p1 where l: "put_sip_line d p l = (ok, d1, p1)" by (cases "put_sip_line d p l")
  show ?case
  proof (cases ok)
    case True
    then show ?thesis
      using 2(1) [OF l [symmetric] refl] 2(2) l put_sip_line_result [OF l] by simp
  next
    case False
    then show ?thesis using 2(2,3) l put_sip_line_result [OF l] by simp
  qed
qed simp

lemma emit_sip_emits: "length dst = n \<Longrightarrow> emits n (emit_sip R dst m u h v g)"
proof -
  assume n: "length dst = n"
  obtain token g1 where t: "next_u32 R g = (token, g1)" by (cases "next_u32 R g")
  obtain ok d1 p1 where r: "put_sip_line dst 0 (request_line m u h) = (ok, d1, p1)"
    by (cases "put_sip_line dst 0 (request_line m u h)")
  obtain vk d2 p2 where via: "put_sip_line d1 p1 (via_line h token) = (vk, d2, p2)"
    by (cases "put_sip_line d1 p1 (via_line h token)")
  obtain d3 p3 where
    o: "(if vk then put_sip_lines d2 p2 (optional_lines m u h token) else (d2, p2)) = (d3, p3)"
    by (cases "if vk then put_sip_lines d2 p2 (optional_lines m u h token) else (d2, p2)")
  note r1 = put_sip_line_result [OF r] and r2 = put_sip_line_result [OF via]
  have l: "length d1 = n" "length d2 = n" using n r1 r2 by simp_all
  have fin: "length d3 = n \<and> p3 + 2 \<le> n" if ok
  proof (cases vk)
    case True
    then show ?thesis using put_sip_lines_result [of d2 p2 _ d3 p3] o l r2 by simp
  next
    case False
    then show ?thesis using o l r1 r2 n that by simp
  qed
  show ?thesis
    unfolding emit_sip_def t r via o Let_def prod.case
    by (intro filling) (use l n fin in auto)
qed

lemma try_sip_emits: "length dst = n \<Longrightarrow> emits n (try_sip R dst v cs g)"
proof (induction R dst v cs g rule: try_sip.induct)
  case (2 R dst v m u h cs g)
  from emit_sip_emits [OF 2(2), of R m u h v g]
  obtain ok d g' where e: "emit_sip R dst m u h v g = Some (ok, d, g')" "length d = n"
    by (auto simp: emits_def)
  show ?case
    using e 2(1) [of "(ok, d, g')" ok "(d, g')" d g'] by simp
qed simp

lemma fill_sip_fills: "fills (length dst) (fill_sip R dst domain g)"
  unfolding fill_sip_def run_sip_candidate_chain_def Let_def case_prod_beta
  by (intro filling try_sip_emits) auto

lemma write_labels_ok:
  "list_all (\<lambda>l. l \<noteq> [] \<and> length l \<le> 63) ls \<Longrightarrow>
   pos + sum_list (map (\<lambda>l. 1 + length l) ls) \<le> length dst \<Longrightarrow>
   \<exists>d. write_labels dst pos ls = Some (True, pos + sum_list (map (\<lambda>l. 1 + length l) ls), d) \<and>
       length d = length dst"
proof (induction ls arbitrary: pos dst)
  case (Cons l ls)
  have p: "put_byte pos (of_nat (length l)) dst = Some (dst[pos := of_nat (length l)])"
    using Cons.prems by (simp add: put_byte_def)
  let ?d = "dst[pos := of_nat (length l)]"
  have s: "put_slice (pos + 1) l ?d = Some (copy_at (pos + 1) l ?d)"
    using Cons.prems by (simp add: put_slice_def)
  show ?case
    using Cons.IH [of "pos + 1 + length l" "copy_at (pos + 1) l ?d"] Cons.prems p s
    by (simp add: add.assoc)
qed simp

lemma write_dns_qname_ok:
  assumes "is_valid_imitation_host name" "pos + length name + 2 \<le> length dst"
  obtains d where "write_dns_qname dst pos name = Some (True, pos + length name + 2, d)"
    "length d = length dst"
proof -
  have "list_all (\<lambda>l. l \<noteq> [] \<and> length l \<le> 63) (split_dots name)"
    using assms(1) by (auto simp: valid_host_labels list_all_iff good_label_def)
  then obtain d where d: "write_labels dst pos (split_dots name) = Some (True, pos + (length name + 1), d)"
    "length d = length dst"
    using write_labels_ok [of "split_dots name" pos dst] assms(2) unfolding sum_split_dots by auto
  have "write_dns_qname dst pos name =
      Some (True, pos + length name + 2, d[pos + length name + 1 := 0])"
    using assms d by (simp add: write_dns_qname_def dns_qname_wire_size_def put_byte_def)
  then show thesis using that d by simp
qed

lemma write_dns_header_ok:
  assumes "12 \<le> length dst"
  obtains d g' where "write_dns_header R dst g = Some (12, d, g')" "length d = length dst"
proof -
  have "emits (length dst) (write_dns_header R dst g)"
    unfolding write_dns_header_def Let_def case_prod_beta
    by (intro filling) (use assms in auto)
  then obtain p d g' where e: "write_dns_header R dst g = Some (p, d, g')" "length d = length dst"
    by (auto simp: emits_def)
  moreover have "p = 12"
    using e by (auto simp: write_dns_header_def Let_def case_prod_beta bind_eq_Some_conv)
  ultimately show thesis using that by simp
qed

lemma write_dns_question_tail_ok:
  assumes "pos + 4 \<le> length dst"
  obtains d where "write_dns_question_tail dst pos = Some (pos + 4, d)" "length d = length dst"
proof -
  have "stores (length dst) (put_all [(pos, 0), (pos + 1, 1), (pos + 2, 0), (pos + 3, 1)] dst)"
    by (intro filling) (use assms in auto)
  then obtain d where "put_all [(pos, 0), (pos + 1, 1), (pos + 2, 0), (pos + 3, 1)] dst = Some d"
    "length d = length dst" by (auto simp: stores_def)
  then show thesis using that by (simp add: write_dns_question_tail_def del: put_all.simps)
qed

text \<open>The OPT record, where it is written: its two length fields and the answer count.\<close>

definition places :: "nat \<Rightarrow> (bool \<times> nat \<times> bytes) option \<Rightarrow> bool" where
  "places n r \<longleftrightarrow> (\<exists>ok p d. r = Some (ok, p, d) \<and> length d = n)"

lemma places_rules [filling]:
  "stores n m \<Longrightarrow> (\<And>d. length d = n \<Longrightarrow> places n (f d)) \<Longrightarrow> places n (m \<bind> f)"
  "(c \<Longrightarrow> places n a) \<Longrightarrow> (\<not> c \<Longrightarrow> places n b) \<Longrightarrow> places n (if c then a else b)"
  "places n m' \<Longrightarrow> (\<And>ok p d. length d = n \<Longrightarrow> emits n (f' (ok, p, d))) \<Longrightarrow> emits n (m' \<bind> f')"
  by (auto simp: places_def stores_def)

lemma places_Some [simp]: "places n (Some (ok, p, d)) \<longleftrightarrow> length d = n"
  by (simp add: places_def)

lemma write_dns_opt_padding_places:
  "length dst = n \<Longrightarrow> places n (write_dns_opt_padding dst n tot pos ar)"
  unfolding write_dns_opt_padding_def Let_def
  by (intro filling) (auto simp: DNS_OPT_MIN_WIRE_SIZE_def DNS_OPT_FIXED_LEN_def)

lemma emit_dns_domain_emits: "emits (length dst) (emit_dns_domain R dst tot name g)"
proof (cases "dns_qname_wire_size name = 0 \<or> length dst < 12 + dns_qname_wire_size name + 4 + DNS_OPT_MIN_WIRE_SIZE")
  case False
  then have v: "is_valid_imitation_host name"
    and b: "12 + (length name + 2) + 4 + 15 \<le> length dst"
    by (auto simp: dns_qname_wire_size_def DNS_OPT_MIN_WIRE_SIZE_def DNS_OPT_FIXED_LEN_def split: if_splits)
  from b have "12 \<le> length dst" by simp
  then obtain d1 g1 where h: "write_dns_header R dst g = Some (12, d1, g1)" "length d1 = length dst"
    by (rule write_dns_header_ok)
  obtain d2 where q: "write_dns_qname d1 12 name = Some (True, 12 + length name + 2, d2)"
    "length d2 = length d1"
    by (rule write_dns_qname_ok [OF v, of 12 d1]) (use b h in simp)
  obtain d3 where t: "write_dns_question_tail d2 (12 + length name + 2) = Some (12 + length name + 2 + 4, d3)"
    "length d3 = length d2"
    by (rule write_dns_question_tail_ok [of "12 + length name + 2" d2]) (use b h q in simp)
  then have t': "write_dns_question_tail d2 (14 + length name) = Some (18 + length name, d3)" by simp
  have "emits (length dst) (write_dns_opt_padding d3 (length d3) tot (12 + length name + 2 + 4) 10 \<bind>
      (\<lambda>(ok, pos, dst). Some (ok, dst, g1)))"
    using write_dns_opt_padding_places [of d3 "length d3"] h q t
    by (intro filling) simp_all
  then show ?thesis
    using False unfolding emit_dns_domain_def Let_def
    by (simp add: h q t t')
qed (simp add: emit_dns_domain_def Let_def)

lemma fill_dns_root_padding_emits: "emits (length dst) (fill_dns_root_padding R dst tr tot g)"
proof (cases "tr > 0 \<and> length dst \<ge> 12 + 1 + 4 + DNS_OPT_MIN_WIRE_SIZE")
  case True
  then have b: "32 \<le> length dst" by (simp add: DNS_OPT_MIN_WIRE_SIZE_def DNS_OPT_FIXED_LEN_def)
  then have "12 \<le> length dst" by simp
  then obtain d1 g1 where h: "write_dns_header R dst g = Some (12, d1, g1)" "length d1 = length dst"
    by (rule write_dns_header_ok)
  let ?d2 = "d1[12 := 0]"
  obtain d3 where t: "write_dns_question_tail ?d2 13 = Some (13 + 4, d3)" "length d3 = length ?d2"
    by (rule write_dns_question_tail_ok [of 13 ?d2]) (use b h in simp)
  have "emits (length dst) (write_dns_opt_padding d3 (length d3) tot (13 + 4) 10 \<bind>
      (\<lambda>(ok, pos, dst). Some (ok, dst, g1)))"
    using write_dns_opt_padding_places [of d3 "length d3"] h t
    by (intro filling) simp_all
  then show ?thesis
    using True b unfolding fill_dns_root_padding_def
    by (simp add: h t put_byte_def)
qed (auto simp: fill_dns_root_padding_def)

lemma fill_dns_minimal_root_query_fills: "fills (length dst) (fill_dns_minimal_root_query R dst g)"
  unfolding fill_dns_minimal_root_query_def Let_def case_prod_beta
  by (intro filling) auto

lemma fill_dns_fills: "fills (length dst) (fill_dns R dst tr domain g)"
proof -
  have 1: "emits (length dst) (fill_dns_domain R dst tot domain g)" for tot
    unfolding fill_dns_domain_def Let_def case_prod_beta
    using emit_dns_domain_emits by (auto split: option.splits)
  have 2: "length d = n \<Longrightarrow> emits n (fill_dns_root_padding R d tr tot g)" for d n tot g
    using fill_dns_root_padding_emits [of d] by simp
  have 3: "length d = n \<Longrightarrow> fills n (fill_dns_minimal_root_query R d g)" for d n g
    using fill_dns_minimal_root_query_fills [of d] by simp
  show ?thesis
    unfolding fill_dns_def Let_def case_prod_beta
    by (intro filling 1 2 3) simp_all
qed


section \<open>Uniform draws\<close>

lemma draw_threshold_facts:
  assumes "0 < n" "n < 2 ^ 64"
  shows "2 ^ 63 \<le> draw_threshold n" "draw_threshold n < 2 ^ 64" "draw_threshold n mod n = 0"
proof -
  let ?m = "2 ^ 64 - 1 :: nat"
  have div: "draw_threshold n = ?m div n * n"
    by (simp add: draw_threshold_def minus_mod_eq_div_mult)
  then show "draw_threshold n mod n = 0" by simp
  have "draw_threshold n \<le> ?m" by (simp add: draw_threshold_def)
  then show "draw_threshold n < 2 ^ 64" by simp
  show "2 ^ 63 \<le> draw_threshold n"
  proof (cases "n \<le> 2 ^ 63")
    case True
    have "?m mod n < n" using assms by simp
    then show ?thesis using True unfolding draw_threshold_def by simp
  next
    case False
    have "1 \<le> ?m div n" using assms by (simp add: Suc_le_eq div_greater_zero_iff)
    then have "1 * n \<le> ?m div n * n" by (rule mult_le_mono1)
    then show ?thesis using False div by linarith
  qed
qed

lemma draw_loop_iterate:
  "((\<lambda>(v :: u64, g). next_u64 R g) ^^ n) (next_u64 R g) = next_u64 R (((\<lambda>g. snd (next_u64 R g)) ^^ n) g)"
  by (induction n) (simp_all add: case_prod_beta)

lemma draw_loop_ends:
  assumes "rng_fair R" "0 < n" "n < 2 ^ 64"
  obtains v g' where "draw_loop R n (next_u64 R g) = Some (v, g')" "unat v < draw_threshold n"
proof -
  from assms(1) obtain k
    where "unat (fst (next_u64 R (((\<lambda>g. snd (next_u64 R g)) ^^ k) g))) < 2 ^ 63"
    unfolding rng_fair_def by blast
  then have "\<exists>k. \<not> (\<lambda>(v, g). \<not> unat v < draw_threshold n) (((\<lambda>(v :: u64, g). next_u64 R g) ^^ k) (next_u64 R g))"
    using draw_threshold_facts(1) [OF assms(2,3)] unfolding draw_loop_iterate
    by (intro exI [of _ k]) (simp add: case_prod_beta)
  then obtain s where s: "draw_loop R n (next_u64 R g) = Some s"
    unfolding draw_loop_def while_option_def by auto
  moreover have "unat (fst s) < draw_threshold n"
    using while_option_stop [OF s [unfolded draw_loop_def]] by (simp add: case_prod_beta)
  ultimately show thesis using that by (cases s) auto
qed

lemma random_usize_inclusive_bounds:
  "lo \<le> fst (random_usize_inclusive R lo hi g)"
  "fst (random_usize_inclusive R lo hi g) \<le> max lo hi"
proof -
  have "lo + v mod Suc (hi - lo) \<le> hi" if "lo < hi" for v
    using mod_less_divisor [of "Suc (hi - lo)" v] that by linarith
  then show "lo \<le> fst (random_usize_inclusive R lo hi g)"
    "fst (random_usize_inclusive R lo hi g) \<le> max lo hi"
    by (simp_all add: random_usize_inclusive_def Let_def case_prod_beta max_def)
qed

lemma random_below_less: "0 < n \<Longrightarrow> fst (random_below R n g) < n" "fst (random_below R 0 g) = 0"
  using random_usize_inclusive_bounds(2) [of R 0 "n - 1" g] by (simp_all add: random_below_def)

lemma card_residues:
  assumes "0 < n" "r < n"
  shows "card {v. v < n * q \<and> v mod n = r} = (q :: nat)"
proof -
  have "{v. v < n * q \<and> v mod n = r} = (\<lambda>k. r + n * k) ` {..<q}"
  proof (intro set_eqI iffI)
    fix v assume "v \<in> {v. v < n * q \<and> v mod n = r}"
    then have "v = r + n * (v div n)" "v div n < q"
      using assms by (auto simp: less_mult_imp_div_less mult.commute)
    then show "v \<in> (\<lambda>k. r + n * k) ` {..<q}" by blast
  next
    fix v assume "v \<in> (\<lambda>k. r + n * k) ` {..<q}"
    then obtain k where k: "v = r + n * k" "k < q" by blast
    have "n * k + n \<le> n * q" using k(2) by (metis Suc_leI mult_Suc_right mult_le_mono2 add.commute)
    then show "v \<in> {v. v < n * q \<and> v mod n = r}" using k assms by simp
  qed
  moreover have "inj_on (\<lambda>k. r + n * k) {..<q}" using assms by (auto simp: inj_on_def)
  ultimately show ?thesis by (simp add: card_image)
qed

section \<open>Generated hosts\<close>

lemma random_letters_alphanumeric:
  "list_all (\<lambda>b. 97 \<le> unat b \<and> unat b \<le> 122) (fst (random_letters R n g))"
proof (induction n arbitrary: g)
  case (Suc n)
  have "unat (of_nat (97 + w mod 26) :: u8) = 97 + w mod 26" for w :: nat
    using mod_less_divisor [of 26 w] by (simp add: unat_of_nat del: of_nat_add)
  then show ?case using Suc by (simp add: Let_def case_prod_beta del: of_nat_add)
qed simp

lemma good_label_letters:
  "list_all (\<lambda>b. 97 \<le> unat b \<and> unat b \<le> 122) l \<Longrightarrow> l \<noteq> [] \<Longrightarrow> length l \<le> 63 \<Longrightarrow> good_label l"
proof -
  assume l: "list_all (\<lambda>b. 97 \<le> unat b \<and> unat b \<le> 122) l" "l \<noteq> []" "length l \<le> 63"
  have "b \<noteq> hyphen" if "b \<in> set l" for b
    using l(1) that by (auto simp: list_all_iff)
  then show ?thesis
    using l by (auto simp: good_label_def is_alphanumeric_def list_all_iff)
qed

lemma split_dots_two:
  "dot \<notin> set a \<Longrightarrow> dot \<notin> set b \<Longrightarrow> split_dots (a @ dot # b) = [a, b]"
proof -
  have one: "dot \<notin> set b \<Longrightarrow> split_dots b = [b]" for b by (induction b) auto
  show "dot \<notin> set a \<Longrightarrow> dot \<notin> set b \<Longrightarrow> split_dots (a @ dot # b) = [a, b]"
    by (induction a) (auto simp: one)
qed

lemma random_host_valid: "is_valid_imitation_host (fst (random_imitation_domain R g))"
proof -
  define n where "n = 7 + unat (fst (next_u32 R g)) mod 10"
  define host where "host = fst (random_letters R n (snd (next_u32 R g)))"
  define t where "t = TLDS ! (unat (fst (next_u32 R (snd (random_letters R n (snd (next_u32 R g)))))) mod 4)"
  have d: "fst (random_imitation_domain R g) = host @ dot # t"
    by (simp add: random_imitation_domain_def Let_def case_prod_beta n_def host_def t_def TLDS_def)
  have n: "7 \<le> n" "n \<le> 16" by (simp_all add: n_def)
  have l: "list_all (\<lambda>b. 97 \<le> unat b \<and> unat b \<le> 122) host" "length host = n"
    by (simp_all add: host_def random_letters_alphanumeric)
  then have "host \<noteq> []" using n by auto
  have ts: "list_all (\<lambda>t. list_all (\<lambda>b. 97 \<le> unat b \<and> unat b \<le> 122) t \<and> t \<noteq> [] \<and> length t \<le> 3) TLDS"
    by (simp add: TLDS_def ascii_def)
  have "t \<in> set TLDS" unfolding t_def by (rule nth_mem) (simp add: TLDS_def)
  then have t: "list_all (\<lambda>b. 97 \<le> unat b \<and> unat b \<le> 122) t" "t \<noteq> []" "length t \<le> 3"
    using ts by (auto simp: list_all_iff)
  have nd: "dot \<notin> set a" if "list_all (\<lambda>b. 97 \<le> unat b \<and> unat b \<le> 122) a" for a :: bytes
    using that by (auto simp: list_all_iff)
  show ?thesis
    unfolding d valid_host_labels split_dots_two [OF nd [OF l(1)] nd [OF t(1)]]
    using good_label_letters [OF l(1)] good_label_letters [OF t(1)] l(2) n t \<open>host \<noteq> []\<close> by simp
qed

section \<open>The DNS padding record\<close>

lemma slice_copy_at [simp]:
  "i + length src \<le> length d \<Longrightarrow> j = i + length src \<Longrightarrow> slice i j (copy_at i src d) = src"
  by (simp add: slice_def copy_at_def)

lemma slice_copy_at_outside [simp]:
  assumes "k + length src \<le> length d" "j \<le> k \<or> k + length src \<le> i"
  shows "slice i j (copy_at k src d) = slice i j d"
  using assms by (auto simp: slice_def copy_at_def min_def simp flip: drop_take)

lemma slice_update_outside [simp]: "k < i \<or> j \<le> k \<Longrightarrow> slice i j (d[k := b]) = slice i j d"
  by (auto simp: slice_def) (simp flip: drop_take)

lemma unat_u16_of_nat: "n \<le> 65535 \<Longrightarrow> unat (of_nat n :: u16) = n"
  by (simp add: unat_of_nat)

lemma fill_protocol_like_fills: "fills (length dst) (fill_protocol_like R protocol domain dst n g)"
  unfolding fill_protocol_like_def
  by (cases protocol) (simp_all add: fill_dns_fills fill_quic_short_fills fill_sip_fills fill_stun_fills)

section \<open>Properties\<close>

text \<open>
  C35. Filling a prefix never panics and fills exactly the slice: for every imitation protocol, host
  name, slice, trailing length and sequence of draws, the filler returns and leaves as many bytes as
  it was given.
\<close>

theorem prefix_fill_total:
  "\<exists>d g'. fill_protocol_like R protocol domain dst trailing_size g = Some (d, g') \<and>
     length d = length dst"
  using fill_protocol_like_fills [of dst R protocol domain trailing_size g] by (simp add: fills_def)

text \<open>
  A draw from an inclusive range: for a generator that does not refuse forever the rejection loop
  ends with an accepted word, the result lies in the range, and no value is favoured, since every
  value of the range is the residue of equally many accepted words.
\<close>

lemma draw_is_uniform:
  assumes "rng_fair R" "lo < hi" "hi - lo < 2 ^ 64 - 1"
  shows "(\<exists>v g'. draw_loop R (hi - lo + 1) (next_u64 R g) = Some (v, g') \<and>
           random_usize_inclusive R lo hi g = (lo + unat v mod (hi - lo + 1), g') \<and>
           unat v < draw_threshold (hi - lo + 1)) \<and>
         fst (random_usize_inclusive R lo hi g) \<in> {lo..hi} \<and>
         (\<forall>r < hi - lo + 1. card {v. v < draw_threshold (hi - lo + 1) \<and> v mod (hi - lo + 1) = r} =
                          draw_threshold (hi - lo + 1) div (hi - lo + 1)) \<and>
         draw_threshold (hi - lo + 1) \<le> 2 ^ 64"
proof -
  let ?n = "hi - lo + 1"
  have n: "0 < ?n" "?n < 2 ^ 64" using assms(3) by simp_all
  obtain v g' where v: "draw_loop R ?n (next_u64 R g) = Some (v, g')" "unat v < draw_threshold ?n"
    by (rule draw_loop_ends [OF assms(1) n])
  have q: "draw_threshold ?n = ?n * (draw_threshold ?n div ?n)"
    using draw_threshold_facts(3) [OF n] by (metis mult_div_mod_eq add_0_right)
  have "card {v. v < draw_threshold ?n \<and> v mod ?n = r} = draw_threshold ?n div ?n" if "r < ?n" for r
    using card_residues [OF n(1) that, of "draw_threshold ?n div ?n"] q by simp
  moreover have "random_usize_inclusive R lo hi g = (lo + unat v mod ?n, g')"
    using v assms(2) by (simp add: random_usize_inclusive_def Let_def)
  moreover have "fst (random_usize_inclusive R lo hi g) \<in> {lo..hi}"
    using random_usize_inclusive_bounds(1) [of lo R hi g]
      random_usize_inclusive_bounds(2) [of R lo hi g] assms(2) by simp
  moreover have "draw_threshold ?n \<le> 2 ^ 64"
    using draw_threshold_facts(2) [OF n] by (rule less_imp_le)
  ultimately show ?thesis using v by blast
qed

text \<open>
  The host check accepts exactly the names of at most 253 bytes whose dot-separated labels are
  non-empty, at most 63 bytes of letters, digits and hyphens, and neither begin nor end with a
  hyphen; and every host generated when none is configured passes it.
\<close>

lemma host_check_is_label_grammar:
  "(is_valid_imitation_host h \<longleftrightarrow> length h \<le> 253 \<and> list_all good_label (split_dots h)) \<and>
   is_valid_imitation_host (fst (random_imitation_domain R g))"
  by (intro conjI valid_host_labels random_host_valid)

text \<open>
  Where the DNS shape writes its padding record behind a question that ends at \<open>pos\<close>, the record
  frames the whole datagram: its data length reaches exactly the end of the datagram of \<open>total_len\<close>
  bytes, the packet behind the prefix included, its option length reaches the same end, and the
  additional count of the header is one.
\<close>

lemma dns_record_frames_datagram:
  assumes "write_dns_opt_padding dst (length dst) total_len pos 10 = Some (True, pos', d)" "12 \<le> pos"
  shows "pos + 11 + unat (u16_from_be (slice (pos + 9) (pos + 11) d)) = total_len \<and>
         pos + 15 + unat (u16_from_be (slice (pos + 13) (pos + 15) d)) = total_len \<and>
         u16_from_be (slice 10 12 d) = 1 \<and> length d = length dst \<and> pos' = length dst"
proof -
  have g: "length dst \<le> total_len" "pos + 15 \<le> length dst" "total_len - pos - 11 \<le> 65535"
    using assms(1)
    by (auto simp: write_dns_opt_padding_def DNS_OPT_MIN_WIRE_SIZE_def DNS_OPT_FIXED_LEN_def split: if_splits)
  define rd where "rd = total_len - (pos + 9) - 2"
  have rd: "rd \<le> 65535" "pos + 11 + rd = total_len" "4 \<le> rd" using g by (simp_all add: rd_def)
  let ?c = "(if total_len > length dst then 0xfde9 else 0x000c) :: u16"
  let ?d1 = "copy_at pos [0x00, 0x00, 0x29, 0x10, 0x00, 0x00, 0x00, 0x00, 0x00] dst"
  let ?d2 = "copy_at (pos + 9) (u16_to_be (of_nat rd)) ?d1"
  let ?d3 = "copy_at (pos + 11) (u16_to_be ?c) ?d2"
  let ?d4 = "copy_at (pos + 13) (u16_to_be (of_nat (rd - 4))) ?d3"
  let ?d5 = "copy_at (pos + 15) (replicate (length dst - (pos + 15)) 0) ?d4"
  have "write_dns_opt_padding dst (length dst) total_len pos 10 =
      Some (True, length dst, ?d5[10 := 0, 11 := 1])"
    using g assms(2) unfolding write_dns_opt_padding_def Let_def rd_def [symmetric]
    by (simp add: put_slice_def put_byte_def DNS_OPT_MIN_WIRE_SIZE_def DNS_OPT_FIXED_LEN_def) linarith
  then have d: "d = ?d5[10 := 0, 11 := 1]" and p: "pos' = length dst"
    using assms(1) by simp_all
  have "slice (pos + 9) (pos + 11) d = u16_to_be (of_nat rd)"
    using g assms(2) unfolding d by simp
  moreover have "slice (pos + 13) (pos + 15) d = u16_to_be (of_nat (rd - 4))"
    using g assms(2) unfolding d by simp
  moreover have "slice 10 12 d = [0, 1]"
    using g assms(2) unfolding d
    by (simp add: slice_def take_Suc_conv_app_nth numeral_2_eq_2 Cons_nth_drop_Suc [symmetric])
  moreover have "u16_from_be [0, 1] = 1" by (simp add: u16_from_be_def be_value_def)
  ultimately show ?thesis
    using g p rd unat_u16_of_nat [of rd] unat_u16_of_nat [of "rd - 4"]
    by (simp add: d del: of_nat_diff)
qed

end
