(* ===== verification/Header_Protection.thy ===== *)
theory Header_Protection
  imports Wire
begin

text \<open>
  Header protection (\<open>noise/header_protection.rs\<close>): a raw ChaCha20 keystream over the message that
  follows the junk prefix, with the first twelve bytes of the datagram as the nonce.

  The cipher is the \<open>chacha20\<close> crate's and a parameter here: a stream cipher is the keystream byte
  at each position, for a key and a nonce, and applying it is XOR. Everything shown below holds for
  every keystream. The lemmas show that masking keeps the length and the prefix, that the detached
  unmasking of the receiver inverts it wherever the message sits, and that the four type-mask bytes
  the receiver classifies with are the ones the sender put on the type field.
\<close>

type_synonym stream_cipher = "bytes \<Rightarrow> bytes \<Rightarrow> nat \<Rightarrow> u8"

definition NONCE_SIZE :: nat where "NONCE_SIZE = 12"
definition TYPE_MASK_SIZE :: nat where "TYPE_MASK_SIZE = 4"

text \<open>\<open>StreamCipher::apply_keystream\<close> from position zero.\<close>

definition apply_keystream :: "(nat \<Rightarrow> u8) \<Rightarrow> bytes \<Rightarrow> bytes" where
  "apply_keystream ks xs = map (\<lambda>i. xor (xs ! i) (ks i)) [0..<length xs]"

type_synonym header_protection_key = bytes

definition hp_default :: header_protection_key where
  "hp_default = replicate 32 0"

definition hp_is_set :: "header_protection_key \<Rightarrow> bool" where
  "hp_is_set key \<longleftrightarrow> key \<noteq> replicate 32 0"

definition hp_cipher :: "stream_cipher \<Rightarrow> header_protection_key \<Rightarrow> bytes \<Rightarrow> (nat \<Rightarrow> u8) option" where
  "hp_cipher C key nonce = (if \<not> hp_is_set key then None else Some (C key nonce))"

definition hp_to_hex :: "header_protection_key \<Rightarrow> bytes option" where
  "hp_to_hex key =
     (if \<not> hp_is_set key then None else Some (concat (map (\<lambda>b. hex_width 2 (unat b)) key)))"

text \<open>The result flag and the datagram as it is left.\<close>

definition mask_outbound ::
  "stream_cipher \<Rightarrow> header_protection_key \<Rightarrow> bytes \<Rightarrow> nat \<Rightarrow> nat \<Rightarrow> bool \<times> bytes" where
  "mask_outbound C key datagram offset len =
     (if \<not> hp_is_set key then (True, datagram)
      else if offset < NONCE_SIZE \<or> length datagram < offset + len then (False, datagram)
      else case hp_cipher C key (take NONCE_SIZE datagram) of
        None \<Rightarrow> (True, datagram)
      | Some ks \<Rightarrow>
          (True, copy_at offset (apply_keystream ks (slice offset (offset + len) datagram)) datagram))"

definition type_mask :: "stream_cipher \<Rightarrow> header_protection_key \<Rightarrow> bytes \<Rightarrow> bytes option" where
  "type_mask C key datagram =
     (if \<not> hp_is_set key \<or> length datagram < NONCE_SIZE then None
      else case hp_cipher C key (take NONCE_SIZE datagram) of
        None \<Rightarrow> None
      | Some ks \<Rightarrow> Some (apply_keystream ks (replicate TYPE_MASK_SIZE 0)))"

definition unmask_detached ::
  "stream_cipher \<Rightarrow> header_protection_key \<Rightarrow> bytes \<Rightarrow> bytes \<Rightarrow> nat \<Rightarrow> bool \<times> bytes" where
  "unmask_detached C key datagram message len =
     (if \<not> hp_is_set key then (True, message)
      else if length datagram < NONCE_SIZE \<or> length message < len \<or> len < TYPE_MASK_SIZE
      then (False, message)
      else case hp_cipher C key (take NONCE_SIZE datagram) of
        None \<Rightarrow> (True, message)
      | Some ks \<Rightarrow> (True, copy_at 0 (apply_keystream ks (take len message)) message))"

section \<open>The keystream\<close>

lemma length_apply_keystream [simp, len_simps]: "length (apply_keystream ks xs) = length xs"
  by (simp add: apply_keystream_def)

lemma apply_keystream_nth [simp]: "i < length xs \<Longrightarrow> apply_keystream ks xs ! i = xor (xs ! i) (ks i)"
  by (simp add: apply_keystream_def)

lemma apply_keystream_twice [simp]: "apply_keystream ks (apply_keystream ks xs) = xs"
  by (rule nth_equalityI) (simp_all add: xor.assoc)

lemma take_apply_keystream: "take n (apply_keystream ks xs) = apply_keystream ks (take n xs)"
  by (rule nth_equalityI) simp_all

section \<open>Masking a message behind its prefix\<close>

definition masked :: "stream_cipher \<Rightarrow> header_protection_key \<Rightarrow> bytes \<Rightarrow> nat \<Rightarrow> bytes \<Rightarrow> bytes" where
  "masked C key nonce len message =
     (if hp_is_set key then apply_keystream (C key nonce) (take len message) @ drop len message
      else message)"

lemma length_masked [simp, len_simps]: "length (masked C key nonce len m) = length m"
  by (simp add: masked_def min_def)

lemma masked_masked [simp]: "len \<le> length m \<Longrightarrow> masked C key nonce len (masked C key nonce len m) = m"
  by (simp add: masked_def)

lemma mask_outbound_prefix:
  assumes "hp_is_set key \<Longrightarrow> NONCE_SIZE \<le> length prefix" "len \<le> length m"
  shows "mask_outbound C key (prefix @ m) (length prefix) len =
    (True, prefix @ masked C key (take NONCE_SIZE prefix) len m)"
  using assms by (auto simp: mask_outbound_def masked_def hp_cipher_def copy_at_def slice_def)

lemma mask_outbound_refuses:
  "fst (mask_outbound C key d offset len) \<longleftrightarrow>
     (hp_is_set key \<longrightarrow> NONCE_SIZE \<le> offset \<and> offset + len \<le> length d)"
  by (auto simp: mask_outbound_def hp_cipher_def)

lemma unmask_detached_masked:
  assumes "hp_is_set key \<Longrightarrow> NONCE_SIZE \<le> length datagram" "len \<le> length m" "TYPE_MASK_SIZE \<le> len"
  shows "unmask_detached C key datagram (masked C key (take NONCE_SIZE datagram) len m) len = (True, m)"
proof (cases "hp_is_set key")
  case True
  then show ?thesis
    using assms by (auto simp: unmask_detached_def masked_def hp_cipher_def copy_at_def)
qed (simp add: unmask_detached_def masked_def)

lemma type_mask_Some:
  assumes "hp_is_set key" "NONCE_SIZE \<le> length datagram"
  shows "type_mask C key datagram = Some (map (C key (take NONCE_SIZE datagram)) [0..<4])"
proof -
  have "apply_keystream ks (replicate 4 0) = map ks [0..<4]" for ks
    by (rule nth_equalityI) simp_all
  then show ?thesis
    using assms by (simp add: type_mask_def hp_cipher_def TYPE_MASK_SIZE_def)
qed

lemma type_mask_on_masked:
  assumes "hp_is_set key" "type_mask C key datagram = Some mk" "4 \<le> len" "len \<le> length m"
  shows "map2 xor (take 4 (masked C key (take NONCE_SIZE datagram) len m)) mk = take 4 m"
proof -
  have "NONCE_SIZE \<le> length datagram"
    using assms(2) by (auto simp: type_mask_def split: if_splits)
  then have m: "mk = map (C key (take NONCE_SIZE datagram)) [0..<4]"
    using assms type_mask_Some by simp
  show ?thesis
    using assms(1,3,4)
    by (intro nth_equalityI) (simp_all add: m masked_def nth_append xor.assoc)
qed

end
