(* ===== verification/Budget.thy ===== *)
theory Budget
  imports Wire
begin

text \<open>
  Output budgets (\<open>noise/budget.rs\<close>): how large a datagram one operation may produce. A budget
  of 0 is unbounded. Every producer admits its mandatory datagram before it consumes anything, and
  the ceiling it gets back bounds the optional bytes.

  The lemmas characterise admission on every branch and bound whatever is produced under it.
\<close>

record output_budget =
  ob_transport :: u32
  ob_control :: u32
  ob_ordinary_junk_only :: bool

datatype control_output = OrdinaryJunk | OtherControl

definition budget_UNBOUNDED :: output_budget where
  "budget_UNBOUNDED = \<lparr> ob_transport = 0, ob_control = 0, ob_ordinary_junk_only = False \<rparr>"

definition control_for :: "output_budget \<Rightarrow> control_output \<Rightarrow> u32" where
  "control_for b kind =
     (case kind of
        OtherControl \<Rightarrow> if ob_ordinary_junk_only b then 0 else ob_control b
      | OrdinaryJunk \<Rightarrow> ob_control b)"

definition exceeds :: "nat option \<Rightarrow> u32 \<Rightarrow> bool" where
  "exceeds mandatory budget \<longleftrightarrow>
     budget \<noteq> 0 \<and> (case mandatory of None \<Rightarrow> True | Some m \<Rightarrow> m > unat budget)"

definition budget_ceiling :: "nat \<Rightarrow> u32 \<Rightarrow> nat" where
  "budget_ceiling dst_len budget = (if budget = 0 then dst_len else min dst_len (unat budget))"

definition admit :: "nat option \<Rightarrow> nat \<Rightarrow> u32 \<Rightarrow> wg_error + nat" where
  "admit mandatory dst_len budget =
     (if exceeds mandatory budget then Err OutputBudgetExceeded
      else case mandatory of
        Some m \<Rightarrow> if m \<le> dst_len then Ok (budget_ceiling dst_len budget) else Err DestinationBufferTooSmall
      | None \<Rightarrow> Err DestinationBufferTooSmall)"

definition transport_frame :: "nat \<Rightarrow> nat \<Rightarrow> nat option" where
  "transport_frame plaintext_len s4 =
     (case checked_add plaintext_len DATA_OVERHEAD_SZ of
        None \<Rightarrow> None
      | Some n \<Rightarrow> checked_add n s4)"

definition junk_range :: "nat \<times> nat \<Rightarrow> bool \<Rightarrow> u32 \<Rightarrow> wg_error + (nat \<times> nat)" where
  "junk_range rng_pair protocol_shaped control =
     (if control = 0 then Ok rng_pair
      else
        let c = unat control; lo = fst rng_pair; hi = snd rng_pair in
        if \<not> protocol_shaped then Ok (min lo c, min hi c)
        else
          let hi = min hi c in
          if lo > hi then Err OutputBudgetExceeded else Ok (lo, hi))"

section \<open>Facts\<close>

lemma admit_Ok_iff:
  "admit m n b = Ok c \<longleftrightarrow>
     (\<exists>k. m = Some k \<and> k \<le> n \<and> (b = 0 \<or> k \<le> unat b)) \<and> c = budget_ceiling n b"
  by (cases m) (auto simp: admit_def exceeds_def)

lemma budget_ceiling_bounds: "budget_ceiling n b \<le> n" "b \<noteq> 0 \<Longrightarrow> budget_ceiling n b \<le> unat b"
  by (simp_all add: budget_ceiling_def)

lemma admit_fits: "admit (Some k) n b = Ok c \<Longrightarrow> k \<le> c \<and> c \<le> n \<and> (b \<noteq> 0 \<longrightarrow> c \<le> unat b)"
  by (auto simp: admit_Ok_iff budget_ceiling_def)

lemma transport_frame_Some:
  "transport_frame p s = Some n \<longleftrightarrow> n = p + 32 + s \<and> p + 32 + s \<le> usize_max"
  by (auto simp: transport_frame_def DATA_OVERHEAD_SZ_def checked_add_def)

lemma junk_range_bounds:
  "junk_range (lo, hi) shaped c = Ok (lo', hi') \<Longrightarrow> lo \<le> hi \<Longrightarrow>
     lo' \<le> hi' \<and> hi' \<le> hi \<and> lo' \<le> lo \<and> (c \<noteq> 0 \<longrightarrow> hi' \<le> unat c) \<and> (shaped \<longrightarrow> lo' = lo)"
  by (auto simp: junk_range_def Let_def split: if_splits)

section \<open>Admission\<close>

text \<open>
  Admission, on every branch. A mandatory datagram is refused for the budget exactly when a
  finite budget is smaller than it (or its size overflowed), refused for the destination exactly when
  the budget admits it and the destination does not hold it, and otherwise gets a ceiling that the
  datagram itself, the destination and the budget all respect.
\<close>

lemma admit_total:
  "admit m n b =
     (if b \<noteq> 0 \<and> (\<forall>k. m = Some k \<longrightarrow> unat b < k) then Err OutputBudgetExceeded
      else if \<forall>k. m = Some k \<longrightarrow> n < k then Err DestinationBufferTooSmall
      else Ok (if b = 0 then n else min n (unat b))) \<and>
   (\<forall>k c. m = Some k \<and> admit m n b = Ok c \<longrightarrow> k \<le> c \<and> c \<le> n \<and> (b \<noteq> 0 \<longrightarrow> c \<le> unat b))"
  by (cases m) (auto simp: admit_def exceeds_def budget_ceiling_def)

end
