(* ===== verification/Clock.thy ===== *)
theory Clock
  imports Prelude
begin

text \<open>
  Instants and durations (\<open>sleepyinstant/mod.rs\<close>, \<open>sleepyinstant/unix.rs\<close>). An instant is the
  \<open>TimeSpec\<close> of the boot-time clock; a \<open>std::time::Duration\<close> is its number of nanoseconds. The
  clock itself is not modelled: every operation that reads it takes the reading as an argument.
\<close>

type_synonym duration = nat

definition NANOS :: nat where "NANOS = 1000000000"

record instant =
  tv_sec :: int
  tv_nsec :: int

definition duration_new :: "nat \<Rightarrow> nat \<Rightarrow> duration" where
  "duration_new secs nanos = secs * NANOS + nanos"

definition as_secs :: "duration \<Rightarrow> nat" where
  "as_secs d = d div NANOS"

definition subsec_nanos :: "duration \<Rightarrow> nat" where
  "subsec_nanos d = d mod NANOS"

definition as_millis :: "duration \<Rightarrow> nat" where
  "as_millis d = d div 1000000"

definition from_secs :: "nat \<Rightarrow> duration" where
  "from_secs s = s * NANOS"

definition from_millis :: "nat \<Rightarrow> duration" where
  "from_millis m = m * 1000000"

definition checked_duration_since :: "instant \<Rightarrow> instant \<Rightarrow> duration option" where
  "checked_duration_since self earlier =
     (let (sec, nsec) =
        (if tv_nsec self < tv_nsec earlier
         then (tv_sec self - tv_sec earlier - 1, tv_nsec self - tv_nsec earlier + int NANOS)
         else (tv_sec self - tv_sec earlier, tv_nsec self - tv_nsec earlier))
      in if sec < 0 then None else Some (duration_new (nat sec) (nat nsec)))"

definition duration_since :: "instant \<Rightarrow> instant \<Rightarrow> duration" where
  "duration_since self earlier =
     (case checked_duration_since self earlier of None \<Rightarrow> 0 | Some d \<Rightarrow> d)"

text \<open>A reading of \<open>clock_gettime\<close>: the nanoseconds stay below one second.\<close>

definition reading :: "instant \<Rightarrow> bool" where
  "reading t \<longleftrightarrow> 0 \<le> tv_nsec t \<and> tv_nsec t < int NANOS"

definition since_origin :: "instant \<Rightarrow> int" where
  "since_origin t = tv_sec t * int NANOS + tv_nsec t"

definition at_nanos :: "nat \<Rightarrow> instant" where
  "at_nanos n = \<lparr> tv_sec = int (n div NANOS), tv_nsec = int (n mod NANOS) \<rparr>"

lemma reading_at_nanos [simp]: "reading (at_nanos n)"
  by (simp add: reading_def at_nanos_def NANOS_def)

lemma since_origin_at_nanos [simp]: "since_origin (at_nanos n) = int n"
proof -
  have "int (n div NANOS) * int NANOS + int (n mod NANOS) = int (n div NANOS * NANOS + n mod NANOS)"
    by (simp only: of_nat_add of_nat_mult)
  also have "\<dots> = int n" by (simp only: div_mult_mod_eq)
  finally show ?thesis by (simp add: since_origin_def at_nanos_def)
qed

lemma duration_since_eq:
  assumes "reading a" "reading b"
  shows "int (duration_since a b) = max 0 (since_origin a - since_origin b)"
proof -
  have ns: "0 \<le> tv_nsec a" "tv_nsec a < 1000000000" "0 \<le> tv_nsec b" "tv_nsec b < 1000000000"
    using assms by (simp_all add: reading_def NANOS_def)
  show ?thesis
    using ns
    by (auto simp: duration_since_def checked_duration_since_def duration_new_def since_origin_def
        NANOS_def Let_def max_def)
qed

lemma duration_since_mono:
  assumes "reading a" "reading b" "reading t" "since_origin a \<le> since_origin b"
  shows "duration_since a t \<le> duration_since b t"
  using duration_since_eq [OF assms(1,3)] duration_since_eq [OF assms(2,3)] assms(4) by linarith

end
