(* ===== verification/Crypto.thy ===== *)
theory Crypto
  imports Wire
begin

text \<open>
  The cryptographic primitives the tunnel takes from the \<open>blake2\<close>, \<open>hmac\<close>, \<open>ring\<close>,
  \<open>chacha20poly1305\<close> and \<open>x25519-dalek\<close> crates are a record of functions; the wrappers of
  \<open>noise/handshake.rs\<close> around them are the definitions below. What the tunnel relies on is
  stated as named predicates on the record, and \<open>sample_crypto\<close> is a concrete record that
  has them all.
\<close>

record crypto =
  blake2s :: "bytes \<Rightarrow> bytes"
  hmac_blake2s :: "bytes \<Rightarrow> bytes \<Rightarrow> bytes"
  blake2s_mac :: "nat \<Rightarrow> bytes \<Rightarrow> bytes \<Rightarrow> bytes"
  aead_seal :: "bytes \<Rightarrow> bytes \<Rightarrow> bytes \<Rightarrow> bytes \<Rightarrow> bytes"
  aead_open :: "bytes \<Rightarrow> bytes \<Rightarrow> bytes \<Rightarrow> bytes \<Rightarrow> bytes option"
  xaead_seal :: "bytes \<Rightarrow> bytes \<Rightarrow> bytes \<Rightarrow> bytes \<Rightarrow> bytes"
  xaead_open :: "bytes \<Rightarrow> bytes \<Rightarrow> bytes \<Rightarrow> bytes \<Rightarrow> bytes option"
  x25519_dh :: "bytes \<Rightarrow> bytes \<Rightarrow> bytes"
  x25519_public :: "bytes \<Rightarrow> bytes"

section \<open>The wrappers\<close>

definition LABEL_MAC1 :: bytes where
  "LABEL_MAC1 = [0x6d, 0x61, 0x63, 0x31, 0x2d, 0x2d, 0x2d, 0x2d]"

definition LABEL_COOKIE :: bytes where
  "LABEL_COOKIE = [0x63, 0x6f, 0x6f, 0x6b, 0x69, 0x65, 0x2d, 0x2d]"

definition KEY_LEN :: nat where "KEY_LEN = 32"
definition TIMESTAMP_LEN :: nat where "TIMESTAMP_LEN = 12"

definition INITIAL_CHAIN_KEY :: bytes where
  "INITIAL_CHAIN_KEY =
    [96, 226, 109, 174, 243, 39, 239, 192, 46, 195, 53, 226, 160, 37, 210, 208, 22, 235, 66, 6, 248,
     114, 119, 245, 45, 56, 209, 152, 139, 120, 205, 54]"

definition INITIAL_CHAIN_HASH :: bytes where
  "INITIAL_CHAIN_HASH =
    [34, 17, 179, 97, 8, 26, 197, 102, 105, 18, 67, 219, 69, 138, 213, 50, 45, 156, 108, 102, 34,
     147, 232, 183, 14, 225, 156, 101, 186, 7, 158, 243]"

definition b2s_hash :: "crypto \<Rightarrow> bytes \<Rightarrow> bytes \<Rightarrow> bytes" where
  "b2s_hash C data1 data2 = blake2s C (data1 @ data2)"

definition b2s_hmac :: "crypto \<Rightarrow> bytes \<Rightarrow> bytes \<Rightarrow> bytes" where
  "b2s_hmac C key data1 = hmac_blake2s C key data1"

definition b2s_hmac2 :: "crypto \<Rightarrow> bytes \<Rightarrow> bytes \<Rightarrow> bytes \<Rightarrow> bytes" where
  "b2s_hmac2 C key data1 data2 = hmac_blake2s C key (data1 @ data2)"

definition b2s_keyed_mac_16 :: "crypto \<Rightarrow> bytes \<Rightarrow> bytes \<Rightarrow> bytes" where
  "b2s_keyed_mac_16 C key data1 = blake2s_mac C 16 key data1"

definition b2s_keyed_mac_16_2 :: "crypto \<Rightarrow> bytes \<Rightarrow> bytes \<Rightarrow> bytes \<Rightarrow> bytes" where
  "b2s_keyed_mac_16_2 C key data1 data2 = blake2s_mac C 16 key (data1 @ data2)"

definition constant_time_eq :: "bytes \<Rightarrow> bytes \<Rightarrow> bool" where
  "constant_time_eq a b \<longleftrightarrow> a = b"

definition b2s_mac_24 :: "crypto \<Rightarrow> bytes \<Rightarrow> bytes \<Rightarrow> bytes" where
  "b2s_mac_24 C key data1 = blake2s_mac C 24 key data1"

text \<open>The 12-byte nonce of a 64-bit counter.\<close>

definition counter_nonce :: "u64 \<Rightarrow> bytes" where
  "counter_nonce counter = replicate 4 0 @ u64_to_le counter"

definition aead_chacha20_seal :: "crypto \<Rightarrow> bytes \<Rightarrow> u64 \<Rightarrow> bytes \<Rightarrow> bytes \<Rightarrow> bytes" where
  "aead_chacha20_seal C key counter data aad = aead_seal C key (counter_nonce counter) aad data"

definition aead_chacha20_open :: "crypto \<Rightarrow> bytes \<Rightarrow> u64 \<Rightarrow> bytes \<Rightarrow> bytes \<Rightarrow> wg_error + bytes" where
  "aead_chacha20_open C key counter data aad =
     (case aead_open C key (counter_nonce counter) aad data of
        None \<Rightarrow> Err InvalidAeadTag
      | Some plaintext \<Rightarrow> Ok plaintext)"

section \<open>What the primitives promise\<close>

text \<open>Opening inverts sealing, adds 16 bytes, and accepts nothing else.\<close>

definition aead_correct :: "crypto \<Rightarrow> bool" where
  "aead_correct C \<longleftrightarrow>
     (\<forall>k n a p. aead_open C k n a (aead_seal C k n a p) = Some p) \<and>
     (\<forall>k n a p. length (aead_seal C k n a p) = length p + 16)"

definition aead_authentic :: "crypto \<Rightarrow> bool" where
  "aead_authentic C \<longleftrightarrow> (\<forall>k n a c p. aead_open C k n a c = Some p \<longrightarrow> c = aead_seal C k n a p)"

definition xaead_correct :: "crypto \<Rightarrow> bool" where
  "xaead_correct C \<longleftrightarrow>
     (\<forall>k n a p. xaead_open C k n a (xaead_seal C k n a p) = Some p) \<and>
     (\<forall>k n a p. length (xaead_seal C k n a p) = length p + 16)"

text \<open>Diffie-Hellman agreement on X25519.\<close>

definition dh_agrees :: "crypto \<Rightarrow> bool" where
  "dh_agrees C \<longleftrightarrow>
     (\<forall>a b. x25519_dh C a (x25519_public C b) = x25519_dh C b (x25519_public C a))"

text \<open>Output sizes.\<close>

definition sizes_ok :: "crypto \<Rightarrow> bool" where
  "sizes_ok C \<longleftrightarrow>
     (\<forall>d. length (blake2s C d) = 32) \<and> (\<forall>k d. length (hmac_blake2s C k d) = 32) \<and>
     (\<forall>n k d. length (blake2s_mac C n k d) = n) \<and> (\<forall>s. length (x25519_public C s) = 32) \<and>
     (\<forall>s p. length (x25519_dh C s p) = 32)"

text \<open>A concrete record with all of the above.\<close>

definition pad_to :: "nat \<Rightarrow> bytes \<Rightarrow> bytes" where
  "pad_to n bs = take n (bs @ replicate n 0)"

definition sample_seal :: "bytes \<Rightarrow> bytes \<Rightarrow> bytes \<Rightarrow> bytes \<Rightarrow> bytes" where
  "sample_seal k n a p = p @ replicate 16 0"

definition sample_open :: "bytes \<Rightarrow> bytes \<Rightarrow> bytes \<Rightarrow> bytes \<Rightarrow> bytes option" where
  "sample_open k n a c =
     (if length c \<ge> 16 \<and> drop (length c - 16) c = replicate 16 0
      then Some (take (length c - 16) c) else None)"

definition sample_crypto :: crypto where
  "sample_crypto = \<lparr>
     blake2s = pad_to 32,
     hmac_blake2s = (\<lambda>k d. pad_to 32 (d @ k)),
     blake2s_mac = (\<lambda>n k d. pad_to n (k @ d)),
     aead_seal = sample_seal, aead_open = sample_open,
     xaead_seal = sample_seal, xaead_open = sample_open,
     x25519_dh = (\<lambda>s p. map2 (+) (pad_to 32 s) (pad_to 32 p)),
     x25519_public = pad_to 32 \<rparr>"

section \<open>Facts\<close>

lemma length_pad_to [simp, len_simps]: "length (pad_to n bs) = n"
  by (simp add: pad_to_def)

lemma pad_to_idem [simp]: "pad_to n (pad_to n bs) = pad_to n bs"
  by (simp add: pad_to_def)

lemma sample_open_seal [simp]: "sample_open k n a (sample_seal k n a p) = Some p"
  by (simp add: sample_open_def sample_seal_def)

lemma sample_aead_correct: "aead_correct sample_crypto"
  by (simp add: aead_correct_def sample_crypto_def) (simp add: sample_seal_def)

lemma sample_xaead_correct: "xaead_correct sample_crypto"
  by (simp add: xaead_correct_def sample_crypto_def) (simp add: sample_seal_def)

lemma sample_aead_authentic: "aead_authentic sample_crypto"
  by (simp add: aead_authentic_def sample_crypto_def sample_open_def sample_seal_def)
     (metis append_take_drop_id)

lemma sample_dh_agrees: "dh_agrees sample_crypto"
proof -
  have "map2 (+) xs ys = map2 (+) ys (xs :: u8 list)" for xs ys
    by (subst zip_commute) (simp add: add.commute case_prod_unfold)
  then show ?thesis by (simp add: dh_agrees_def sample_crypto_def)
qed

lemma sample_sizes_ok: "sizes_ok sample_crypto"
  by (simp add: sizes_ok_def sample_crypto_def)

lemmas sample_crypto_laws =
  sample_aead_correct sample_xaead_correct sample_aead_authentic sample_dh_agrees sample_sizes_ok

lemma length_counter_nonce [simp, len_simps]: "length (counter_nonce c) = 12"
  by (simp add: counter_nonce_def)

lemma counter_nonce_inject: "counter_nonce a = counter_nonce b \<longleftrightarrow> a = b"
  by (simp add: counter_nonce_def le64.enc_inject)

lemma aead_chacha20_open_seal:
  "aead_correct C \<Longrightarrow> aead_chacha20_open C k n (aead_chacha20_seal C k n d a) a = Ok d"
  by (simp add: aead_correct_def aead_chacha20_open_def aead_chacha20_seal_def)

lemma length_aead_chacha20_seal [len_simps]:
  "aead_correct C \<Longrightarrow> length (aead_chacha20_seal C k n d a) = length d + 16"
  by (simp add: aead_correct_def aead_chacha20_seal_def)

lemma sizes_okD [len_simps]:
  assumes "sizes_ok C"
  shows "length (b2s_hash C d1 d2) = 32" "length (b2s_hmac C k d1) = 32"
    "length (b2s_hmac2 C k d1 d2) = 32" "length (b2s_keyed_mac_16 C k d1) = 16"
    "length (b2s_keyed_mac_16_2 C k d1 d2) = 16" "length (b2s_mac_24 C k d1) = 24"
    "length (x25519_public C s) = 32" "length (x25519_dh C s p) = 32"
  using assms
  by (simp_all add: sizes_ok_def b2s_hash_def b2s_hmac_def b2s_hmac2_def b2s_keyed_mac_16_def
      b2s_keyed_mac_16_2_def b2s_mac_24_def)

end
