(* ===== verification/Session.thy ===== *)
theory Session
  imports Crypto
begin

text \<open>
  A transport session (\<open>noise/session.rs\<close>): the sliding-window replay filter over received
  counters (\<open>ReceivingKeyCounterValidator\<close>), the sending nonce, and the sealing and opening
  of data frames.

  The bitmap of 128 words of 64 bits is kept as the code keeps it, with its three clearing
  loops at word width. The lemmas relate it to the set of counters accepted so far: a counter
  is accepted exactly when it is below \<open>REJECT_AFTER_MESSAGES\<close>, not behind the 8192-counter
  window, and not accepted before. From this follow the properties of whole runs: no counter
  is accepted twice and no nonce is used twice.
\<close>

unbundle bit_operations_syntax

section \<open>Constants\<close>

definition DATA_OFFSET :: nat where "DATA_OFFSET = 16"
definition AEAD_SIZE :: nat where "AEAD_SIZE = 16"
definition WORD_SIZE :: u64 where "WORD_SIZE = 64"
definition N_WORDS :: u64 where "N_WORDS = 128"
definition N_BITS :: u64 where "N_BITS = WORD_SIZE * N_WORDS"
definition REJECT_AFTER_MESSAGES :: u64 where "REJECT_AFTER_MESSAGES = (- 1) - push_bit 13 1"

section \<open>The replay window\<close>

record validator =
  rk_next :: u64
  rk_receive_cnt :: u64
  rk_bitmap :: "u64 list"

definition validator_default :: validator where
  "validator_default = \<lparr> rk_next = 0, rk_receive_cnt = 0, rk_bitmap = replicate (unat N_WORDS) 0 \<rparr>"

definition rk_set_bit :: "validator \<Rightarrow> u64 \<Rightarrow> validator" where
  "rk_set_bit v idx =
     (let bit_idx = idx mod N_BITS; word = unat (bit_idx div WORD_SIZE); bt = unat (bit_idx mod WORD_SIZE)
      in v\<lparr> rk_bitmap := (rk_bitmap v)[word := (rk_bitmap v ! word) OR push_bit bt 1] \<rparr>)"

definition rk_clear_bit :: "validator \<Rightarrow> u64 \<Rightarrow> validator" where
  "rk_clear_bit v idx =
     (let bit_idx = idx mod N_BITS; word = unat (bit_idx div WORD_SIZE); bt = unat (bit_idx mod WORD_SIZE)
      in v\<lparr> rk_bitmap := (rk_bitmap v)[word := (rk_bitmap v ! word) AND NOT (push_bit bt 1)] \<rparr>)"

definition rk_clear_word :: "validator \<Rightarrow> u64 \<Rightarrow> validator" where
  "rk_clear_word v idx =
     (let bit_idx = idx mod N_BITS; word = unat (bit_idx div WORD_SIZE)
      in v\<lparr> rk_bitmap := (rk_bitmap v)[word := 0] \<rparr>)"

definition rk_check_bit :: "validator \<Rightarrow> u64 \<Rightarrow> bool" where
  "rk_check_bit v idx =
     (let bit_idx = idx mod N_BITS; word = unat (bit_idx div WORD_SIZE); bt = unat (bit_idx mod WORD_SIZE)
      in drop_bit bt (rk_bitmap v ! word) AND 1 = 1)"

definition will_accept :: "validator \<Rightarrow> u64 \<Rightarrow> wg_error + unit" where
  "will_accept v counter =
     (if counter \<ge> REJECT_AFTER_MESSAGES then Err InvalidCounter
      else if counter \<ge> rk_next v then Ok ()
      else if counter + N_BITS < rk_next v then Err InvalidCounter
      else if \<not> rk_check_bit v counter then Ok ()
      else Err DuplicateCounter)"

text \<open>The three loops that clear the bits of skipped counters; the state is the loop index
  with the validator.\<close>

definition clear_to_alignment :: "u64 \<Rightarrow> u64 \<times> validator \<Rightarrow> (u64 \<times> validator) option" where
  "clear_to_alignment counter =
     while_option (\<lambda>(i, v). i mod WORD_SIZE \<noteq> 0 \<and> i < counter)
       (\<lambda>(i, v). (i + 1, rk_clear_bit v i))"

definition clear_whole_words :: "u64 \<Rightarrow> u64 \<times> validator \<Rightarrow> (u64 \<times> validator) option" where
  "clear_whole_words counter =
     while_option (\<lambda>(i, v). i + WORD_SIZE < counter)
       (\<lambda>(i, v). ((i + WORD_SIZE) AND (0 - WORD_SIZE), rk_clear_word v i))"

definition clear_remaining :: "u64 \<Rightarrow> u64 \<times> validator \<Rightarrow> (u64 \<times> validator) option" where
  "clear_remaining counter =
     while_option (\<lambda>(i, v). i < counter) (\<lambda>(i, v). (i + 1, rk_clear_bit v i))"

definition clear_skipped :: "u64 \<Rightarrow> validator \<Rightarrow> validator" where
  "clear_skipped counter v =
     (if counter - rk_next v \<ge> N_BITS
      then v\<lparr> rk_bitmap := map (\<lambda>_. 0) (rk_bitmap v) \<rparr>
      else snd (the (clear_remaining counter
                 (the (clear_whole_words counter
                   (the (clear_to_alignment counter (rk_next v, v))))))))"

definition mark_did_receive :: "validator \<Rightarrow> u64 \<Rightarrow> (wg_error + unit) \<times> validator" where
  "mark_did_receive v counter =
     (if counter \<ge> REJECT_AFTER_MESSAGES then (Err InvalidCounter, v)
      else if counter + N_BITS < rk_next v then (Err InvalidCounter, v)
      else if counter = rk_next v then
        (Ok (), (rk_set_bit v counter)\<lparr> rk_next := rk_next v + 1 \<rparr>)
      else if counter < rk_next v then
        (if rk_check_bit v counter then (Err InvalidCounter, v)
         else (Ok (), rk_set_bit v counter))
      else (Ok (), (rk_set_bit (clear_skipped counter v) counter)\<lparr> rk_next := counter + 1 \<rparr>))"

section \<open>Sessions\<close>

record session =
  receiving_index :: u32
  sending_index :: u32
  receiver_key :: bytes
  sender_key :: bytes
  sending_key_counter :: u64
  receiving_key_counter :: validator

definition session_new :: "u32 \<Rightarrow> u32 \<Rightarrow> bytes \<Rightarrow> bytes \<Rightarrow> session" where
  "session_new local_index peer_index receiving_key sending_key = \<lparr>
     receiving_index = local_index, sending_index = peer_index,
     receiver_key = receiving_key, sender_key = sending_key,
     sending_key_counter = 0, receiving_key_counter = validator_default \<rparr>"

definition session_local_index :: "session \<Rightarrow> nat" where
  "session_local_index s = unat (receiving_index s)"

definition sending_exhausted :: "session \<Rightarrow> bool" where
  "sending_exhausted s \<longleftrightarrow> sending_key_counter s \<ge> REJECT_AFTER_MESSAGES"

text \<open>\<open>fetch_update\<close> returns the previous value, and leaves the counter when refused.\<close>

definition claim_sending_nonce :: "session \<Rightarrow> u64 option \<times> session" where
  "claim_sending_nonce s =
     (let counter = sending_key_counter s in
      if counter < REJECT_AFTER_MESSAGES
      then (Some counter, s\<lparr> sending_key_counter := counter + 1 \<rparr>)
      else (None, s))"

definition receiving_counter_quick_check :: "session \<Rightarrow> u64 \<Rightarrow> wg_error + unit" where
  "receiving_counter_quick_check s counter = will_accept (receiving_key_counter s) counter"

definition receiving_counter_mark :: "session \<Rightarrow> u64 \<Rightarrow> (wg_error + unit) \<times> session" where
  "receiving_counter_mark s counter =
     (let (ret, v) = mark_did_receive (receiving_key_counter s) counter;
          v' = (if is_ok ret then v\<lparr> rk_receive_cnt := rk_receive_cnt v + 1 \<rparr> else v)
      in (ret, s\<lparr> receiving_key_counter := v' \<rparr>))"

definition format_packet_data ::
  "crypto \<Rightarrow> 'g rng \<Rightarrow> obfuscation_ranges \<Rightarrow> 'g \<Rightarrow> session \<Rightarrow> bytes \<Rightarrow> nat \<Rightarrow> nat
    \<Rightarrow> (wg_error + bytes) \<times> session \<times> 'g" where
  "format_packet_data C R obf g s src pad dst_len =
     (if dst_len < length src + pad + DATA_OVERHEAD_SZ then (Err DestinationBufferTooSmall, s, g)
      else case claim_sending_nonce s of
        (None, s') \<Rightarrow> (Err ConnectionExpired, s', g)
      | (Some counter, s') \<Rightarrow>
          let (tag, g') = random_h4 R obf g;
              sealed = aead_seal C (sender_key s) (counter_nonce counter) [] (src @ replicate pad 0)
          in (Ok (u32_to_le tag @ u32_to_le (sending_index s) @ u64_to_le counter @ sealed), s', g'))"

definition receive_packet_data ::
  "crypto \<Rightarrow> session \<Rightarrow> packet_data \<Rightarrow> nat \<Rightarrow> (wg_error + bytes) \<times> session" where
  "receive_packet_data C s packet dst_len =
     (let ct = pd_encrypted_encapsulated_packet packet in
      if dst_len < length ct then (Err DestinationBufferTooSmall, s)
      else if pd_receiver_idx packet \<noteq> receiving_index s then (Err WrongIndex, s)
      else case receiving_counter_quick_check s (pd_counter packet) of
        Inl e \<Rightarrow> (Err e, s)
      | Inr _ \<Rightarrow>
          (case aead_open C (receiver_key s) (counter_nonce (pd_counter packet)) [] ct of
             None \<Rightarrow> (Err InvalidAeadTag, s)
           | Some ret \<Rightarrow>
               (case receiving_counter_mark s (pd_counter packet) of
                  (Inl e, s') \<Rightarrow> (Err e, s')
                | (Inr _, s') \<Rightarrow> (Ok ret, s'))))"

definition current_packet_cnt :: "session \<Rightarrow> u64 \<times> u64" where
  "current_packet_cnt s =
     (rk_next (receiving_key_counter s), rk_receive_cnt (receiving_key_counter s))"

section \<open>The bitmap as a set of positions\<close>

lemmas window_consts = WORD_SIZE_def N_WORDS_def N_BITS_def

lemma unat_N_BITS [simp]: "unat N_BITS = 8192"
  by (simp add: window_consts)

lemma unat_WORD_SIZE [simp]: "unat WORD_SIZE = 64"
  by (simp add: window_consts)

lemma unat_REJECT: "unat REJECT_AFTER_MESSAGES = 2 ^ 64 - 8193"
  by (simp add: REJECT_AFTER_MESSAGES_def)

definition rk_bit :: "validator \<Rightarrow> nat \<Rightarrow> bool" where
  "rk_bit v k \<longleftrightarrow> bit (rk_bitmap v ! (k mod 8192 div 64)) (k mod 64)"

definition bitmap_ok :: "validator \<Rightarrow> bool" where
  "bitmap_ok v \<longleftrightarrow> length (rk_bitmap v) = 128"

lemma pos_word: "unat (idx mod N_BITS div WORD_SIZE) = unat idx mod 8192 div 64"
  by (simp add: unat_div_distrib unat_mod_distrib)

lemma pos_bit: "unat (idx mod N_BITS mod WORD_SIZE) = unat idx mod 64"
proof -
  have "unat idx mod 8192 mod 64 = unat idx mod 64" by (simp add: mod_mod_cancel)
  then show ?thesis by (simp add: unat_mod_distrib)
qed

lemma pos_word_less: "k mod 8192 div 64 < (128::nat)"
  by (simp add: div_less_iff_less_mult)

lemma pos_eq_iff: "k mod 8192 div 64 = j mod 8192 div 64 \<and> k mod 64 = j mod 64 \<longleftrightarrow> k mod 8192 = (j mod 8192 :: nat)"
proof
  assume eq: "k mod 8192 div 64 = j mod 8192 div 64 \<and> k mod 64 = j mod 64"
  have m: "x mod 8192 mod 64 = x mod 64" for x :: nat by (simp add: mod_mod_cancel)
  have "k mod 8192 = 64 * (k mod 8192 div 64) + k mod 8192 mod 64" by simp
  also have "\<dots> = 64 * (j mod 8192 div 64) + j mod 8192 mod 64" using eq m by simp
  also have "\<dots> = j mod 8192" by simp
  finally show "k mod 8192 = j mod 8192" .
next
  assume eq: "k mod 8192 = j mod 8192"
  have "x mod 8192 mod 64 = x mod 64" for x :: nat by (simp add: mod_mod_cancel)
  with eq show "k mod 8192 div 64 = j mod 8192 div 64 \<and> k mod 64 = j mod 64" by metis
qed

lemma rk_check_bit_iff: "rk_check_bit v idx \<longleftrightarrow> rk_bit v (unat idx)"
  unfolding rk_check_bit_def rk_bit_def Let_def pos_word pos_bit bit_iff_odd_drop_bit and_one_eq
  by (simp only: odd_iff_mod_2_eq_one)

lemma rk_set_bit_frame [simp]:
  "rk_next (rk_set_bit v i) = rk_next v" "rk_receive_cnt (rk_set_bit v i) = rk_receive_cnt v"
  "bitmap_ok (rk_set_bit v i) = bitmap_ok v"
  by (simp_all add: rk_set_bit_def Let_def bitmap_ok_def)

lemma rk_clear_bit_frame [simp]:
  "rk_next (rk_clear_bit v i) = rk_next v" "rk_receive_cnt (rk_clear_bit v i) = rk_receive_cnt v"
  "bitmap_ok (rk_clear_bit v i) = bitmap_ok v"
  by (simp_all add: rk_clear_bit_def Let_def bitmap_ok_def)

lemma rk_clear_word_frame [simp]:
  "rk_next (rk_clear_word v i) = rk_next v" "rk_receive_cnt (rk_clear_word v i) = rk_receive_cnt v"
  "bitmap_ok (rk_clear_word v i) = bitmap_ok v"
  by (simp_all add: rk_clear_word_def Let_def bitmap_ok_def)

lemma bit_one_shifted: "n < 64 \<Longrightarrow> bit (2 ^ m :: u64) n \<longleftrightarrow> m = n"
  by (auto simp: bit_simps)

lemma rk_bit_set:
  assumes "bitmap_ok v"
  shows "rk_bit (rk_set_bit v i) k \<longleftrightarrow> k mod 8192 = unat i mod 8192 \<or> rk_bit v k"
proof -
  have "k mod 8192 div 64 < 128" by (rule pos_word_less)
  with assms have "rk_bit (rk_set_bit v i) k \<longleftrightarrow> (k mod 8192 div 64 = unat i mod 8192 div 64 \<and> k mod 64 = unat i mod 64) \<or> rk_bit v k"
    unfolding rk_bit_def rk_set_bit_def Let_def pos_word pos_bit bitmap_ok_def
    by (auto simp add: nth_list_update bit_or_iff bit_one_shifted)
  then show ?thesis unfolding pos_eq_iff .
qed

lemma rk_bit_clear:
  assumes "bitmap_ok v"
  shows "rk_bit (rk_clear_bit v i) k \<longleftrightarrow> k mod 8192 \<noteq> unat i mod 8192 \<and> rk_bit v k"
proof -
  have "k mod 8192 div 64 < 128" by (rule pos_word_less)
  with assms have "rk_bit (rk_clear_bit v i) k \<longleftrightarrow> \<not> (k mod 8192 div 64 = unat i mod 8192 div 64 \<and> k mod 64 = unat i mod 64) \<and> rk_bit v k"
    unfolding rk_bit_def rk_clear_bit_def Let_def pos_word pos_bit bitmap_ok_def
    by (auto simp add: nth_list_update bit_and_iff bit_not_iff bit_one_shifted)
  then show ?thesis unfolding pos_eq_iff .
qed

lemma rk_bit_clear_word:
  assumes "bitmap_ok v"
  shows "rk_bit (rk_clear_word v i) k \<longleftrightarrow>
    k mod 8192 div 64 \<noteq> unat i mod 8192 div 64 \<and> rk_bit v k"
proof -
  have "k mod 8192 div 64 < 128" by (rule pos_word_less)
  with assms show ?thesis
    unfolding rk_bit_def rk_clear_word_def Let_def pos_word bitmap_ok_def
    by (auto simp add: nth_list_update)
qed

section \<open>The clearing loops\<close>

text \<open>
  \<open>erased v w a b\<close>: \<open>w\<close> is \<open>v\<close> with the positions of the counters \<open>a..<b\<close> cleared.
\<close>

definition erased :: "validator \<Rightarrow> validator \<Rightarrow> nat \<Rightarrow> nat \<Rightarrow> bool" where
  "erased v w a b \<longleftrightarrow> bitmap_ok w \<and> rk_next w = rk_next v \<and> rk_receive_cnt w = rk_receive_cnt v \<and>
     (\<forall>k. rk_bit w k \<longleftrightarrow> rk_bit v k \<and> \<not> (\<exists>j. a \<le> j \<and> j < b \<and> j mod 8192 = k mod 8192))"

lemma erased_refl: "bitmap_ok v \<Longrightarrow> erased v v a a"
  by (simp add: erased_def)

lemma erased_trans: "erased v w a b \<Longrightarrow> erased w x b c \<Longrightarrow> a \<le> b \<Longrightarrow> b \<le> c \<Longrightarrow> erased v x a c"
  unfolding erased_def by (auto intro: order_trans less_le_trans)

lemma erased_clear_bit: "bitmap_ok v \<Longrightarrow> erased v (rk_clear_bit v i) (unat i) (Suc (unat i))"
proof -
  have "(\<exists>j. unat i \<le> j \<and> j < Suc (unat i) \<and> j mod 8192 = k mod 8192) \<longleftrightarrow> unat i mod 8192 = k mod 8192" for k
    by (metis le_antisym lessI less_Suc_eq_le order_refl)
  moreover assume "bitmap_ok v"
  ultimately show ?thesis unfolding erased_def by (simp add: rk_bit_clear) metis
qed

lemma erased_clear_word:
  assumes "bitmap_ok v" "unat i mod 64 = 0"
  shows "erased v (rk_clear_word v i) (unat i) (unat i + 64)"
proof -
  have "k mod 8192 div 64 = unat i mod 8192 div 64 \<longleftrightarrow>
        (\<exists>j. unat i \<le> j \<and> j < unat i + 64 \<and> j mod 8192 = k mod 8192)" for k
  proof -
    obtain q where q: "unat i = 64 * q" using assms(2) by auto
    have d: "(64 * q + r) mod 8192 div 64 = q mod 128" if "r < 64" for r
    proof -
      have "(64 * q + r) mod 8192 = 64 * (q mod 128) + r"
        using that mod_mult2_eq [of "64 * q + r" 64 128] by simp
      with that show ?thesis by simp
    qed
    show ?thesis
    proof
      assume k: "k mod 8192 div 64 = unat i mod 8192 div 64"
      have "(unat i + k mod 64) mod 8192 div 64 = unat i mod 8192 div 64"
        using d [of "k mod 64"] d [of 0] by (simp add: q)
      moreover have low: "(unat i + k mod 64) mod 64 = k mod 64"
        by (simp add: q)
      ultimately have "(unat i + k mod 64) mod 8192 = k mod 8192"
        using k low by (subst pos_eq_iff [symmetric]) simp
      then show "\<exists>j. unat i \<le> j \<and> j < unat i + 64 \<and> j mod 8192 = k mod 8192"
        by (intro exI [of _ "unat i + k mod 64"]) simp
    next
      assume "\<exists>j. unat i \<le> j \<and> j < unat i + 64 \<and> j mod 8192 = k mod 8192"
      then obtain j where j: "unat i \<le> j" "j < unat i + 64" "j mod 8192 = k mod 8192" by blast
      then show "k mod 8192 div 64 = unat i mod 8192 div 64"
        using d [of "j - unat i"] d [of 0] by (simp add: q)
    qed
  qed
  with assms(1) show ?thesis unfolding erased_def by (simp add: rk_bit_clear_word) metis
qed

lemma unat_Suc: "i < (c :: u64) \<Longrightarrow> unat (i + 1) = Suc (unat i)"
  using unat_bound [of c] by (subst unat_add_nowrap) (simp_all add: word_less_nat_alt)

lemma clear_remaining_erases:
  assumes "bitmap_ok v" "i \<le> c"
  shows "\<exists>w. clear_remaining c (i, v) = Some (c, w) \<and> erased v w (unat i) (unat c)"
  using assms
proof (induction "unat c - unat i" arbitrary: i v)
  case 0
  then have "i = c" by (simp add: word_le_nat_alt word_unat_eq_iff)
  with 0 show ?case
    unfolding clear_remaining_def by (subst while_option_unfold) (simp add: erased_refl)
next
  case (Suc n)
  then have less: "i < c" by (simp add: word_less_nat_alt)
  have "n = unat c - unat (i + 1)" using Suc(2) by (simp add: unat_Suc [OF less])
  moreover have "i + 1 \<le> c" using less by (simp add: word_le_nat_alt unat_Suc word_less_nat_alt)
  ultimately obtain w where w: "clear_remaining c (i + 1, rk_clear_bit v i) = Some (c, w)"
    "erased (rk_clear_bit v i) w (Suc (unat i)) (unat c)"
    using Suc(1) [of "i + 1" "rk_clear_bit v i"] Suc(3) unat_Suc [OF less] by auto
  have "erased v w (unat i) (unat c)"
    using erased_trans [OF erased_clear_bit [OF Suc(3)] w(2)] less by (simp add: word_less_nat_alt)
  with w(1) less show ?case
    unfolding clear_remaining_def by (subst while_option_unfold) simp
qed

lemma clear_to_alignment_erases:
  assumes "bitmap_ok v" "i \<le> c"
  shows "\<exists>m w. clear_to_alignment c (i, v) = Some (m, w) \<and> i \<le> m \<and> m \<le> c \<and>
    (unat m mod 64 = 0 \<or> m = c) \<and> erased v w (unat i) (unat m)"
  using assms
proof (induction "unat c - unat i" arbitrary: i v)
  case 0
  then have "i = c" by (simp add: word_le_nat_alt word_unat_eq_iff)
  with 0 show ?case
    unfolding clear_to_alignment_def by (subst while_option_unfold) (simp add: erased_refl)
next
  case (Suc n)
  then have less: "i < c" by (simp add: word_less_nat_alt)
  show ?case
  proof (cases "i mod WORD_SIZE = 0")
    case True
    then have "unat (i mod WORD_SIZE) = 0" by simp
    then have "unat i mod 64 = 0" by (simp add: unat_mod_distrib)
    with True Suc(3,4) show ?thesis
      unfolding clear_to_alignment_def by (subst while_option_unfold) (simp add: erased_refl)
  next
    case False
    have "n = unat c - unat (i + 1)" using Suc(2) by (simp add: unat_Suc [OF less])
    moreover have le: "i + 1 \<le> c" "i \<le> i + 1"
      using less by (simp_all add: word_le_nat_alt unat_Suc word_less_nat_alt)
    ultimately obtain m w where w: "clear_to_alignment c (i + 1, rk_clear_bit v i) = Some (m, w)"
      "i + 1 \<le> m" "m \<le> c" "unat m mod 64 = 0 \<or> m = c"
      "erased (rk_clear_bit v i) w (Suc (unat i)) (unat m)"
      using Suc(1) [of "i + 1" "rk_clear_bit v i"] Suc(3) unat_Suc [OF less] by auto
    have "Suc (unat i) \<le> unat m" using w(2) by (simp add: word_le_nat_alt unat_Suc [OF less])
    then have "erased v w (unat i) (unat m)"
      using erased_trans [OF erased_clear_bit [OF Suc(3)] w(5)] by simp
    with w le less False show ?thesis
      unfolding clear_to_alignment_def by (subst while_option_unfold) (auto intro: order_trans)
  qed
qed

lemma and_word_mask:
  assumes "unat (x :: u64) mod 64 = 0"
  shows "x AND - WORD_SIZE = x"
proof -
  have "take_bit 6 x = 0"
    using assms by (simp add: take_bit_eq_mod word_unat_eq_iff unat_mod_distrib)
  then have "\<not> bit x n" if "n < 6" for n
    using that by (metis bit_0_eq bit_take_bit_iff bot_apply bot_bool_def)
  moreover have "- WORD_SIZE = NOT (mask 6)"
    by (simp add: WORD_SIZE_def mask_eq_exp_minus_1 not_eq_complement)
  ultimately show ?thesis
    by (intro bit_word_eqI) (auto simp: bit_and_iff bit_not_iff bit_mask_iff)
qed

lemma clear_whole_words_erases:
  assumes "bitmap_ok v" "i \<le> c" "unat c + 64 < 2 ^ 64" "unat i mod 64 = 0 \<or> i = c"
  shows "\<exists>m w. clear_whole_words c (i, v) = Some (m, w) \<and> i \<le> m \<and> m \<le> c \<and>
    erased v w (unat i) (unat m)"
  using assms(1,2,4)
proof (induction "unat c - unat i" arbitrary: i v rule: less_induct)
  case less
  have nw: "unat (i + WORD_SIZE) = unat i + 64"
    using assms(3) less(3) by (subst unat_add_nowrap) (simp_all add: word_le_nat_alt)
  show ?case
  proof (cases "i + WORD_SIZE < c")
    case False
    with less(2,3) show ?thesis
      unfolding clear_whole_words_def by (subst while_option_unfold) (simp add: erased_refl)
  next
    case True
    then have lt: "unat i + 64 < unat c" by (simp add: word_less_nat_alt nw)
    then have al: "unat i mod 64 = 0" using less(4) by auto
    have step: "(i + WORD_SIZE) AND - WORD_SIZE = i + WORD_SIZE"
      using al by (intro and_word_mask) (simp add: nw)
    have "unat c - unat (i + WORD_SIZE) < unat c - unat i" using lt nw by simp
    moreover have "i + WORD_SIZE \<le> c" "i \<le> i + WORD_SIZE" using lt nw by (simp_all add: word_le_nat_alt)
    ultimately obtain m w where
      w: "clear_whole_words c (i + WORD_SIZE, rk_clear_word v i) = Some (m, w)"
         "i + WORD_SIZE \<le> m" "m \<le> c" "erased (rk_clear_word v i) w (unat i + 64) (unat m)"
      using less(1) [of "i + WORD_SIZE" "rk_clear_word v i"] less(2) al nw by auto
    have "unat i + 64 \<le> unat m" using w(2) by (simp add: word_le_nat_alt nw)
    then have "erased v w (unat i) (unat m)"
      using erased_trans [OF erased_clear_word [OF less(2) al] w(4)] by simp
    with w True show ?thesis
      unfolding clear_whole_words_def by (subst while_option_unfold) (auto simp: step word_le_nat_alt nw)
  qed
qed

text \<open>
  The three loops together end and clear exactly the skipped counters; so does the reset of the
  whole bitmap, as far as the next window is concerned.
\<close>

lemma clear_skipped_loops:
  assumes "bitmap_ok v" "rk_next v \<le> c" "unat c + 64 < 2 ^ 64"
  obtains m1 v1 m2 v2 v3 where
    "clear_to_alignment c (rk_next v, v) = Some (m1, v1)"
    "clear_whole_words c (m1, v1) = Some (m2, v2)"
    "clear_remaining c (m2, v2) = Some (c, v3)"
    "erased v v3 (unat (rk_next v)) (unat c)"
proof -
  from clear_to_alignment_erases [OF assms(1,2)] obtain m1 v1 where
    1: "clear_to_alignment c (rk_next v, v) = Some (m1, v1)" "rk_next v \<le> m1" "m1 \<le> c"
       "unat m1 mod 64 = 0 \<or> m1 = c" "erased v v1 (unat (rk_next v)) (unat m1)" by auto
  then have "bitmap_ok v1" by (simp add: erased_def)
  from clear_whole_words_erases [OF this 1(3) assms(3) 1(4)] obtain m2 v2 where
    2: "clear_whole_words c (m1, v1) = Some (m2, v2)" "m1 \<le> m2" "m2 \<le> c"
       "erased v1 v2 (unat m1) (unat m2)" by blast
  then have "bitmap_ok v2" by (simp add: erased_def)
  from clear_remaining_erases [OF this 2(3)] obtain v3 where
    3: "clear_remaining c (m2, v2) = Some (c, v3)" "erased v2 v3 (unat m2) (unat c)" by blast
  have "erased v v2 (unat (rk_next v)) (unat m2)"
    using erased_trans [OF 1(5) 2(4)] 1 2 by (simp add: word_le_nat_alt)
  from erased_trans [OF this 3(2)] have "erased v v3 (unat (rk_next v)) (unat c)"
    using 1 2 by (simp add: word_le_nat_alt)
  with 1 2 3 show thesis using that by blast
qed

lemma clear_skipped_near:
  assumes "bitmap_ok v" "rk_next v \<le> c" "unat c + 64 < 2 ^ 64" "\<not> N_BITS \<le> c - rk_next v"
  shows "erased v (clear_skipped c v) (unat (rk_next v)) (unat c)"
proof -
  obtain m1 v1 m2 v2 v3 where
    "clear_to_alignment c (rk_next v, v) = Some (m1, v1)" "clear_whole_words c (m1, v1) = Some (m2, v2)"
    "clear_remaining c (m2, v2) = Some (c, v3)" "erased v v3 (unat (rk_next v)) (unat c)"
    by (rule clear_skipped_loops [OF assms(1-3)])
  with assms(4) show ?thesis by (simp add: clear_skipped_def not_le [symmetric])
qed

lemma clear_skipped_far:
  assumes "bitmap_ok v" "N_BITS \<le> c - rk_next v"
  shows "bitmap_ok (clear_skipped c v) \<and> rk_next (clear_skipped c v) = rk_next v \<and>
    rk_receive_cnt (clear_skipped c v) = rk_receive_cnt v \<and> \<not> rk_bit (clear_skipped c v) k"
  using assms pos_word_less [of k] by (simp add: clear_skipped_def bitmap_ok_def rk_bit_def)

section \<open>The window refines the set of accepted counters\<close>

text \<open>
  \<open>window_of v S\<close>: the validator \<open>v\<close> represents the accepted counters \<open>S\<close>. Every accepted counter
  is below \<open>next\<close>; within the last 8192 counters the bitmap tells the accepted ones.
\<close>

definition window_of :: "validator \<Rightarrow> nat set \<Rightarrow> bool" where
  "window_of v S \<longleftrightarrow> bitmap_ok v \<and> unat (rk_next v) \<le> unat REJECT_AFTER_MESSAGES \<and>
     (\<forall>c \<in> S. c < unat (rk_next v)) \<and>
     (\<forall>c. c < unat (rk_next v) \<longrightarrow> unat (rk_next v) \<le> c + 8192 \<longrightarrow> (rk_bit v c \<longleftrightarrow> c \<in> S))"

text \<open>What the window promises: the counters it accepts after accepting \<open>S\<close>.\<close>

definition acceptable :: "nat \<Rightarrow> nat set \<Rightarrow> nat \<Rightarrow> bool" where
  "acceptable nxt S c \<longleftrightarrow> c < 2 ^ 64 - 8193 \<and> nxt \<le> c + 8192 \<and> c \<notin> S"

lemma window_of_default: "window_of validator_default {}"
  by (simp add: window_of_def validator_default_def bitmap_ok_def N_WORDS_def)

lemma window_cases:
  assumes "window_of v S" "c < REJECT_AFTER_MESSAGES"
  shows "unat (c + N_BITS) = unat c + 8192" "unat (c + 1) = unat c + 1"
    "unat (rk_next v) \<le> 2 ^ 64 - 8193" "unat c < 2 ^ 64 - 8193"
proof -
  show c: "unat c < 2 ^ 64 - 8193" using assms(2) by (simp add: word_less_nat_alt unat_REJECT)
  then show "unat (c + N_BITS) = unat c + 8192" "unat (c + 1) = unat c + 1"
    by (subst unat_add_nowrap; simp)+
  show "unat (rk_next v) \<le> 2 ^ 64 - 8193" using assms(1) by (simp add: window_of_def unat_REJECT)
qed

lemma will_accept_iff:
  assumes "window_of v S"
  shows "will_accept v c = Ok () \<longleftrightarrow> acceptable (unat (rk_next v)) S (unat c)"
proof (cases "c < REJECT_AFTER_MESSAGES")
  case True
  note w = window_cases [OF assms True]
  show ?thesis
    using True assms w
    by (auto simp: will_accept_def acceptable_def rk_check_bit_iff window_of_def word_less_nat_alt
        word_le_nat_alt not_less)
next
  case False
  then have "REJECT_AFTER_MESSAGES \<le> c" by simp
  then show ?thesis by (auto simp: will_accept_def acceptable_def word_le_nat_alt unat_REJECT)
qed

lemma same_position: "k \<le> c \<Longrightarrow> c < k + 8192 \<Longrightarrow> k mod 8192 = c mod 8192 \<Longrightarrow> k = (c :: nat)"
  by (metis le_add_diff_inverse le_neq_implies_less less_diff_conv2 add.commute mod_eq_dvd_iff_nat
      nat_dvd_not_less zero_less_diff)

lemma window_of_set_behind:
  assumes "window_of v S" "unat c < unat (rk_next v)" "unat (rk_next v) \<le> unat c + 8192"
  shows "window_of (rk_set_bit v c) (insert (unat c) S)"
proof -
  have "rk_bit (rk_set_bit v c) k \<longleftrightarrow> k \<in> insert (unat c) S"
    if k: "k < unat (rk_next v)" "unat (rk_next v) \<le> k + 8192" for k
  proof -
    have "k mod 8192 = unat c mod 8192 \<longleftrightarrow> k = unat c"
      using same_position [of k "unat c"] same_position [of "unat c" k] k assms(2,3)
      by (cases "k \<le> unat c") auto
    then show ?thesis using assms(1) k by (simp add: window_of_def rk_bit_set)
  qed
  with assms show ?thesis by (auto simp: window_of_def)
qed

lemma window_of_set_ahead:
  assumes "window_of v S" "c < REJECT_AFTER_MESSAGES" "rk_next v \<le> c"
    "bitmap_ok w" "rk_next w = c + 1"
    and bits: "\<And>k. k < unat c \<Longrightarrow> unat c < k + 8192 \<Longrightarrow> rk_bit w k \<longleftrightarrow> k \<in> S"
  shows "window_of (rk_set_bit w c) (insert (unat c) S)"
proof -
  note nw = window_cases [OF assms(1,2)]
  have le: "unat (rk_next v) \<le> unat c" using assms(3) by (simp add: word_le_nat_alt)
  have "rk_bit (rk_set_bit w c) k \<longleftrightarrow> k \<in> insert (unat c) S"
    if k: "k < unat c + 1" "unat c + 1 \<le> k + 8192" for k
  proof (cases "k = unat c")
    case True
    then show ?thesis by (simp add: rk_bit_set [OF assms(4)])
  next
    case False
    with k same_position [of k "unat c"] have "k mod 8192 \<noteq> unat c mod 8192" by auto
    with False k bits [of k] show ?thesis by (simp add: rk_bit_set [OF assms(4)])
  qed
  moreover have "\<forall>d \<in> S. d < unat c" using assms(1) le by (auto simp: window_of_def)
  ultimately show ?thesis
    using assms(4,5) nw by (auto simp: window_of_def unat_REJECT)
qed

lemma clear_skipped_bits:
  assumes "window_of v S" "c < REJECT_AFTER_MESSAGES" "rk_next v < c"
    and k: "k < unat c" "unat c < k + 8192"
  shows "rk_bit (clear_skipped c v) k \<longleftrightarrow> k \<in> S"
proof -
  have ok: "bitmap_ok v" using assms(1) by (simp add: window_of_def)
  have n: "unat (rk_next v) < unat c" using assms(3) by (simp add: word_less_nat_alt)
  have sub: "unat (c - rk_next v) = unat c - unat (rk_next v)" using assms(3) by (simp add: unat_sub)
  have out: "k \<notin> S" if "unat (rk_next v) \<le> k" using assms(1) that by (auto simp: window_of_def)
  show ?thesis
  proof (cases "N_BITS \<le> c - rk_next v")
    case True
    then have "8192 \<le> unat c - unat (rk_next v)" by (simp add: word_le_nat_alt sub)
    with k out clear_skipped_far [OF ok True, of k] show ?thesis by auto
  next
    case False
    have "unat c + 64 < 2 ^ 64" using window_cases(4) [OF assms(1,2)] by simp
    then have "erased v (clear_skipped c v) (unat (rk_next v)) (unat c)"
      using clear_skipped_near [OF ok _ _ False] assms(3) by simp
    then have e: "rk_bit (clear_skipped c v) k \<longleftrightarrow> rk_bit v k \<and>
        \<not> (\<exists>j. unat (rk_next v) \<le> j \<and> j < unat c \<and> j mod 8192 = k mod 8192)"
      by (simp add: erased_def)
    show ?thesis
    proof (cases "unat (rk_next v) \<le> k")
      case True
      with e k out show ?thesis by auto
    next
      case less: False
      have "j mod 8192 \<noteq> k mod 8192" if "unat (rk_next v) \<le> j" "j < unat c" for j
        using same_position [of k j] less that k by auto
      with e less k n assms(1) show ?thesis by (auto simp: window_of_def)
    qed
  qed
qed

lemma clear_skipped_frame:
  assumes "window_of v S" "c < REJECT_AFTER_MESSAGES" "rk_next v < c"
  shows "bitmap_ok (clear_skipped c v) \<and> rk_receive_cnt (clear_skipped c v) = rk_receive_cnt v"
proof (cases "N_BITS \<le> c - rk_next v")
  case True
  then show ?thesis using assms(1) clear_skipped_far [of v c] by (simp add: window_of_def)
next
  case False
  have "unat c + 64 < 2 ^ 64" using window_cases(4) [OF assms(1,2)] by simp
  then show ?thesis
    using clear_skipped_near [OF _ _ _ False] assms by (simp add: window_of_def erased_def)
qed

lemma mark_cases:
  assumes "window_of v S"
  shows "mark_did_receive v c = (Err InvalidCounter, v) \<and> \<not> acceptable (unat (rk_next v)) S (unat c) \<or>
    acceptable (unat (rk_next v)) S (unat c) \<and>
    (\<exists>w. mark_did_receive v c = (Ok (), w) \<and> window_of w (insert (unat c) S) \<and>
         unat (rk_next w) = max (unat (rk_next v)) (unat c + 1) \<and> rk_receive_cnt w = rk_receive_cnt v)"
proof (cases "c < REJECT_AFTER_MESSAGES \<and> unat (rk_next v) \<le> unat c + 8192")
  case False
  then show ?thesis
    using window_cases [OF assms, of c]
    by (auto simp: mark_did_receive_def acceptable_def word_less_nat_alt word_le_nat_alt unat_REJECT)
next
  case True
  note nw = window_cases [OF assms, of c]
  have guard: "\<not> c + N_BITS < rk_next v" "\<not> REJECT_AFTER_MESSAGES \<le> c"
    using True nw by (auto simp: word_less_nat_alt word_le_nat_alt)
  consider "c = rk_next v" | "c < rk_next v" | "rk_next v < c" by fastforce
  then show ?thesis
  proof cases
    case 1
    have "window_of (rk_set_bit (v\<lparr>rk_next := c + 1\<rparr>) c) (insert (unat c) S)"
      using True 1 assms
      by (intro window_of_set_ahead [OF assms]) (auto simp: bitmap_ok_def window_of_def rk_bit_def)
    moreover have "rk_set_bit (v\<lparr>rk_next := c + 1\<rparr>) c = (rk_set_bit v c)\<lparr>rk_next := c + 1\<rparr>"
      by (simp add: rk_set_bit_def Let_def)
    moreover have "unat c \<notin> S" using 1 assms by (auto simp: window_of_def)
    ultimately show ?thesis
      using 1 True guard nw by (auto simp: mark_did_receive_def acceptable_def)
  next
    case 2
    then have c: "unat c < unat (rk_next v)" by (simp add: word_less_nat_alt)
    then have "rk_check_bit v c \<longleftrightarrow> unat c \<in> S"
      using assms True by (auto simp: window_of_def rk_check_bit_iff)
    then show ?thesis
      using 2 c True guard nw window_of_set_behind [OF assms c]
      by (auto simp: mark_did_receive_def acceptable_def)
  next
    case 3
    let ?w = "(clear_skipped c v)\<lparr>rk_next := c + 1\<rparr>"
    have "window_of (rk_set_bit ?w c) (insert (unat c) S)"
      using True 3 clear_skipped_frame [OF assms _ 3] clear_skipped_bits [OF assms _ 3]
      by (intro window_of_set_ahead [OF assms]) (auto simp: bitmap_ok_def rk_bit_def)
    moreover have "rk_set_bit ?w c = (rk_set_bit (clear_skipped c v) c)\<lparr>rk_next := c + 1\<rparr>"
      by (simp add: rk_set_bit_def Let_def)
    moreover have "unat c \<notin> S" using 3 assms by (auto simp: window_of_def word_less_nat_alt)
    ultimately show ?thesis
      using 3 True guard nw clear_skipped_frame [OF assms _ 3]
      by (auto simp: mark_did_receive_def acceptable_def word_less_nat_alt)
  qed
qed

section \<open>Whole runs of the window\<close>

text \<open>
  The reference filter keeps the set of accepted counters and nothing else. The two runs below
  give the verdict of each counter of a sequence.
\<close>

definition next_of :: "nat set \<Rightarrow> nat" where
  "next_of S = (if S = {} then 0 else Suc (Max S))"

fun reference_verdicts :: "nat set \<Rightarrow> u64 list \<Rightarrow> bool list" where
  "reference_verdicts S [] = []"
| "reference_verdicts S (c # cs) =
     (if acceptable (next_of S) S (unat c)
      then True # reference_verdicts (insert (unat c) S) cs
      else False # reference_verdicts S cs)"

fun window_verdicts :: "validator \<Rightarrow> u64 list \<Rightarrow> bool list" where
  "window_verdicts v [] = []"
| "window_verdicts v (c # cs) =
     (case mark_did_receive v c of (r, w) \<Rightarrow> is_ok r # window_verdicts w cs)"

lemma next_of_insert: "finite S \<Longrightarrow> next_of (insert c S) = max (next_of S) (Suc c)"
  by (cases "S = {}") (simp_all add: next_of_def)

lemma window_verdicts_refine:
  assumes "window_of v S" "finite S" "unat (rk_next v) = next_of S"
  shows "window_verdicts v cs = reference_verdicts S cs"
  using assms
proof (induction cs arbitrary: v S)
  case (Cons c cs)
  from mark_cases [OF Cons.prems(1), of c] show ?case
  proof (elim disjE conjE exE)
    assume "mark_did_receive v c = (Err InvalidCounter, v)"
      "\<not> acceptable (unat (rk_next v)) S (unat c)"
    with Cons show ?case by simp
  next
    fix w
    assume "mark_did_receive v c = (Ok (), w)" "acceptable (unat (rk_next v)) S (unat c)"
      "window_of w (insert (unat c) S)" "unat (rk_next w) = max (unat (rk_next v)) (unat c + 1)"
    with Cons show ?case by (simp add: next_of_insert)
  qed
qed simp

section \<open>Sessions accept a counter once and use a nonce once\<close>

definition session_ok :: "session \<Rightarrow> bool" where
  "session_ok s \<longleftrightarrow> (\<exists>S. window_of (receiving_key_counter s) S)"

lemma session_new_ok: "session_ok (session_new li pi rk sk)"
  using window_of_default by (auto simp: session_ok_def session_new_def)

lemma rk_receive_cnt_window [simp]: "window_of (v\<lparr>rk_receive_cnt := n\<rparr>) S = window_of v S"
  by (simp add: window_of_def bitmap_ok_def rk_bit_def)

lemma will_accept_receive_cnt [simp]: "will_accept (v\<lparr>rk_receive_cnt := n\<rparr>) c = will_accept v c"
  by (simp add: will_accept_def rk_check_bit_def)

lemma is_ok_unit: "is_ok r \<longleftrightarrow> r = Ok ()"
  by (cases r) simp_all

lemma receiving_counter_mark_cases:
  assumes "window_of (receiving_key_counter s) S"
  shows "receiving_counter_mark s c = (Err InvalidCounter, s) \<and>
      \<not> acceptable (unat (rk_next (receiving_key_counter s))) S (unat c) \<or>
    acceptable (unat (rk_next (receiving_key_counter s))) S (unat c) \<and>
    (\<exists>w. receiving_counter_mark s c = (Ok (), s\<lparr>receiving_key_counter := w\<rparr>) \<and>
       window_of w (insert (unat c) S) \<and>
       unat (rk_next w) = max (unat (rk_next (receiving_key_counter s))) (unat c + 1) \<and>
       rk_receive_cnt w = rk_receive_cnt (receiving_key_counter s) + 1)"
  using mark_cases [OF assms, of c] by (auto simp: receiving_counter_mark_def)

text \<open>The counter of a packet is delivered when the packet is, and then refused for ever.\<close>

definition delivered_counter ::
  "crypto \<Rightarrow> session \<Rightarrow> packet_data \<times> nat \<Rightarrow> u64 option \<times> session" where
  "delivered_counter C s i =
     (case receive_packet_data C s (fst i) (snd i) of
        (Inl _, s') \<Rightarrow> (None, s')
      | (Inr _, s') \<Rightarrow> (Some (pd_counter (fst i)), s'))"

definition refused_counters :: "session \<Rightarrow> u64 set" where
  "refused_counters s = {c. \<not> is_ok (will_accept (receiving_key_counter s) c)}"

lemma receive_packet_data_cases:
  assumes "window_of (receiving_key_counter s) S"
  obtains e where "receive_packet_data C s p n = (Err e, s)"
  | r w where "receive_packet_data C s p n = (Ok r, s\<lparr>receiving_key_counter := w\<rparr>)"
      "acceptable (unat (rk_next (receiving_key_counter s))) S (unat (pd_counter p))"
      "window_of w (insert (unat (pd_counter p)) S)"
      "unat (rk_next w) = max (unat (rk_next (receiving_key_counter s))) (unat (pd_counter p) + 1)"
      "rk_receive_cnt w = rk_receive_cnt (receiving_key_counter s) + 1"
      "length (pd_encrypted_encapsulated_packet p) \<le> n" "pd_receiver_idx p = receiving_index s"
      "aead_open C (receiver_key s) (counter_nonce (pd_counter p)) []
         (pd_encrypted_encapsulated_packet p) = Some r"
proof (cases "n < length (pd_encrypted_encapsulated_packet p) \<or> pd_receiver_idx p \<noteq> receiving_index s \<or>
    (\<exists>e. will_accept (receiving_key_counter s) (pd_counter p) = Err e) \<or>
    aead_open C (receiver_key s) (counter_nonce (pd_counter p)) []
         (pd_encrypted_encapsulated_packet p) = None")
  case True
  then have "\<exists>e. receive_packet_data C s p n = (Err e, s)"
    by (auto simp: receive_packet_data_def receiving_counter_quick_check_def Let_def
        split: sum.splits)
  then show thesis using that(1) by blast
next
  case False
  then obtain r where r: "aead_open C (receiver_key s) (counter_nonce (pd_counter p)) []
         (pd_encrypted_encapsulated_packet p) = Some r" by auto
  have wa: "will_accept (receiving_key_counter s) (pd_counter p) = Ok ()"
    using False by (cases "will_accept (receiving_key_counter s) (pd_counter p)") auto
  have "acceptable (unat (rk_next (receiving_key_counter s))) S (unat (pd_counter p))"
    using wa will_accept_iff [OF assms] by simp
  with receiving_counter_mark_cases [OF assms, of "pd_counter p"] False r wa show thesis
    by (auto simp: receive_packet_data_def receiving_counter_quick_check_def Let_def intro!: that(2))
qed

lemma acceptable_shrinks: "acceptable (max n m) (insert x S) d \<Longrightarrow> acceptable n S d"
  by (auto simp: acceptable_def)

interpretation replay: one_time "delivered_counter C" session_ok refused_counters for C
proof unfold_locales
  fix s i
  assume "session_ok s"
  then obtain S where S: "window_of (receiving_key_counter s) S" by (auto simp: session_ok_def)
  have ref: "refused_counters s =
      {c. \<not> acceptable (unat (rk_next (receiving_key_counter s))) S (unat c)}"
    using will_accept_iff [OF S] by (simp add: refused_counters_def is_ok_unit)
  show "session_ok (snd (delivered_counter C s i))"
    by (rule receive_packet_data_cases [OF S, of C "fst i" "snd i"])
       (use \<open>session_ok s\<close> in \<open>auto simp: delivered_counter_def session_ok_def\<close>)
  show "refused_counters s \<subseteq> refused_counters (snd (delivered_counter C s i))"
  proof (rule receive_packet_data_cases [OF S, of C "fst i" "snd i"])
    fix r w
    assume p: "receive_packet_data C s (fst i) (snd i) = (Ok r, s\<lparr>receiving_key_counter := w\<rparr>)"
      and w: "window_of w (insert (unat (pd_counter (fst i))) S)"
      "unat (rk_next w) = max (unat (rk_next (receiving_key_counter s))) (unat (pd_counter (fst i)) + 1)"
    show ?thesis
      unfolding ref using p will_accept_iff [OF w(1)] w(2)
      by (auto simp: delivered_counter_def refused_counters_def is_ok_unit
          dest: acceptable_shrinks)
  qed (simp add: delivered_counter_def)
  fix v
  assume v: "fst (delivered_counter C s i) = Some v"
  show "v \<notin> refused_counters s \<and> v \<in> refused_counters (snd (delivered_counter C s i))"
  proof (rule receive_packet_data_cases [OF S, of C "fst i" "snd i"])
    fix r w
    assume p: "receive_packet_data C s (fst i) (snd i) = (Ok r, s\<lparr>receiving_key_counter := w\<rparr>)"
      and "acceptable (unat (rk_next (receiving_key_counter s))) S (unat (pd_counter (fst i)))"
      and w: "window_of w (insert (unat (pd_counter (fst i))) S)"
    then show ?thesis
      unfolding ref using v will_accept_iff [OF w]
      by (simp add: delivered_counter_def refused_counters_def is_ok_unit acceptable_def)
  qed (use v in \<open>simp add: delivered_counter_def\<close>)
qed

text \<open>The sending side: the nonce of a formatted frame, and the nonces claimed before.\<close>

definition sent_nonce ::
  "crypto \<Rightarrow> 'g rng \<Rightarrow> obfuscation_ranges \<Rightarrow> session \<times> 'g \<Rightarrow> bytes \<times> nat \<times> nat \<Rightarrow> u64 option \<times> session \<times> 'g" where
  "sent_nonce C R obf st i =
     (case format_packet_data C R obf (snd st) (fst st) (fst i) (fst (snd i)) (snd (snd i)) of
        (Inl _, st') \<Rightarrow> (None, st')
      | (Inr frame, st') \<Rightarrow> (Some (u64_from_le (slice 8 16 frame)), st'))"

definition nonce_limit_ok :: "session \<times> 'g \<Rightarrow> bool" where
  "nonce_limit_ok st \<longleftrightarrow> sending_key_counter (fst st) \<le> REJECT_AFTER_MESSAGES"

definition claimed_nonces :: "session \<times> 'g \<Rightarrow> u64 set" where
  "claimed_nonces st = {n. n < sending_key_counter (fst st)}"

lemma claim_sending_nonce_cases:
  "sending_key_counter s < REJECT_AFTER_MESSAGES \<and>
   claim_sending_nonce s = (Some (sending_key_counter s), s\<lparr>sending_key_counter := sending_key_counter s + 1\<rparr>) \<or>
   REJECT_AFTER_MESSAGES \<le> sending_key_counter s \<and> claim_sending_nonce s = (None, s)"
  by (auto simp: claim_sending_nonce_def Let_def)

lemma format_packet_data_cases:
  obtains e where "format_packet_data C R obf g s src pad n = (Err e, s, g)"
  | tag g' where "random_h4 R obf g = (tag, g')" "sending_key_counter s < REJECT_AFTER_MESSAGES"
      "length src + pad + 32 \<le> n"
      "format_packet_data C R obf g s src pad n =
         (Ok (u32_to_le tag @ u32_to_le (sending_index s) @ u64_to_le (sending_key_counter s) @
              aead_seal C (sender_key s) (counter_nonce (sending_key_counter s)) [] (src @ replicate pad 0)),
          s\<lparr>sending_key_counter := sending_key_counter s + 1\<rparr>, g')"
proof (cases "n < length src + pad + 32 \<or> REJECT_AFTER_MESSAGES \<le> sending_key_counter s")
  case True
  then have "\<exists>e. format_packet_data C R obf g s src pad n = (Err e, s, g)"
    using claim_sending_nonce_cases [of s] by (auto simp: format_packet_data_def DATA_OVERHEAD_SZ_def)
  then show thesis using that(1) by blast
next
  case False
  then show thesis
    using claim_sending_nonce_cases [of s] that(2) [of "fst (random_h4 R obf g)" "snd (random_h4 R obf g)"]
    by (auto simp: format_packet_data_def DATA_OVERHEAD_SZ_def Let_def case_prod_beta)
qed

lemma next_nonce: "n < REJECT_AFTER_MESSAGES \<Longrightarrow> n < n + 1 \<and> n + 1 \<le> REJECT_AFTER_MESSAGES"
  using unat_Suc [of n REJECT_AFTER_MESSAGES] by (simp add: word_less_nat_alt word_le_nat_alt)

lemma sent_nonce_cases:
  obtains "sent_nonce C R obf (s, g) i = (None, (s, g))"
  | g' where "sending_key_counter s < REJECT_AFTER_MESSAGES"
      "sent_nonce C R obf (s, g) i =
         (Some (sending_key_counter s), (s\<lparr>sending_key_counter := sending_key_counter s + 1\<rparr>, g'))"
  by (rule format_packet_data_cases [of C R obf g s "fst i" "fst (snd i)" "snd (snd i)"])
     (auto simp: sent_nonce_def)

interpretation nonces: one_time "sent_nonce C R obf" nonce_limit_ok claimed_nonces for C R obf
proof unfold_locales
  fix st :: "session \<times> 'a" and i v
  obtain s g where st: "st = (s, g)" by (cases st)
  assume "nonce_limit_ok st"
  then have le: "sending_key_counter s \<le> REJECT_AFTER_MESSAGES" by (simp add: nonce_limit_ok_def st)
  show "nonce_limit_ok (snd (sent_nonce C R obf st i))"
    by (rule sent_nonce_cases [of C R obf s g i]) (simp_all add: st nonce_limit_ok_def le next_nonce)
  show "claimed_nonces st \<subseteq> claimed_nonces (snd (sent_nonce C R obf st i))"
    by (rule sent_nonce_cases [of C R obf s g i])
       (auto simp: st claimed_nonces_def intro: less_trans [OF _ conjunct1 [OF next_nonce]])
  show "v \<notin> claimed_nonces st \<and> v \<in> claimed_nonces (snd (sent_nonce C R obf st i))"
    if "fst (sent_nonce C R obf st i) = Some v"
    by (rule sent_nonce_cases [of C R obf s g i])
       (use that in \<open>simp_all add: st claimed_nonces_def next_nonce [THEN conjunct1]\<close>)
qed

lemma quick_check_iff_mark:
  assumes "session_ok s"
  shows "is_ok (receiving_counter_quick_check s c) \<longleftrightarrow> is_ok (fst (receiving_counter_mark s c))"
proof -
  from assms obtain S where S: "window_of (receiving_key_counter s) S" by (auto simp: session_ok_def)
  show ?thesis
    using receiving_counter_mark_cases [OF S, of c] will_accept_iff [OF S, of c]
    by (auto simp: receiving_counter_quick_check_def is_ok_unit)
qed

text \<open>What a formatted frame is to the other end.\<close>

lemma data_frame_arrives:
  assumes "aead_correct C" "rng_fair R" "ranges_valid obf"
    and "format_packet_data C R obf g s src pad dst = (Ok frame, s', g')"
    and "session_ok r" "receiving_index r = sending_index s" "receiver_key r = sender_key s"
    and "is_ok (receiving_counter_quick_check r (sending_key_counter s))"
    and "length src + pad + AEAD_SIZE \<le> dst'"
  shows "\<exists>p. parse_incoming_packet obf frame = Ok (PPacketData p) \<and> pd_receiver_idx p = sending_index s \<and>
    fst (receive_packet_data C r p dst') = Ok (src @ replicate pad 0)"
proof (rule format_packet_data_cases [of C R obf g s src pad dst])
  fix tag g1
  let ?ct = "aead_seal C (sender_key s) (counter_nonce (sending_key_counter s)) [] (src @ replicate pad 0)"
  let ?p = "\<lparr>pd_receiver_idx = sending_index s, pd_counter = sending_key_counter s,
             pd_encrypted_encapsulated_packet = ?ct\<rparr>"
  assume h4: "random_h4 R obf g = (tag, g1)"
    and f: "format_packet_data C R obf g s src pad dst =
         (Ok (u32_to_le tag @ u32_to_le (sending_index s) @ u64_to_le (sending_key_counter s) @ ?ct),
          s\<lparr>sending_key_counter := sending_key_counter s + 1\<rparr>, g1)"
  have "matches_h4 obf tag"
    using tag_random_contains [OF assms(2), of "h4_data obf" g] assms(3) h4
    by (simp add: matches_h4_def random_h4_def ranges_valid_def)
  moreover have ct: "length ?ct = length src + pad + 16"
    using assms(1) by (simp add: aead_correct_def)
  ultimately have "parse_incoming_packet obf frame = Ok (PPacketData ?p)"
    using f assms(3,4) by (simp add: parse_data_layout)
  moreover have "is_ok (fst (receiving_counter_mark r (sending_key_counter s)))"
    using assms(8) quick_check_iff_mark [OF assms(5)] by simp
  ultimately show ?thesis
    using assms(1,6-9) ct
    by (auto simp: receive_packet_data_def Let_def aead_correct_def AEAD_SIZE_def is_ok_unit
        split: sum.splits prod.splits)
qed (use assms(4) in simp)

section \<open>Properties\<close>

text \<open>
  C3. Refinement of the replay window. On every sequence of counters, the sliding bitmap (with
  its word-wise clearing loops and its reset on a far jump) accepts and refuses exactly the counters
  that the reference filter does, which remembers the whole set of accepted counters: a counter is
  accepted when it is below the message limit, not more than 8192 behind the next expected one,
  and not accepted before.
\<close>

theorem replay_window_refines_set:
  "window_verdicts validator_default cs = reference_verdicts {} cs"
  by (rule window_verdicts_refine [OF window_of_default])
     (simp_all add: validator_default_def next_of_def)

text \<open>
  C10. No replay. Along every sequence of data packets handed to a new session, whatever their
  bytes, no counter is delivered twice.
\<close>

theorem no_counter_delivered_twice:
  "distinct (handed_out (delivered_counter C) (session_new li pi rk sk) packets)"
  by (rule replay.handed_out_distinct [OF session_new_ok])

text \<open>
  C4. No nonce reuse. The counters written into the frames a session formats are pairwise
  different, whatever is formatted and however often a call is refused for a short buffer or an
  exhausted session.
\<close>

theorem no_nonce_used_twice:
  "distinct (handed_out (sent_nonce C R obf) (session_new li pi rk sk, g) calls)"
  by (rule nonces.handed_out_distinct) (simp add: nonce_limit_ok_def session_new_def)

text \<open>
  C30. Termination of the clearing loops. For every counter ahead of the window that the session
  may accept, each of the three loops ends, and the last one ends at the counter itself.
\<close>

theorem clearing_loops_terminate:
  assumes "window_of v S" "rk_next v < c" "c < REJECT_AFTER_MESSAGES"
  shows "\<exists>m1 v1 m2 v2 v3. clear_to_alignment c (rk_next v, v) = Some (m1, v1) \<and>
    clear_whole_words c (m1, v1) = Some (m2, v2) \<and> clear_remaining c (m2, v2) = Some (c, v3)"
proof -
  have "bitmap_ok v" "rk_next v \<le> c" "unat c + 64 < 2 ^ 64"
    using assms window_cases(4) [OF assms(1,3)] by (simp_all add: window_of_def)
  from clear_skipped_loops [OF this] show ?thesis by metis
qed

theorem clearing_loops_terminate_witness:
  "window_of validator_default {} \<and> rk_next validator_default < 200 \<and>
   (\<exists>m1 v1 m2 v2 v3. clear_to_alignment 200 (rk_next validator_default, validator_default) = Some (m1, v1) \<and>
    clear_whole_words 200 (m1, v1) = Some (m2, v2) \<and> clear_remaining 200 (m2, v2) = Some (200, v3))"
  using clearing_loops_terminate [OF window_of_default, of 200] window_of_default
  by (simp add: validator_default_def word_less_nat_alt unat_REJECT)

text \<open>
  C23. A data frame arrives. A frame formatted by one end parses as a data packet under the same
  tag ranges, and the other end, holding the same key and index and not having accepted its counter
  yet, opens it to the plaintext followed by the zero padding. This needs an AEAD whose opening
  inverts its sealing, validated tag ranges, and a generator whose draws do not stay in the upper
  half for ever.
\<close>

theorem data_frame_round_trip:
  assumes "aead_correct C" "rng_fair R" "ranges_valid obf"
    and "format_packet_data C R obf g s src pad dst = (Ok frame, s', g')"
    and "session_ok r" "receiving_index r = sending_index s" "receiver_key r = sender_key s"
    and "is_ok (receiving_counter_quick_check r (sending_key_counter s))"
    and "length src + pad + AEAD_SIZE \<le> dst'"
  shows "\<exists>p. parse_incoming_packet obf frame = Ok (PPacketData p) \<and>
    fst (receive_packet_data C r p dst') = Ok (src @ replicate pad 0)"
  using data_frame_arrives [OF assms] by blast

theorem data_frame_round_trip_witness:
  "\<exists>frame s' p. format_packet_data sample_crypto zero_rng obfuscation_default () (session_new 1 2 [] []) [9] 15 100
       = (Ok frame, s', ()) \<and>
     parse_incoming_packet obfuscation_default frame = Ok (PPacketData p) \<and>
     fst (receive_packet_data sample_crypto (session_new 2 1 [] []) p 100) = Ok ([9] @ replicate 15 0)"
proof -
  let ?f = "format_packet_data sample_crypto zero_rng obfuscation_default () (session_new 1 2 [] []) [9] 15 100"
  have "\<exists>frame s'. ?f = (Ok frame, s', ())"
    by (simp add: format_packet_data_def session_new_def claim_sending_nonce_def DATA_OVERHEAD_SZ_def
        Let_def word_less_nat_alt unat_REJECT case_prod_beta)
  then obtain frame s' where f: "?f = (Ok frame, s', ())" by blast
  have "\<exists>p. parse_incoming_packet obfuscation_default frame = Ok (PPacketData p) \<and>
      fst (receive_packet_data sample_crypto (session_new 2 1 [] []) p 100) = Ok ([9] @ replicate 15 0)"
    by (rule data_frame_round_trip [OF sample_aead_correct zero_rng_fair ranges_valid_default f session_new_ok])
       (simp_all add: session_new_def receiving_counter_quick_check_def will_accept_def
         validator_default_def AEAD_SIZE_def word_le_nat_alt unat_REJECT)
  with f show ?thesis by blast
qed

end
