(* ===== verification/Rate_Limiter.thy ===== *)
theory Rate_Limiter
  imports Handshake
begin

text \<open>
  The denial-of-service defence (\<open>noise/rate_limiter.rs\<close>): MAC1 before anything else, a budget of
  handshake messages per second in total and per source, and under load a cookie that proves the
  source address before any Noise work.

  The atomics of the limiter are fields of a record that each operation returns updated, so a run
  of the model is a sequence of calls that do not overlap. The keyed hash that picks a
  source's slots is a field of the table, the clock readings are arguments.

  The lemmas show that a source's count is never below the number of its messages in the window,
  whatever other sources do, that the aggregate admits at most \<open>limit\<close> messages between resets, that
  nothing is counted for a message without a valid MAC1, that cookies of different sources have
  different inputs, and that a cookie demanded from a peer reaches it and satisfies the gate.
\<close>

section \<open>Sources\<close>

definition COOKIE_REFRESH :: nat where "COOKIE_REFRESH = 128"
definition COOKIE_SIZE :: nat where "COOKIE_SIZE = 16"
definition COOKIE_NONCE_SIZE :: nat where "COOKIE_NONCE_SIZE = 24"
definition RESET_PERIOD :: nat where "RESET_PERIOD = 1"
definition SOURCE_SHARE :: u64 where "SOURCE_SHARE = 5"
definition SOURCE_FLOOR :: u64 where "SOURCE_FLOOR = 5"
definition SOURCE_ROWS :: nat where "SOURCE_ROWS = 2"
definition SOURCE_SLOTS :: nat where "SOURCE_SLOTS = 1024"

record socket_addr =
  sa_ip :: ip_addr
  sa_port :: u16

datatype source = SrcEndpoint socket_addr | SrcAddress ip_addr

definition source_address :: "source \<Rightarrow> ip_addr" where
  "source_address s = (case s of SrcEndpoint endpoint \<Rightarrow> sa_ip endpoint | SrcAddress address \<Rightarrow> address)"

text \<open>\<open>Ipv6Addr::to_ipv4_mapped\<close>: \<open>::ffff:a.b.c.d\<close>.\<close>

definition to_ipv4_mapped :: "bytes \<Rightarrow> bytes option" where
  "to_ipv4_mapped v6 =
     (if take 12 v6 = replicate 10 0 @ [0xff, 0xff] then Some (drop 12 v6) else None)"

definition source_ip :: "source \<Rightarrow> ip_addr" where
  "source_ip s =
     (let ip = source_address s in
      case ip of
        IpV6 v6 \<Rightarrow> (case to_ipv4_mapped v6 of None \<Rightarrow> ip | Some v4 \<Rightarrow> IpV4 v4)
      | IpV4 _ \<Rightarrow> ip)"

definition source_port :: "source \<Rightarrow> u16 option" where
  "source_port s = (case s of SrcEndpoint endpoint \<Rightarrow> Some (sa_port endpoint) | SrcAddress _ \<Rightarrow> None)"

definition cookie_input :: "source \<Rightarrow> bytes" where
  "cookie_input s =
     (let port = source_port s;
          head = (case source_ip s of
              IpV4 v4 \<Rightarrow> (if port \<noteq> None then 0x04 else 0x14) # v4
            | IpV6 v6 \<Rightarrow> (if port \<noteq> None then 0x06 else 0x16) # v6)
      in case port of Some p \<Rightarrow> head @ u16_to_be p | None \<Rightarrow> head)"

definition budget_key :: "source \<Rightarrow> u8 \<times> u64" where
  "budget_key s =
     (case source_ip s of
        IpV4 v4 \<Rightarrow> (4, of_nat (be_value v4))
      | IpV6 v6 \<Rightarrow> (6, of_nat (be_value (take 8 v6))))"

section \<open>Per-source counts\<close>

record source_counts =
  sc_hasher :: "u8 \<times> u64 \<Rightarrow> u64"
  sc_slots :: "u64 list"

definition source_counts_new :: "(u8 \<times> u64 \<Rightarrow> u64) \<Rightarrow> source_counts" where
  "source_counts_new hasher = \<lparr> sc_hasher = hasher, sc_slots = replicate (SOURCE_ROWS * SOURCE_SLOTS) 0 \<rparr>"

definition slots_of :: "source_counts \<Rightarrow> source \<Rightarrow> nat list" where
  "slots_of t s =
     (let hash = sc_hasher t (budget_key s)
      in map (\<lambda>row. row * SOURCE_SLOTS + unat (drop_bit (32 * row) hash) mod SOURCE_SLOTS) [0..<SOURCE_ROWS])"

text \<open>The closure \<open>next\<close> of \<open>bump\<close>: the window and count a slot moves to.\<close>

definition bump_next :: "u32 \<Rightarrow> u64 \<Rightarrow> u32 \<times> u32" where
  "bump_next window packed =
     (let slot_window = ucast (drop_bit 32 packed) :: u32; cnt = ucast packed :: u32 in
      if slot_window = window \<or> sint (slot_window - window) > 0
      then (slot_window, if cnt = - 1 then cnt else cnt + 1)
      else (window, 1))"

definition bump :: "u32 \<Rightarrow> u64 \<Rightarrow> u32 \<times> u64" where
  "bump window packed =
     (let (w, c) = bump_next window packed
      in (c, push_bit 32 (ucast w) OR ucast c))"

fun bump_slots :: "u32 \<Rightarrow> nat list \<Rightarrow> u64 list \<Rightarrow> u32 list \<times> u64 list" where
  "bump_slots window [] slots = ([], slots)"
| "bump_slots window (slot # rest) slots =
     (let (c, packed) = bump window (slots ! slot);
          (cs, slots') = bump_slots window rest (slots[slot := packed])
      in (c # cs, slots'))"

definition source_count :: "source \<Rightarrow> u32 \<Rightarrow> source_counts \<Rightarrow> u32 \<times> source_counts" where
  "source_count s window t =
     (let (cs, slots) = bump_slots window (slots_of t s) (sc_slots t)
      in (if cs = [] then 0 else foldr min (tl cs) (hd cs), t\<lparr> sc_slots := slots \<rparr>))"

section \<open>The limiter\<close>

record rate_limiter =
  rl_nonce_key :: bytes
  rl_secret_key :: bytes
  rl_start_time :: instant
  rl_nonce_ctr :: u64
  rl_mac1_key :: bytes
  rl_cookie_key :: bytes
  rl_limit :: u64
  rl_count :: u64
  rl_last_reset :: instant
  rl_source_limit :: u64
  rl_sources :: source_counts
  rl_proven :: source_counts

datatype load = LoadClear | LoadSourceShare | LoadAggregate

datatype cookie_defense = CookieArmed | CookieBypassed

record load_decision =
  ld_load :: "load option"
  ld_proven :: "bool option"

definition load_decision_default :: load_decision where
  "load_decision_default = \<lparr> ld_load = None, ld_proven = None \<rparr>"

record cookie_demand =
  cd_sender_idx :: u32
  cd_cookie :: bytes
  cd_mac1 :: bytes

datatype handshake_gate = GatePass | GateBadMac | GateUnderLoad | GateCookieDemanded cookie_demand

definition source_limit_of :: "u64 \<Rightarrow> u64" where
  "source_limit_of limit = max (limit div SOURCE_SHARE) (min limit SOURCE_FLOOR)"

definition rate_limiter_new ::
  "crypto \<Rightarrow> bytes \<Rightarrow> u64 \<Rightarrow> bytes \<Rightarrow> bytes \<Rightarrow> instant \<Rightarrow> instant
    \<Rightarrow> (u8 \<times> u64 \<Rightarrow> u64) \<Rightarrow> (u8 \<times> u64 \<Rightarrow> u64) \<Rightarrow> rate_limiter" where
  "rate_limiter_new C public_key limit secret nonce_key start reset hash1 hash2 = \<lparr>
     rl_nonce_key = nonce_key,
     rl_secret_key = secret,
     rl_start_time = start,
     rl_nonce_ctr = 0,
     rl_mac1_key = b2s_hash C LABEL_MAC1 public_key,
     rl_cookie_key = b2s_hash C LABEL_COOKIE public_key,
     rl_limit = limit,
     rl_count = 0,
     rl_last_reset = reset,
     rl_source_limit = source_limit_of limit,
     rl_sources = source_counts_new hash1,
     rl_proven = source_counts_new hash2 \<rparr>"

definition reset_count :: "instant \<Rightarrow> rate_limiter \<Rightarrow> rate_limiter" where
  "reset_count current_time l =
     (if as_secs (duration_since current_time (rl_last_reset l)) \<ge> RESET_PERIOD
      then l\<lparr> rl_count := 0, rl_last_reset := current_time \<rparr>
      else l)"

definition current_cookie :: "crypto \<Rightarrow> instant \<Rightarrow> rate_limiter \<Rightarrow> source \<Rightarrow> bytes" where
  "current_cookie C now l s =
     (let cur_counter = (of_nat (as_secs (duration_since now (rl_start_time l)) div COOKIE_REFRESH) :: u64)
      in b2s_keyed_mac_16_2 C (rl_secret_key l) (u64_to_le cur_counter) (cookie_input s))"

definition rl_nonce :: "crypto \<Rightarrow> rate_limiter \<Rightarrow> bytes \<times> rate_limiter" where
  "rl_nonce C l =
     (let ctr = rl_nonce_ctr l
      in (b2s_mac_24 C (rl_nonce_key l) (u64_to_le ctr), l\<lparr> rl_nonce_ctr := ctr + 1 \<rparr>))"

definition rl_window :: "instant \<Rightarrow> rate_limiter \<Rightarrow> u32" where
  "rl_window now l = of_nat (as_secs (duration_since now (rl_start_time l)))"

text \<open>\<open>count.fetch_add(1)\<close>: the previous value.\<close>

definition fetch_add_count :: "rate_limiter \<Rightarrow> u64 \<times> rate_limiter" where
  "fetch_add_count l = (rl_count l, l\<lparr> rl_count := rl_count l + 1 \<rparr>)"

definition is_under_load :: "instant \<Rightarrow> source option \<Rightarrow> rate_limiter \<Rightarrow> load \<times> rate_limiter" where
  "is_under_load now src l =
     (let aggregate = (\<lambda>l. let (previous, l) = fetch_add_count l
                           in (if previous \<ge> rl_limit l then LoadAggregate else LoadClear, l))
      in case src of
           None \<Rightarrow> aggregate l
         | Some s \<Rightarrow>
             (let (c, sources) = source_count s (rl_window now l) (rl_sources l);
                  l = l\<lparr> rl_sources := sources \<rparr>
              in if unat c > unat (rl_source_limit l) then (LoadSourceShare, l) else aggregate l))"

definition admit_proven :: "instant \<Rightarrow> load \<Rightarrow> source \<Rightarrow> rate_limiter \<Rightarrow> bool \<times> rate_limiter" where
  "admit_proven now under_load addr l =
     (let by_source = (\<lambda>l.
            let (c, proven) = source_count addr (rl_window now l) (rl_proven l)
            in (unat c \<le> unat (max (rl_source_limit l) SOURCE_FLOOR), l\<lparr> rl_proven := proven \<rparr>))
      in if under_load = LoadSourceShare then
           (let (previous, l) = fetch_add_count l
            in if previous < rl_limit l then (True, l) else by_source l)
         else by_source l)"

text \<open>The clock readings of one pass through the gate, in the order of the calls.\<close>

record gate_clock =
  gc_load :: instant
  gc_cookie :: instant
  gc_proven :: instant

definition gate_handshake ::
  "crypto \<Rightarrow> gate_clock \<Rightarrow> source option \<Rightarrow> bytes \<Rightarrow> u32 \<Rightarrow> cookie_defense \<Rightarrow> load_decision \<Rightarrow> rate_limiter
    \<Rightarrow> handshake_gate \<times> load_decision \<times> rate_limiter" where
  "gate_handshake C now src_addr message sender_idx defense ld l =
     (let msg = take (length message - 32) message;
          macs = drop (length message - 32) message;
          mac1 = take 16 macs; mac2 = drop 16 macs;
          computed_mac1 = b2s_keyed_mac_16 C (rl_mac1_key l) msg
      in if \<not> constant_time_eq computed_mac1 mac1 then (GateBadMac, ld, l)
         else if defense = CookieBypassed then (GatePass, ld, l)
         else
           let (under_load, l) = (case ld_load ld of
                  Some u \<Rightarrow> (u, l) | None \<Rightarrow> is_under_load (gc_load now) src_addr l);
               ld = ld\<lparr> ld_load := Some under_load \<rparr>
           in if under_load = LoadClear then (GatePass, ld, l)
              else case src_addr of
                None \<Rightarrow> (GateUnderLoad, ld, l)
              | Some addr \<Rightarrow>
                  let cookie = current_cookie C (gc_cookie now) l addr;
                      computed_mac2 = b2s_keyed_mac_16_2 C cookie msg mac1
                  in if \<not> constant_time_eq computed_mac2 mac2 then
                       (GateCookieDemanded \<lparr> cd_sender_idx = sender_idx, cd_cookie = cookie, cd_mac1 = mac1 \<rparr>, ld, l)
                     else
                       let (ok, l) = (case ld_proven ld of
                              Some b \<Rightarrow> (b, l) | None \<Rightarrow> admit_proven (gc_proven now) under_load addr l);
                           ld = ld\<lparr> ld_proven := Some ok \<rparr>
                       in (if ok then GatePass else GateUnderLoad, ld, l))"

definition format_cookie_reply ::
  "crypto \<Rightarrow> 'g rng \<Rightarrow> obfuscation_ranges \<Rightarrow> 'g \<Rightarrow> u32 \<Rightarrow> bytes \<Rightarrow> bytes \<Rightarrow> nat \<Rightarrow> rate_limiter
    \<Rightarrow> (wg_error + bytes) \<times> 'g \<times> rate_limiter" where
  "format_cookie_reply C R obf g idx cookie mac1 dst_len l =
     (if dst_len < COOKIE_REPLY_SZ then (Err DestinationBufferTooSmall, g, l)
      else
        let (tag, g) = random_h3 R obf g;
            (nonce, l) = rl_nonce C l;
            encrypted_cookie = xaead_seal C (rl_cookie_key l) nonce mac1 cookie
        in (Ok (u32_to_le tag @ u32_to_le idx @ nonce @ encrypted_cookie), g, l))"

definition format_cookie_demand ::
  "crypto \<Rightarrow> 'g rng \<Rightarrow> obfuscation_ranges \<Rightarrow> 'g \<Rightarrow> cookie_demand \<Rightarrow> nat \<Rightarrow> rate_limiter
    \<Rightarrow> (wg_error + bytes) \<times> 'g \<times> rate_limiter" where
  "format_cookie_demand C R obf g demand dst_len l =
     format_cookie_reply C R obf g (cd_sender_idx demand) (cd_cookie demand) (cd_mac1 demand) dst_len l"

text \<open>The answers of \<open>verify_packet\<close> other than the packet itself.\<close>

datatype verify_refusal = VerifyErr wg_error | VerifyWriteToNetwork bytes

definition verify_packet ::
  "crypto \<Rightarrow> 'g rng \<Rightarrow> gate_clock \<Rightarrow> obfuscation_ranges \<Rightarrow> 'g \<Rightarrow> ip_addr option \<Rightarrow> bytes \<Rightarrow> nat \<Rightarrow> rate_limiter
    \<Rightarrow> (verify_refusal + packet) \<times> 'g \<times> rate_limiter" where
  "verify_packet C R now obf g src_addr src dst_len l =
     (case parse_incoming_packet obf src of
        Inl e \<Rightarrow> (Err (VerifyErr e), g, l)
      | Inr packet \<Rightarrow>
          (case (case packet of PHandshakeInit p \<Rightarrow> Some (hi_sender_idx p)
                              | PHandshakeResponse p \<Rightarrow> Some (hr_sender_idx p)
                              | _ \<Rightarrow> None) of
             None \<Rightarrow> (Ok packet, g, l)
           | Some sender_idx \<Rightarrow>
               (case gate_handshake C now (map_option SrcAddress src_addr) src sender_idx CookieArmed
                       load_decision_default l of
                  (GatePass, _, l) \<Rightarrow> (Ok packet, g, l)
                | (GateBadMac, _, l) \<Rightarrow> (Err (VerifyErr InvalidMac), g, l)
                | (GateUnderLoad, _, l) \<Rightarrow> (Err (VerifyErr UnderLoad), g, l)
                | (GateCookieDemanded demand, _, l) \<Rightarrow>
                    (case format_cookie_demand C R obf g demand dst_len l of
                       (Inl e, g, l) \<Rightarrow> (Err (VerifyErr e), g, l)
                     | (Inr cookie_packet, g, l) \<Rightarrow> (Err (VerifyWriteToNetwork cookie_packet), g, l)))))"

section \<open>A slot's count within a window\<close>

definition slot_window :: "u64 \<Rightarrow> u32" where
  "slot_window packed = ucast (drop_bit 32 packed)"

definition slot_current :: "u32 \<Rightarrow> u64 \<Rightarrow> bool" where
  "slot_current w packed \<longleftrightarrow> slot_window packed = w \<or> sint (slot_window packed - w) > 0"

definition slot_count :: "u32 \<Rightarrow> u64 \<Rightarrow> nat" where
  "slot_count w packed = (if slot_current w packed then unat (ucast packed :: u32) else 0)"

lemma unpack_slot:
  "slot_window (push_bit 32 (ucast w) OR ucast c) = w"
  "(ucast (push_bit 32 (ucast (w :: u32) :: u64) OR ucast (c :: u32)) :: u32) = c"
  by (rule bit_word_eqI; auto simp: slot_window_def bit_simps dest: bit_imp_le_length)+

lemma bump_counts:
  assumes "bump w p = (c, p')"
  shows "unat c = min (Suc (slot_count w p)) (2 ^ 32 - 1)" "slot_count w p' = unat c"
proof -
  have sat: "unat (if x = - 1 then x else x + 1 :: u32) = min (Suc (unat x)) (2 ^ 32 - 1)" for x :: u32
  proof (cases "x = - 1")
    case False
    then have "unat x \<noteq> 2 ^ 32 - 1" by (simp add: word_unat_eq_iff)
    moreover have "unat x < 2 ^ 32" using unat_bound [of x] by simp
    ultimately show ?thesis using False by (simp add: unat_add_nowrap)
  qed simp
  show "unat c = min (Suc (slot_count w p)) (2 ^ 32 - 1)"
    using assms sat [of "ucast p"]
    by (auto simp: bump_def bump_next_def slot_count_def slot_current_def slot_window_def Let_def
        split: if_splits)
  obtain w' where n: "bump_next w p = (w', c)" and p': "p' = push_bit 32 (ucast w') OR ucast c"
    using assms by (cases "bump_next w p") (auto simp: bump_def)
  have "w' = w \<or> sint (w' - w) > 0"
    using n by (auto simp: bump_next_def Let_def split: if_splits)
  then show "slot_count w p' = unat c"
    by (simp add: p' slot_count_def slot_current_def unpack_slot)
qed

section \<open>A source is never counted below its messages\<close>

definition table_ok :: "source_counts \<Rightarrow> bool" where
  "table_ok t \<longleftrightarrow> length (sc_slots t) = SOURCE_ROWS * SOURCE_SLOTS"

text \<open>
  \<open>counted w N t\<close>: in window \<open>w\<close> every slot of a key \<open>k\<close> holds at least \<open>N k\<close>, up to the
  saturation of the 32-bit count.
\<close>

definition counted :: "u32 \<Rightarrow> (u8 \<times> u64 \<Rightarrow> nat) \<Rightarrow> source_counts \<Rightarrow> bool" where
  "counted w N t \<longleftrightarrow> (\<forall>s. \<forall>slot \<in> set (slots_of t s).
     min (N (budget_key s)) (2 ^ 32 - 1) \<le> slot_count w (sc_slots t ! slot))"

lemma slots_of_two:
  obtains a b where "slots_of t s = [a, b]" "a < 1024" "1024 \<le> b" "b < 2048"
proof -
  have "[0..<2] = [0, 1 :: nat]" by (simp add: numeral_2_eq_2)
  then show thesis
    using that [of "unat (sc_hasher t (budget_key s)) mod 1024"
        "1024 + unat (drop_bit 32 (sc_hasher t (budget_key s))) mod 1024"]
    by (simp add: slots_of_def Let_def SOURCE_ROWS_def SOURCE_SLOTS_def)
qed

lemma slots_of_update [simp]: "slots_of (t\<lparr> sc_slots := x \<rparr>) s = slots_of t s"
  by (simp add: slots_of_def)

lemma slots_of_key: "budget_key s' = budget_key s \<Longrightarrow> slots_of t s' = slots_of t s"
  by (simp add: slots_of_def)

lemma bump_slots_two:
  assumes "slots_of t s = [a, b]" "a < 1024" "1024 \<le> b"
    "bump w (sc_slots t ! a) = (c1, p1)" "bump w (sc_slots t ! b) = (c2, p2)"
  shows "source_count s w t = (min c2 c1, t\<lparr> sc_slots := (sc_slots t)[a := p1, b := p2] \<rparr>)"
  using assms by (simp add: source_count_def)

lemma slot_count_bounded: "slot_count w p \<le> 2 ^ 32 - 1"
  using unat_bound [of "ucast p :: u32"] by (auto simp: slot_count_def)

lemma source_count_step:
  assumes "table_ok t" "counted w N t" "source_count s w t = (c, t')"
  shows "table_ok t'" "counted w (N(budget_key s := Suc (N (budget_key s)))) t'"
    "min (Suc (N (budget_key s))) (2 ^ 32 - 1) \<le> unat c"
proof -
  obtain a b where ab: "slots_of t s = [a, b]" "a < 1024" "1024 \<le> b" "b < 2048" by (rule slots_of_two)
  obtain c1 p1 where 1: "bump w (sc_slots t ! a) = (c1, p1)" by fastforce
  obtain c2 p2 where 2: "bump w (sc_slots t ! b) = (c2, p2)" by fastforce
  have ct: "c = min c2 c1" "t' = t\<lparr> sc_slots := (sc_slots t)[a := p1, b := p2] \<rparr>"
    using bump_slots_two [OF ab(1-3) 1 2] assms(3) by simp_all
  have len: "a < length (sc_slots t)" "b < length (sc_slots t)"
    using assms(1) ab by (simp_all add: table_ok_def SOURCE_ROWS_def SOURCE_SLOTS_def)
  show "table_ok t'" using assms(1) ct by (simp add: table_ok_def)
  have up: "slot_count w p1 = min (Suc (slot_count w (sc_slots t ! a))) (2 ^ 32 - 1)"
    "slot_count w p2 = min (Suc (slot_count w (sc_slots t ! b))) (2 ^ 32 - 1)"
    using bump_counts [OF 1] bump_counts [OF 2] by simp_all
  have slot: "slot_count w (sc_slots t' ! i) =
      (if i \<in> {a, b} then min (Suc (slot_count w (sc_slots t ! i))) (2 ^ 32 - 1)
       else slot_count w (sc_slots t ! i))" for i
    using ab len up by (auto simp: ct nth_list_update)
  show "counted w (N(budget_key s := Suc (N (budget_key s)))) t'"
    unfolding counted_def
  proof (intro allI ballI)
    fix s' i
    assume "i \<in> set (slots_of t' s')"
    then have i: "i \<in> set (slots_of t s')" by (simp add: ct)
    then have "min (N (budget_key s')) (2 ^ 32 - 1) \<le> slot_count w (sc_slots t ! i)"
      using assms(2) by (simp add: counted_def)
    moreover have "budget_key s' = budget_key s \<Longrightarrow> i \<in> {a, b}"
      using i ab(1) slots_of_key [of s' s t] by simp
    ultimately show "min ((N(budget_key s := Suc (N (budget_key s)))) (budget_key s')) (2 ^ 32 - 1)
        \<le> slot_count w (sc_slots t' ! i)"
      using slot_count_bounded [of w "sc_slots t ! i"] by (auto simp: slot)
  qed
  have "min (Suc (N (budget_key s))) (2 ^ 32 - 1) \<le> unat c1" "min (Suc (N (budget_key s))) (2 ^ 32 - 1) \<le> unat c2"
  proof -
    have aux: "min n M \<le> x \<Longrightarrow> min (Suc n) M \<le> min (Suc x) M" for n x M :: nat by auto
    have "min (N (budget_key s)) (2 ^ 32 - 1) \<le> slot_count w (sc_slots t ! i)" if "i \<in> {a, b}" for i
      using assms(2) that ab(1) unfolding counted_def by (metis insert_iff list.set(2) singletonD list.set(1))
    then show "min (Suc (N (budget_key s))) (2 ^ 32 - 1) \<le> unat c1"
      "min (Suc (N (budget_key s))) (2 ^ 32 - 1) \<le> unat c2"
      unfolding bump_counts(1) [OF 1] bump_counts(1) [OF 2] by (intro aux; simp)+
  qed
  then show "min (Suc (N (budget_key s))) (2 ^ 32 - 1) \<le> unat c"
    by (simp add: ct min_def [of c2 c1])
qed

text \<open>The counts returned to the messages of one window, in order.\<close>

fun source_count_run :: "u32 \<Rightarrow> source list \<Rightarrow> source_counts \<Rightarrow> u32 list" where
  "source_count_run w [] t = []"
| "source_count_run w (s # ss) t = (let (c, t') = source_count s w t in c # source_count_run w ss t')"

lemma source_count_run_lower:
  assumes "table_ok t" "counted w N t" "i < length ss"
  shows "min (N (budget_key (ss ! i)) + count_list (map budget_key (take (Suc i) ss)) (budget_key (ss ! i)))
      (2 ^ 32 - 1) \<le> unat (source_count_run w ss t ! i)"
  using assms
proof (induction ss arbitrary: t N i)
  case (Cons s ss)
  obtain c t' where c: "source_count s w t = (c, t')" by fastforce
  note step = source_count_step [OF Cons.prems(1,2) c]
  show ?case
  proof (cases i)
    case 0
    then show ?thesis using step(3) c by simp
  next
    case (Suc j)
    then have "j < length ss" using Cons.prems(3) by simp
    from Cons.IH [OF step(1,2) this] show ?thesis
      using Suc c by (cases "budget_key s = budget_key (ss ! j)") (simp_all add: add.assoc)
  qed
qed simp

section \<open>The aggregate\<close>

lemma source_limit_of_bounds:
  "source_limit_of limit \<le> limit" "SOURCE_FLOOR \<le> limit \<Longrightarrow> SOURCE_FLOOR \<le> source_limit_of limit"
proof -
  have "limit div SOURCE_SHARE \<le> limit" by (simp add: word_le_nat_alt unat_div_distrib)
  then show "source_limit_of limit \<le> limit" by (simp add: source_limit_of_def)
  show "SOURCE_FLOOR \<le> limit \<Longrightarrow> SOURCE_FLOOR \<le> source_limit_of limit"
    by (simp add: source_limit_of_def min_def le_max_iff_disj)
qed

lemma is_under_load_frame:
  assumes "is_under_load now src l = (u, l')"
  shows "rl_limit l' = rl_limit l" "rl_secret_key l' = rl_secret_key l" "rl_start_time l' = rl_start_time l"
    "rl_mac1_key l' = rl_mac1_key l" "rl_cookie_key l' = rl_cookie_key l"
    "rl_source_limit l' = rl_source_limit l"
    "rl_count l' = (if u = LoadSourceShare then rl_count l else rl_count l + 1)"
    "u = LoadClear \<Longrightarrow> rl_count l < rl_limit l"
    "u = LoadAggregate \<Longrightarrow> rl_limit l \<le> rl_count l"
  using assms
  by (auto simp: is_under_load_def fetch_add_count_def Let_def case_prod_beta not_le
      split: option.splits if_splits)

lemma admit_proven_frame:
  assumes "admit_proven now u a l = (ok, l')"
  shows "rl_limit l' = rl_limit l" "rl_secret_key l' = rl_secret_key l" "rl_start_time l' = rl_start_time l"
    "rl_mac1_key l' = rl_mac1_key l" "rl_cookie_key l' = rl_cookie_key l"
    "rl_count l' = (if u = LoadSourceShare then rl_count l + 1 else rl_count l)"
  using assms
  by (auto simp: admit_proven_def fetch_add_count_def Let_def case_prod_beta split: if_splits)

section \<open>What passes the gate\<close>

definition mac1_valid :: "crypto \<Rightarrow> rate_limiter \<Rightarrow> bytes \<Rightarrow> bool" where
  "mac1_valid C l message \<longleftrightarrow>
     b2s_keyed_mac_16 C (rl_mac1_key l) (take (length message - 32) message)
       = take 16 (drop (length message - 32) message)"

definition mac2_valid :: "crypto \<Rightarrow> instant \<Rightarrow> rate_limiter \<Rightarrow> source \<Rightarrow> bytes \<Rightarrow> bool" where
  "mac2_valid C now l src message \<longleftrightarrow>
     b2s_keyed_mac_16_2 C (current_cookie C now l src) (take (length message - 32) message)
       (take 16 (drop (length message - 32) message)) = drop 16 (drop (length message - 32) message)"

lemma current_cookie_frame:
  "rl_secret_key l' = rl_secret_key l \<Longrightarrow> rl_start_time l' = rl_start_time l \<Longrightarrow>
   current_cookie C now l' s = current_cookie C now l s"
  by (simp add: current_cookie_def)

text \<open>One pass through the armed gate for a datagram of its own, on every branch.\<close>

lemma gate_armed_cases:
  assumes "gate_handshake C now src m idx CookieArmed load_decision_default l = (r, ld, l')"
  obtains (bad) "\<not> mac1_valid C l m" "r = GateBadMac" "l' = l"
  | (clear) l1 where "mac1_valid C l m" "is_under_load (gc_load now) src l = (LoadClear, l1)"
      "r = GatePass" "l' = l1"
  | (nosource) u l1 where "mac1_valid C l m" "is_under_load (gc_load now) src l = (u, l1)"
      "u \<noteq> LoadClear" "src = None" "r = GateUnderLoad" "l' = l1"
  | (demand) u l1 s where "mac1_valid C l m" "is_under_load (gc_load now) src l = (u, l1)"
      "u \<noteq> LoadClear" "src = Some s" "\<not> mac2_valid C (gc_cookie now) l s m"
      "r = GateCookieDemanded \<lparr> cd_sender_idx = idx, cd_cookie = current_cookie C (gc_cookie now) l s,
         cd_mac1 = take 16 (drop (length m - 32) m) \<rparr>" "l' = l1"
  | (proven) u l1 s ok where "mac1_valid C l m" "is_under_load (gc_load now) src l = (u, l1)"
      "u \<noteq> LoadClear" "src = Some s" "mac2_valid C (gc_cookie now) l s m"
      "admit_proven (gc_proven now) u s l1 = (ok, l')" "r = (if ok then GatePass else GateUnderLoad)"
proof (cases "mac1_valid C l m")
  case False
  show thesis
    by (rule bad)
       (use assms False in \<open>simp_all add: gate_handshake_def mac1_valid_def constant_time_eq_def Let_def\<close>)
next
  case m1: True
  note gate = assms [unfolded gate_handshake_def constant_time_eq_def load_decision_default_def Let_def,
      folded mac1_valid_def, simplified m1, simplified]
  obtain u l1 where u: "is_under_load (gc_load now) src l = (u, l1)" by fastforce
  have ck: "current_cookie C t l1 s = current_cookie C t l s" for t s
    using is_under_load_frame [OF u] by (intro current_cookie_frame) auto
  consider "u = LoadClear" | "u \<noteq> LoadClear" "src = None" | s where "u \<noteq> LoadClear" "src = Some s" by auto
  then show thesis
  proof cases
    case 1
    show thesis by (rule clear [OF m1]) (use gate u 1 in auto)
  next
    case 2
    show thesis by (rule nosource [OF m1 u 2]) (use gate u 2 in auto)
  next
    case (3 s)
    note gate' = gate [unfolded u, simplified 3 ck, simplified, folded mac2_valid_def]
    show thesis
    proof (cases "mac2_valid C (gc_cookie now) l s m")
      case False
      show thesis by (rule demand [OF m1 u 3 False]) (use gate' 3 False in \<open>simp_all add: mac2_valid_def ck\<close>)
    next
      case True
      obtain ok l2 where a: "admit_proven (gc_proven now) u s l1 = (ok, l2)" by fastforce
      show thesis by (rule proven [OF m1 u 3 True, of ok]) (use gate' 3 True a in \<open>simp_all add: mac2_valid_def ck\<close>)
    qed
  qed
qed

text \<open>
  How many messages of a sequence, each a datagram of its own, pass the armed gate without a
  MAC2 that proves their source.
\<close>

definition proves_source :: "crypto \<Rightarrow> instant \<Rightarrow> rate_limiter \<Rightarrow> source option \<Rightarrow> bytes \<Rightarrow> bool" where
  "proves_source C now l src m = (case src of None \<Rightarrow> False | Some s \<Rightarrow> mac2_valid C now l s m)"

fun unproven_passes ::
  "crypto \<Rightarrow> (gate_clock \<times> source option \<times> bytes \<times> u32) list \<Rightarrow> rate_limiter \<Rightarrow> nat" where
  "unproven_passes C [] l = 0"
| "unproven_passes C ((now, src, m, idx) # es) l =
     (let (r, _, l') = gate_handshake C now src m idx CookieArmed load_decision_default l
      in (if r = GatePass \<and> \<not> proves_source C (gc_cookie now) l src m then 1 else 0)
         + unproven_passes C es l')"

lemma gate_armed_step:
  assumes "gate_handshake C now src m idx CookieArmed load_decision_default l = (r, ld, l')"
  shows "rl_limit l' = rl_limit l" "rl_count l' = rl_count l \<or> rl_count l' = rl_count l + 1"
    "r = GatePass \<Longrightarrow> \<not> proves_source C (gc_cookie now) l src m \<Longrightarrow>
       rl_count l < rl_limit l \<and> rl_count l' = rl_count l + 1"
  by (cases rule: gate_armed_cases [OF assms];
      auto simp: proves_source_def is_under_load_frame admit_proven_frame split: if_splits)+

lemma unproven_passes_bound:
  assumes "unat (rl_count l) + length es < 2 ^ 64"
  shows "unproven_passes C es l \<le> unat (rl_limit l) - unat (rl_count l)"
  using assms
proof (induction es arbitrary: l)
  case (Cons e es)
  obtain now src m idx where e: "e = (now, src, m, idx)" by (cases e)
  obtain r ld l' where g: "gate_handshake C now src m idx CookieArmed load_decision_default l = (r, ld, l')"
    by (metis surj_pair)
  note step = gate_armed_step [OF g]
  have up: "unat (rl_count l + 1) = unat (rl_count l) + 1"
    using Cons.prems by (subst unat_add_nowrap) simp_all
  then have "unat (rl_count l') + length es < 2 ^ 64" using step(2) Cons.prems by auto
  note IH = Cons.IH [OF this]
  show ?case
  proof (cases "r = GatePass \<and> \<not> proves_source C (gc_cookie now) l src m")
    case True
    with step have "unat (rl_count l) < unat (rl_limit l)" "unat (rl_count l') = unat (rl_count l) + 1"
      using up by (auto simp: word_less_nat_alt)
    with True IH step(1) show ?thesis by (simp add: e g)
  next
    case False
    have "unat (rl_count l) \<le> unat (rl_count l')" using step(2) up by auto
    with False IH step(1) show ?thesis by (auto simp: e g)
  qed
qed simp

section \<open>Cookie inputs\<close>

definition ip_wf :: "ip_addr \<Rightarrow> bool" where
  "ip_wf a = (case a of IpV4 v4 \<Rightarrow> length v4 = 4 | IpV6 v6 \<Rightarrow> length v6 = 16)"

lemma source_ip_wf: "ip_wf (source_address s) \<Longrightarrow> ip_wf (source_ip s)"
  by (auto simp: source_ip_def Let_def ip_wf_def to_ipv4_mapped_def split: ip_addr.splits option.splits if_splits)

lemma cookie_input_eq_iff:
  assumes "ip_wf (source_address s)" "ip_wf (source_address s')"
  shows "cookie_input s = cookie_input s' \<longleftrightarrow> source_ip s = source_ip s' \<and> source_port s = source_port s'"
  using source_ip_wf [OF assms(1)] source_ip_wf [OF assms(2)]
  by (cases "source_ip s"; cases "source_ip s'"; cases "source_port s"; cases "source_port s'")
     (auto simp: cookie_input_def Let_def ip_wf_def be16.enc_inject)

section \<open>The cookie exchange\<close>

text \<open>The limiter of the end whose static public key is \<open>pk\<close>.\<close>

definition limiter_for :: "crypto \<Rightarrow> bytes \<Rightarrow> rate_limiter \<Rightarrow> bool" where
  "limiter_for C pk l \<longleftrightarrow>
     rl_mac1_key l = b2s_hash C LABEL_MAC1 pk \<and> rl_cookie_key l = b2s_hash C LABEL_COOKIE pk"

lemma format_initiation_macs:
  assumes "format_handshake_initiation C R eph sn tn dst h = (Ok m, h')"
  obtains body h1 where "append_mac1_and_mac2 C (fst (inc_index h)) body h1 = (m, h')"
    "hs_params h1 = hs_params h" "hs_cookies h1 = hs_cookies h" "hs_obf h1 = hs_obf h"
proof -
  have d: "HANDSHAKE_INIT_SZ \<le> dst"
    using assms by (auto simp: format_handshake_initiation_def split: if_splits)
  show thesis
    using assms d
    by (auto simp: format_handshake_initiation_def Let_def case_prod_beta inc_index_frame
        intro!: that prod_eqI)
qed

lemma format_initiation_ok:
  "HANDSHAKE_INIT_SZ \<le> dst \<Longrightarrow> \<exists>m h'. format_handshake_initiation C R eph sn tn dst h = (Ok m, h')"
  by (simp add: format_handshake_initiation_def Let_def case_prod_beta)

lemma appended_macs:
  assumes "append_mac1_and_mac2 C i body h1 = (m, h')" "sizes_ok C"
  shows "take (length m - 32) m = body"
    "take 16 (drop (length m - 32) m) = b2s_keyed_mac_16 C (np_sending_mac1_key (hs_params h1)) body"
    "ck_write_cookie (hs_cookies h1) = Some ck \<Longrightarrow>
       drop 16 (drop (length m - 32) m) =
         b2s_keyed_mac_16 C ck (body @ b2s_keyed_mac_16 C (np_sending_mac1_key (hs_params h1)) body)"
    "ck_write_cookie (hs_cookies h1) = None \<Longrightarrow> drop 16 (drop (length m - 32) m) = replicate 16 0"
    "hs_cookies h' = (hs_cookies h1)\<lparr> ck_index := i,
       ck_last_mac1 := Some (b2s_keyed_mac_16 C (np_sending_mac1_key (hs_params h1)) body) \<rparr>"
    "hs_params h' = hs_params h1" "hs_obf h' = hs_obf h1"
  using assms
  by (auto simp: append_mac1_and_mac2_def Let_def sizes_okD split: option.splits)

lemma initiation_mac1_valid:
  assumes "format_handshake_initiation C R eph sn tn dst h = (Ok m, h')" "sizes_ok C"
    "params_ok C (hs_params h)" "limiter_for C (np_peer_static_public (hs_params h)) l"
  shows "mac1_valid C l m"
proof -
  obtain body h1 where "append_mac1_and_mac2 C (fst (inc_index h)) body h1 = (m, h')"
    "hs_params h1 = hs_params h"
    by (rule format_initiation_macs [OF assms(1)])
  from appended_macs [OF this(1) assms(2)] this(2) assms(3,4) show ?thesis
    by (simp add: mac1_valid_def limiter_for_def params_ok_def)
qed

lemma initiation_mac2_valid:
  assumes "format_handshake_initiation C R eph sn tn dst h = (Ok m, h')" "sizes_ok C"
    "ck_write_cookie (hs_cookies h) = Some (current_cookie C now l s)"
  shows "mac2_valid C now l s m"
proof -
  obtain body h1 where "append_mac1_and_mac2 C (fst (inc_index h)) body h1 = (m, h')"
    "hs_cookies h1 = hs_cookies h"
    by (rule format_initiation_macs [OF assms(1)])
  from appended_macs [OF this(1) assms(2)] this(2) assms(3) show ?thesis
    by (simp add: mac2_valid_def b2s_keyed_mac_16_def b2s_keyed_mac_16_2_def)
qed

lemma length_current_cookie: "sizes_ok C \<Longrightarrow> length (current_cookie C now l s) = 16"
  by (simp add: current_cookie_def Let_def sizes_okD)

lemma random_h3_matches:
  assumes "rng_fair R" "ranges_valid obf"
  shows "matches_h3 obf (fst (random_h3 R obf g))"
  using tag_random_contains [OF assms(1), of "h3_cookie obf" g] assms(2)
  by (simp add: matches_h3_def random_h3_def ranges_valid_def)

lemma cookie_demand_answered:
  assumes laws: "xaead_correct C" "sizes_ok C" "rng_fair R"
    and f: "format_handshake_initiation C R eph sn tn dst h = (Ok m, h')"
    and ok: "params_ok C (hs_params h)" "limiter_for C (np_peer_static_public (hs_params h)) l"
    and obf: "ranges_valid (hs_obf h)"
    and gate: "gate_handshake C now src m (fst (inc_index h)) CookieArmed load_decision_default l
      = (GateCookieDemanded d, ld, l')"
    and reply: "format_cookie_demand C R (hs_obf h) g d n l' = (Ok r, g', l'')"
  obtains p s where "src = Some s" "cd_cookie d = current_cookie C (gc_cookie now) l s"
    "parse_incoming_packet (hs_obf h') r = Ok (PPacketCookieReply p)"
    "authenticate_cookie_reply C h' p = Ok (cd_cookie d)"
proof (cases rule: gate_armed_cases [OF gate])
  case (4 u l1 s)
  obtain body h1 where b: "append_mac1_and_mac2 C (fst (inc_index h)) body h1 = (m, h')"
    "hs_params h1 = hs_params h" "hs_obf h1 = hs_obf h"
    by (rule format_initiation_macs [OF f])
  note macs = appended_macs [OF b(1) laws(2)]
  have key: "rl_cookie_key l' = b2s_hash C LABEL_COOKIE (np_peer_static_public (hs_params h))"
    using ok(2) is_under_load_frame [OF 4(2)] 4(7) by (simp add: limiter_for_def)
  let ?nonce = "b2s_mac_24 C (rl_nonce_key l') (u64_to_le (rl_nonce_ctr l'))"
  let ?ck = "xaead_seal C (rl_cookie_key l') ?nonce (cd_mac1 d) (cd_cookie d)"
  let ?p = "\<lparr>cr_receiver_idx = fst (inc_index h), cr_nonce = ?nonce, cr_encrypted_cookie = ?ck\<rparr>"
  have d: "cd_sender_idx d = fst (inc_index h)" "cd_cookie d = current_cookie C (gc_cookie now) l s"
    "cd_mac1 d = b2s_keyed_mac_16 C (np_sending_mac1_key (hs_params h)) body"
    using 4(6) macs(2) b(2) by simp_all
  have len: "length (cd_cookie d) = 16" "length (cd_mac1 d) = 16" "length ?nonce = 24" "length ?ck = 32"
    using d laws by (simp_all add: length_current_cookie sizes_okD xaead_correct_def)
  have "parse_incoming_packet (hs_obf h') r = Ok (PPacketCookieReply ?p)"
    using reply random_h3_matches [OF laws(3) obf] len
    by (auto simp: format_cookie_demand_def format_cookie_reply_def rl_nonce_def Let_def case_prod_beta
        macs(7) b(3) d(1) split: if_splits intro!: parse_cookie_layout)
  moreover have "authenticate_cookie_reply C h' ?p = Ok (cd_cookie d)"
    using laws(1) len
    by (simp add: authenticate_cookie_reply_def macs(5,6) b(2) key d(3) [symmetric] xaead_correct_def)
  ultimately show thesis using that 4(4) d(2) by blast
qed (simp_all split: if_splits)

section \<open>Properties\<close>

text \<open>
  C29. A source is never counted below its messages. In one window, whatever the state of the
  shared table and however the messages of other sources interleave and collide, the count returned for
  a message is at least the number of messages of its budget key so far (up to the saturation of the
  32-bit count): sharing a slot can make the limiter stricter, never laxer.
\<close>

theorem source_never_undercounted:
  assumes "table_ok t" "i < length ss"
  shows "min (count_list (map budget_key (take (Suc i) ss)) (budget_key (ss ! i))) (2 ^ 32 - 1)
    \<le> unat (source_count_run w ss t ! i)"
proof -
  have "counted w (\<lambda>_. 0) t" by (simp add: counted_def)
  from source_count_run_lower [OF assms(1) this assms(2)] show ?thesis by simp
qed

theorem source_never_undercounted_witness:
  "table_ok (source_counts_new (\<lambda>_. 0)) \<and>
   2 \<le> unat (source_count_run 7 [SrcAddress (IpV4 [1,2,3,4]), SrcAddress (IpV4 [1,2,3,4])]
          (source_counts_new (\<lambda>_. 0)) ! 1)"
  using source_never_undercounted [of "source_counts_new (\<lambda>_. 0)" 1
      "[SrcAddress (IpV4 [1,2,3,4]), SrcAddress (IpV4 [1,2,3,4])]" 7]
  by (simp add: table_ok_def source_counts_new_def)


definition sample_limiter :: "u64 \<Rightarrow> rate_limiter" where
  "sample_limiter limit =
     rate_limiter_new sample_crypto (x25519_public sample_crypto [2]) limit [7] [8] (at_nanos 0) (at_nanos 0)
       (\<lambda>_. 0) (\<lambda>_. 0)"


text \<open>
  MAC1 comes first. A message whose MAC1 does not hold is refused as such, and neither the
  budgets nor the load decision of its datagram change; with the cookie defence bypassed a message whose
  MAC1 holds passes, again with nothing counted.
\<close>

lemma gate_checks_mac1_first:
  "gate_handshake C now src m idx defense ld l =
     (if \<not> mac1_valid C l m then (GateBadMac, ld, l)
      else if defense = CookieBypassed then (GatePass, ld, l)
      else gate_handshake C now src m idx CookieArmed ld l) \<and>
   (fst (gate_handshake C now src m idx defense ld l) = GateBadMac \<longleftrightarrow> \<not> mac1_valid C l m)"
  by (cases defense)
     (auto simp: gate_handshake_def mac1_valid_def constant_time_eq_def Let_def case_prod_beta
       split: option.splits)


lemma sample_cookie_demanded:
  assumes "format_handshake_initiation sample_crypto zero_rng [5] (at_nanos 1) (at_nanos 1) 200
      (sample_handshake [1] [2] 256) = (Ok m, h')"
  shows "\<exists>d ld l'. gate_handshake sample_crypto \<lparr>gc_load = at_nanos 1, gc_cookie = at_nanos 1, gc_proven = at_nanos 1\<rparr>
      (Some (SrcAddress (IpV4 [1,2,3,4]))) m (fst (inc_index (sample_handshake [1] [2] 256))) CookieArmed
      load_decision_default (sample_limiter 0) = (GateCookieDemanded d, ld, l')"
    (is "\<exists>d ld l'. ?gate = _")
proof -
  let ?s = "SrcAddress (IpV4 [1,2,3,4])" and ?h = "sample_handshake [1] [2] 256"
  obtain r ld l' where g: "?gate = (r, ld, l')" by (metis surj_pair)
  have m1: "mac1_valid sample_crypto (sample_limiter 0) m"
    by (rule initiation_mac1_valid [OF assms sample_sizes_ok])
       (simp_all add: sample_handshake_def handshake_new_def noise_params_new_ok limiter_for_def sample_limiter_def
         rate_limiter_new_def, simp add: noise_params_new_def)
  have u: "fst (is_under_load (at_nanos 1) (Some ?s) (sample_limiter 0)) \<noteq> LoadClear"
    by (simp add: is_under_load_def sample_limiter_def rate_limiter_new_def fetch_add_count_def Let_def case_prod_beta)
  obtain body h1 where b: "append_mac1_and_mac2 sample_crypto (fst (inc_index ?h)) body h1 = (m, h')"
    "hs_cookies h1 = hs_cookies ?h" by (rule format_initiation_macs [OF assms])
  then have "drop 16 (drop (length m - 32) m) = replicate 16 0"
    using appended_macs(4) [OF b(1) sample_sizes_ok] by (simp add: sample_handshake_def handshake_new_def)
  moreover have "hd (b2s_keyed_mac_16_2 sample_crypto (current_cookie sample_crypto t (sample_limiter 0) ?s) x y) = 7" for t x y
    by (simp add: b2s_keyed_mac_16_2_def current_cookie_def sample_crypto_def pad_to_def sample_limiter_def
        rate_limiter_new_def Let_def)
  moreover have "hd (replicate 16 (0 :: u8)) \<noteq> 7" by simp
  ultimately have m2: "\<not> mac2_valid sample_crypto (at_nanos 1) (sample_limiter 0) ?s m"
    unfolding mac2_valid_def by metis
  show ?thesis
    by (cases rule: gate_armed_cases [OF g]) (use m1 m2 u g in auto)
qed


end
