(* ===== verification/Amnezia_Config.thy ===== *)
theory Amnezia_Config
  imports Junk Header_Protection Budget Clock Rate_Limiter
begin

text \<open>
  The AmneziaWG configuration (the first half of \<open>noise/amnezia.rs\<close>): the S1 to S4 prefix sizes,
  the Jc junk group, protocol imitation, header protection, content padding, the tunable timer
  ranges and the two switches of version 3.1, with the builders that normalise them, the checks
  every configuration door runs and the values the tunnel reads out of them.

  Messages are values that carry what the source formats into them. The lemmas show what an accepted
  configuration guarantees to the code that relies on it, that resolving an automatic imitation never
  leaves an accepted configuration, that builders order transposed ranges, and how the values drawn
  for the timers and the padding relate to the configured bounds.
\<close>

section \<open>Imitation\<close>

definition protocol_try_from :: "u8 \<Rightarrow> imitation_protocol option" where
  "protocol_try_from v =
     (if v = 0 then Some ImNone else if v = 1 then Some ImDns else if v = 2 then Some ImQuic
      else if v = 3 then Some ImSip else if v = 4 then Some ImStun else if v = 5 then Some ImAuto
      else None)"

definition protocol_ALL :: "imitation_protocol list" where
  "protocol_ALL = [ImNone, ImDns, ImQuic, ImSip, ImStun, ImAuto]"

fun protocol_as_str :: "imitation_protocol \<Rightarrow> string" where
  "protocol_as_str ImNone = ''none''"
| "protocol_as_str ImDns = ''dns''"
| "protocol_as_str ImQuic = ''quic''"
| "protocol_as_str ImSip = ''sip''"
| "protocol_as_str ImStun = ''stun''"
| "protocol_as_str ImAuto = ''auto''"

definition protocol_from_str :: "string \<Rightarrow> imitation_protocol option" where
  "protocol_from_str s = find (\<lambda>p. protocol_as_str p = s) protocol_ALL"

definition uses_domain :: "imitation_protocol \<Rightarrow> bool" where
  "uses_domain p \<longleftrightarrow> p = ImDns \<or> p = ImSip \<or> p = ImQuic"

datatype imitation_browser = BrDefault | BrChrome | BrFirefox | BrCurl | BrRandom

definition browser_try_from :: "u8 \<Rightarrow> imitation_browser option" where
  "browser_try_from v =
     (if v = 0 then Some BrDefault else if v = 1 then Some BrChrome else if v = 2 then Some BrFirefox
      else if v = 3 then Some BrCurl else if v = 4 then Some BrRandom else None)"

record imitation =
  im_protocol :: imitation_protocol
  im_domain :: "bytes option"
  im_browser :: imitation_browser

definition imitation_default :: imitation where
  "imitation_default = \<lparr> im_protocol = ImNone, im_domain = None, im_browser = BrDefault \<rparr>"

definition option_filter :: "('a \<Rightarrow> bool) \<Rightarrow> 'a option \<Rightarrow> 'a option" where
  "option_filter P x = (case x of Some a \<Rightarrow> if P a then Some a else None | None \<Rightarrow> None)"

definition imitation_new :: "imitation_protocol \<Rightarrow> bytes option \<Rightarrow> imitation_browser \<Rightarrow> imitation" where
  "imitation_new protocol domain browser = \<lparr>
     im_protocol = protocol,
     im_domain = (case protocol of
         ImDns \<Rightarrow> option_filter is_valid_imitation_host domain
       | ImSip \<Rightarrow> option_filter is_valid_imitation_host domain
       | ImQuic \<Rightarrow> option_filter is_valid_quic_sni domain
       | _ \<Rightarrow> None),
     im_browser = (if protocol = ImQuic then browser else BrDefault) \<rparr>"

section \<open>Pre-handshake junk\<close>

definition DEFAULT_JUNK_PACKET_SIZE_MIN :: u16 where "DEFAULT_JUNK_PACKET_SIZE_MIN = 50"
definition DEFAULT_JUNK_PACKET_SIZE_MAX :: u16 where "DEFAULT_JUNK_PACKET_SIZE_MAX = 1000"
definition MAX_JUNK_PACKET_COUNT :: u16 where "MAX_JUNK_PACKET_COUNT = 128"
definition MAX_JUNK_PACKET_SIZE :: u16 where "MAX_JUNK_PACKET_SIZE = 1280"
definition MAX_JUNK_PACKET_DELAY_MS :: u16 where "MAX_JUNK_PACKET_DELAY_MS = 200"

lemmas junk_consts = DEFAULT_JUNK_PACKET_SIZE_MIN_def DEFAULT_JUNK_PACKET_SIZE_MAX_def
  MAX_JUNK_PACKET_COUNT_def MAX_JUNK_PACKET_SIZE_def MAX_JUNK_PACKET_DELAY_MS_def

record pre_handshake_junk =
  packet_count :: u16
  packet_size_min :: u16
  packet_size_max :: u16
  packet_delay_ms :: u16

definition pre_handshake_junk_default :: pre_handshake_junk where
  "pre_handshake_junk_default =
     \<lparr> packet_count = 0, packet_size_min = 0, packet_size_max = 0, packet_delay_ms = 0 \<rparr>"

definition pre_handshake_junk_new :: "u16 \<Rightarrow> u16 \<Rightarrow> u16 \<Rightarrow> u16 \<Rightarrow> pre_handshake_junk" where
  "pre_handshake_junk_new count size_min size_max delay_ms =
     (let count = (if count \<le> MAX_JUNK_PACKET_COUNT then count else 0);
          (lo, hi) =
            (if count = 0 then (size_min, size_max)
             else if size_min = 0 \<and> size_max = 0
             then (DEFAULT_JUNK_PACKET_SIZE_MIN, DEFAULT_JUNK_PACKET_SIZE_MAX)
             else if size_min > 0 \<and> size_min \<le> size_max \<and> size_max \<le> MAX_JUNK_PACKET_SIZE
             then (size_min, size_max)
             else (DEFAULT_JUNK_PACKET_SIZE_MIN, DEFAULT_JUNK_PACKET_SIZE_MAX));
          delay = (if delay_ms \<le> MAX_JUNK_PACKET_DELAY_MS then delay_ms else 0)
      in \<lparr> packet_count = count, packet_size_min = lo, packet_size_max = hi, packet_delay_ms = delay \<rparr>)"

definition junk_is_enabled :: "pre_handshake_junk \<Rightarrow> bool" where
  "junk_is_enabled j \<longleftrightarrow> packet_count j > 0"

definition junk_delay :: "pre_handshake_junk \<Rightarrow> duration" where
  "junk_delay j = from_millis (unat (packet_delay_ms j))"

section \<open>Tunable timers\<close>

definition REKEY_AFTER_TIME :: duration where "REKEY_AFTER_TIME = from_secs 120"
definition REJECT_AFTER_TIME :: duration where "REJECT_AFTER_TIME = from_secs 180"
definition REKEY_ATTEMPT_TIME :: duration where "REKEY_ATTEMPT_TIME = from_secs 90"
definition REKEY_TIMEOUT :: duration where "REKEY_TIMEOUT = from_secs 5"
definition KEEPALIVE_TIMEOUT :: duration where "KEEPALIVE_TIMEOUT = from_secs 10"

lemmas timer_consts = REKEY_AFTER_TIME_def REJECT_AFTER_TIME_def REKEY_ATTEMPT_TIME_def
  REKEY_TIMEOUT_def KEEPALIVE_TIMEOUT_def

type_synonym uint_range = "u32 \<times> u32"

record awg_timers =
  rekey_after_time :: uint_range
  rekey_timeout :: uint_range
  reject_after_time :: uint_range
  keepalive_timeout :: uint_range
  max_handshake_attempts :: uint_range

definition awg_timers_default :: awg_timers where
  "awg_timers_default = \<lparr> rekey_after_time = (0, 0), rekey_timeout = (0, 0),
     reject_after_time = (0, 0), keepalive_timeout = (0, 0), max_handshake_attempts = (0, 0) \<rparr>"

definition timer_pick :: "'g rng \<Rightarrow> uint_range \<Rightarrow> duration \<Rightarrow> 'g \<Rightarrow> duration \<times> 'g" where
  "timer_pick R r dflt g =
     (if r = (0, 0) then (dflt, g)
      else let (n, g) = random_usize_inclusive R (unat (fst r)) (unat (snd r)) g in (from_secs n, g))"

definition timer_lo :: "uint_range \<Rightarrow> duration \<Rightarrow> duration" where
  "timer_lo r dflt = (if r = (0, 0) then dflt else from_secs (unat (fst r)))"

definition timer_hi :: "uint_range \<Rightarrow> duration \<Rightarrow> duration" where
  "timer_hi r dflt = (if r = (0, 0) then dflt else from_secs (unat (snd r)))"

definition key_refresh_sending :: "'g rng \<Rightarrow> awg_timers \<Rightarrow> 'g \<Rightarrow> duration \<times> 'g" where
  "key_refresh_sending R t g = timer_pick R (rekey_after_time t) REKEY_AFTER_TIME g"

text \<open>Subtraction of durations is the saturating one, as subtraction of naturals is.\<close>

definition key_refresh_receiving :: "'g rng \<Rightarrow> awg_timers \<Rightarrow> 'g \<Rightarrow> duration \<times> 'g" where
  "key_refresh_receiving R t g =
     (let (reject, g) = timer_pick R (reject_after_time t) REJECT_AFTER_TIME g
      in (reject - timer_lo (keepalive_timeout t) KEEPALIVE_TIMEOUT
                 - timer_lo (rekey_timeout t) REKEY_TIMEOUT, g))"

definition retransmit_timeout :: "'g rng \<Rightarrow> awg_timers \<Rightarrow> 'g \<Rightarrow> duration \<times> 'g" where
  "retransmit_timeout R t g = timer_pick R (rekey_timeout t) REKEY_TIMEOUT g"

definition new_handshake_timeout :: "'g rng \<Rightarrow> awg_timers \<Rightarrow> 'g \<Rightarrow> duration \<times> 'g" where
  "new_handshake_timeout R t g =
     (let (d, g) = timer_pick R (rekey_timeout t) REKEY_TIMEOUT g
      in (timer_hi (keepalive_timeout t) KEEPALIVE_TIMEOUT + d, g))"

definition keepalive :: "'g rng \<Rightarrow> awg_timers \<Rightarrow> 'g \<Rightarrow> duration \<times> 'g" where
  "keepalive R t g = timer_pick R (keepalive_timeout t) KEEPALIVE_TIMEOUT g"

definition keychain_expire :: "awg_timers \<Rightarrow> duration" where
  "keychain_expire t = timer_hi (reject_after_time t) REJECT_AFTER_TIME"

definition max_retransmissions :: "'g rng \<Rightarrow> awg_timers \<Rightarrow> 'g \<Rightarrow> nat \<times> 'g" where
  "max_retransmissions R t g =
     (let classic = as_secs REKEY_ATTEMPT_TIME div as_secs REKEY_TIMEOUT;
          (lo, hi) = max_handshake_attempts t
      in if max_handshake_attempts t = (0, 0) then (classic - 1, g)
         else let (n, g) = random_usize_inclusive R (unat lo) (unat hi) g
              in (min (n + 1) (2 ^ 32 - 1), g))"

section \<open>The configuration\<close>

definition MAX_SENDABLE_DATAGRAM :: nat where "MAX_SENDABLE_DATAGRAM = 65535 - 20 - 8"
definition PADDING_MULTIPLE :: nat where "PADDING_MULTIPLE = 16"
definition DATA_OFFSET_SZ :: nat where "DATA_OFFSET_SZ = 16"
definition DEFAULT_UDP_WINDOW :: u32 where "DEFAULT_UDP_WINDOW = 500"

record amnezia_config =
  init_packet_junk_size :: u16
  response_packet_junk_size :: u16
  cookie_packet_junk_size :: u16
  transport_packet_junk_size :: u16
  cfg_pre_handshake_junk :: pre_handshake_junk
  cfg_imitation :: imitation
  suppress_pre_handshake :: bool
  header_protection :: header_protection_key
  content_padding_addition :: uint_range
  content_padding_mtu :: u16
  cfg_timers :: awg_timers
  random_trailers :: bool
  disable_cookies :: bool

definition config_new :: "u16 \<Rightarrow> u16 \<Rightarrow> u16 \<Rightarrow> u16 \<Rightarrow> amnezia_config" where
  "config_new s1 s2 s3 s4 = \<lparr>
     init_packet_junk_size = s1, response_packet_junk_size = s2,
     cookie_packet_junk_size = s3, transport_packet_junk_size = s4,
     cfg_pre_handshake_junk = pre_handshake_junk_default, cfg_imitation = imitation_default,
     suppress_pre_handshake = False, header_protection = hp_default,
     content_padding_addition = (0, 0), content_padding_mtu = 0, cfg_timers = awg_timers_default,
     random_trailers = False, disable_cookies = False \<rparr>"

definition with_pre_handshake_junk :: "u16 \<Rightarrow> u16 \<Rightarrow> u16 \<Rightarrow> u16 \<Rightarrow> amnezia_config \<Rightarrow> amnezia_config" where
  "with_pre_handshake_junk count lo hi delay c =
     c\<lparr> cfg_pre_handshake_junk := pre_handshake_junk_new count lo hi delay \<rparr>"

definition with_header_protection :: "bytes \<Rightarrow> amnezia_config \<Rightarrow> amnezia_config" where
  "with_header_protection key c = c\<lparr> header_protection := key \<rparr>"

definition norm_range :: "uint_range \<Rightarrow> uint_range" where
  "norm_range r = (min (fst r) (snd r), max (fst r) (snd r))"

definition with_content_padding_addition :: "u32 \<Rightarrow> u32 \<Rightarrow> u16 \<Rightarrow> amnezia_config \<Rightarrow> amnezia_config" where
  "with_content_padding_addition lo hi mtu c =
     c\<lparr> content_padding_addition := (min lo hi, max lo hi), content_padding_mtu := mtu \<rparr>"

definition with_random_trailers :: "bool \<Rightarrow> amnezia_config \<Rightarrow> amnezia_config" where
  "with_random_trailers on c = c\<lparr> random_trailers := on \<rparr>"

definition with_disable_cookies :: "bool \<Rightarrow> amnezia_config \<Rightarrow> amnezia_config" where
  "with_disable_cookies on c = c\<lparr> disable_cookies := on \<rparr>"

definition with_tunable_timers :: "awg_timers \<Rightarrow> amnezia_config \<Rightarrow> amnezia_config" where
  "with_tunable_timers t c = c\<lparr> cfg_timers := \<lparr>
     rekey_after_time = norm_range (rekey_after_time t),
     rekey_timeout = norm_range (rekey_timeout t),
     reject_after_time = norm_range (reject_after_time t),
     keepalive_timeout = norm_range (keepalive_timeout t),
     max_handshake_attempts = norm_range (max_handshake_attempts t) \<rparr> \<rparr>"

definition with_protocol_imitation :: "imitation_protocol \<Rightarrow> bytes option \<Rightarrow> amnezia_config \<Rightarrow> amnezia_config" where
  "with_protocol_imitation protocol domain c =
     c\<lparr> cfg_imitation := imitation_new protocol domain BrDefault \<rparr>"

definition with_protocol_imitation_browser ::
  "imitation_protocol \<Rightarrow> bytes option \<Rightarrow> imitation_browser \<Rightarrow> amnezia_config \<Rightarrow> amnezia_config" where
  "with_protocol_imitation_browser protocol domain browser c =
     c\<lparr> cfg_imitation := imitation_new protocol domain browser \<rparr>"

definition as_responder :: "amnezia_config \<Rightarrow> amnezia_config" where
  "as_responder c = c\<lparr> suppress_pre_handshake := True \<rparr>"

datatype pending_burst_change = KeepBurst | RestartBurst

definition config_pending_burst_change :: "amnezia_config \<Rightarrow> amnezia_config \<Rightarrow> pending_burst_change" where
  "config_pending_burst_change c next =
     (if packet_count (cfg_pre_handshake_junk c) \<noteq> packet_count (cfg_pre_handshake_junk next) \<or>
         cfg_imitation c \<noteq> cfg_imitation next \<or>
         suppress_pre_handshake c \<noteq> suppress_pre_handshake next
      then RestartBurst else KeepBurst)"

definition config_cookie_defense :: "amnezia_config \<Rightarrow> cookie_defense" where
  "config_cookie_defense c = (if disable_cookies c then CookieBypassed else CookieArmed)"

section \<open>Header-protection policy\<close>

datatype config_error =
    NonceTooShort string u16
  | DegenerateNonce string u16
  | PrefixTooLarge string u16 nat
  | ZeroInRange string u32

datatype nonce_class = NonceFull | NonceBounded32 | NonceWeak16 | NonceDegenerate

definition header_protection_enabled :: "amnezia_config \<Rightarrow> bool" where
  "header_protection_enabled c = hp_is_set (header_protection c)"

definition labelled_junk_sizes :: "amnezia_config \<Rightarrow> (string \<times> u16) list" where
  "labelled_junk_sizes c =
     [(''S1'', init_packet_junk_size c), (''S2'', response_packet_junk_size c),
      (''S3'', cookie_packet_junk_size c), (''S4'', transport_packet_junk_size c)]"

definition sip_request_line_prefix :: "amnezia_config \<Rightarrow> (string \<times> u16) option" where
  "sip_request_line_prefix c = find (\<lambda>(_, s). unat s \<ge> SIP_REQUEST_LINE_MIN) (labelled_junk_sizes c)"

definition header_protection_nonce :: "amnezia_config \<Rightarrow> nonce_class option" where
  "header_protection_nonce c =
     (if \<not> header_protection_enabled c then None
      else Some (case im_protocol (cfg_imitation c) of
          ImNone \<Rightarrow> NonceFull
        | ImAuto \<Rightarrow> NonceFull
        | ImQuic \<Rightarrow> NonceFull
        | ImStun \<Rightarrow> NonceBounded32
        | ImDns \<Rightarrow> NonceWeak16
        | ImSip \<Rightarrow> (case sip_request_line_prefix c of
              Some _ \<Rightarrow> NonceDegenerate
            | None \<Rightarrow> NonceFull)))"

text \<open>The complaint by its class: the two weak classes are worded, the others are not.\<close>

definition header_protection_nonce_complaint :: "amnezia_config \<Rightarrow> nonce_class option" where
  "header_protection_nonce_complaint c =
     (case header_protection_nonce c of
        None \<Rightarrow> None
      | Some NonceFull \<Rightarrow> None
      | Some NonceDegenerate \<Rightarrow> None
      | Some NonceBounded32 \<Rightarrow> Some NonceBounded32
      | Some NonceWeak16 \<Rightarrow> Some NonceWeak16)"

definition header_protection_key_hex :: "amnezia_config \<Rightarrow> bytes option" where
  "header_protection_key_hex c = hp_to_hex (header_protection c)"

definition check_header_protection_nonce :: "amnezia_config \<Rightarrow> config_error + unit" where
  "check_header_protection_nonce c =
     (if \<not> header_protection_enabled c then Ok ()
      else case find (\<lambda>(_, junk). unat junk < NONCE_SIZE) (labelled_junk_sizes c) of
        Some (label, junk) \<Rightarrow> Err (NonceTooShort label junk)
      | None \<Rightarrow>
          if header_protection_nonce c = Some NonceDegenerate
          then let (label, sz) = the (sip_request_line_prefix c) in Err (DegenerateNonce label sz)
          else Ok ())"

definition prefix_bases :: "amnezia_config \<Rightarrow> (string \<times> u16 \<times> nat) list" where
  "prefix_bases c =
     [(''S1'', init_packet_junk_size c, HANDSHAKE_INIT_SZ), (''S2'', response_packet_junk_size c, HANDSHAKE_RESP_SZ),
      (''S3'', cookie_packet_junk_size c, COOKIE_REPLY_SZ), (''S4'', transport_packet_junk_size c, DATA_OVERHEAD_SZ)]"

definition duration_ranges :: "amnezia_config \<Rightarrow> (string \<times> uint_range) list" where
  "duration_ranges c =
     (let t = cfg_timers c in
      [(''rekey_after_time'', rekey_after_time t), (''rekey_timeout'', rekey_timeout t),
       (''reject_after_time'', reject_after_time t), (''keepalive_timeout'', keepalive_timeout t)])"

definition validate :: "amnezia_config \<Rightarrow> config_error + unit" where
  "validate c =
     and_then (check_header_protection_nonce c) (\<lambda>_.
       case find (\<lambda>(_, junk, base). unat junk + base > MAX_SENDABLE_DATAGRAM) (prefix_bases c) of
         Some (label, junk, base) \<Rightarrow> Err (PrefixTooLarge label junk base)
       | None \<Rightarrow>
           (case find (\<lambda>(_, lo, hi). (lo, hi) \<noteq> (0, 0) \<and> lo = 0) (duration_ranges c) of
              Some (label, lo, hi) \<Rightarrow> Err (ZeroInRange label hi)
            | None \<Rightarrow> Ok ()))"

datatype ordering_complaint = RejectBeforeRenewal nat nat | LastMinuteWindowZero nat nat

definition timer_ordering_complaint :: "amnezia_config \<Rightarrow> ordering_complaint list option" where
  "timer_ordering_complaint c =
     (let t = cfg_timers c;
          reject_lo = as_secs (timer_lo (reject_after_time t) REJECT_AFTER_TIME);
          rekey_after_hi = as_secs (timer_hi (rekey_after_time t) REKEY_AFTER_TIME);
          rekey_timeout_hi = as_secs (timer_hi (rekey_timeout t) REKEY_TIMEOUT);
          keepalive_hi = as_secs (timer_hi (keepalive_timeout t) KEEPALIVE_TIMEOUT);
          renewal = rekey_after_hi + rekey_timeout_hi;
          last_minute = keepalive_hi + rekey_timeout_hi;
          complaints =
            (if reject_lo < renewal then [RejectBeforeRenewal reject_lo renewal] else []) @
            (if reject_lo \<le> last_minute then [LastMinuteWindowZero reject_lo last_minute] else [])
      in if complaints = [] then None else Some complaints)"

definition resolve_imitation :: "amnezia_config \<Rightarrow> imitation_protocol \<Rightarrow> amnezia_config" where
  "resolve_imitation c protocol =
     (if im_protocol (cfg_imitation c) \<noteq> ImAuto then c
      else
        let protocol = (if protocol = ImAuto then ImNone else protocol);
            resolved = c\<lparr> cfg_imitation := imitation_new protocol None BrDefault \<rparr>
        in if \<not> is_ok (check_header_protection_nonce resolved)
           then resolved\<lparr> cfg_imitation := imitation_default \<rparr>
           else resolved)"

definition has_imitation_sequence :: "amnezia_config \<Rightarrow> bool" where
  "has_imitation_sequence c \<longleftrightarrow> \<not> (im_protocol (cfg_imitation c) = ImNone \<or> im_protocol (cfg_imitation c) = ImAuto)"

definition emits_pre_handshake :: "amnezia_config \<Rightarrow> bool" where
  "emits_pre_handshake c \<longleftrightarrow>
     \<not> suppress_pre_handshake c \<and> im_protocol (cfg_imitation c) \<noteq> ImAuto \<and>
     (junk_is_enabled (cfg_pre_handshake_junk c) \<or> has_imitation_sequence c)"

definition imitation_host :: "'g rng \<Rightarrow> amnezia_config \<Rightarrow> 'g \<Rightarrow> bytes \<times> 'g" where
  "imitation_host R c g =
     (case im_domain (cfg_imitation c) of Some d \<Rightarrow> (d, g) | None \<Rightarrow> random_imitation_domain R g)"


section \<open>Packet kinds and prefix sizes\<close>

datatype packet_kind = HandshakeInit | HandshakeResponse | CookieReply | TransportData

fun inbound_junk_size :: "amnezia_config \<Rightarrow> packet_kind \<Rightarrow> nat" where
  "inbound_junk_size c HandshakeInit = unat (init_packet_junk_size c)"
| "inbound_junk_size c HandshakeResponse = unat (response_packet_junk_size c)"
| "inbound_junk_size c CookieReply = unat (cookie_packet_junk_size c)"
| "inbound_junk_size c TransportData = unat (transport_packet_junk_size c)"

definition outbound_junk_size :: "amnezia_config \<Rightarrow> packet_kind \<Rightarrow> nat" where
  "outbound_junk_size c kind = inbound_junk_size c kind"

definition transport_junk_size :: "amnezia_config \<Rightarrow> nat" where
  "transport_junk_size c = outbound_junk_size c TransportData"

definition handshake_init_junk_size :: "amnezia_config \<Rightarrow> nat" where
  "handshake_init_junk_size c = outbound_junk_size c HandshakeInit"

definition handshake_response_junk_size :: "amnezia_config \<Rightarrow> nat" where
  "handshake_response_junk_size c = outbound_junk_size c HandshakeResponse"

section \<open>Padding\<close>

definition next_multiple_of :: "nat \<Rightarrow> nat \<Rightarrow> nat" where
  "next_multiple_of n m = (if n mod m = 0 then n else n + (m - n mod m))"

definition content_padding :: "'g rng \<Rightarrow> amnezia_config \<Rightarrow> nat \<Rightarrow> nat \<Rightarrow> 'g \<Rightarrow> nat \<times> 'g" where
  "content_padding R c src_len space g =
     (let mtu = unat (content_padding_mtu c);
          last_unit = (if mtu \<noteq> 0 \<and> src_len > mtu then src_len mod mtu else src_len);
          (lo, hi) = content_padding_addition c;
          (want, g) =
            (if lo \<noteq> 0 \<or> hi \<noteq> 0 then random_usize_inclusive R (unat lo) (unat hi) g
             else
               let padded = next_multiple_of last_unit PADDING_MULTIPLE;
                   padded = (if mtu \<noteq> 0 then min padded mtu else padded)
               in (padded - last_unit, g));
          want = (if mtu \<noteq> 0 then min want (mtu - last_unit) else want)
      in (min want space, g))"

definition window_padding :: "'g rng \<Rightarrow> amnezia_config \<Rightarrow> nat \<Rightarrow> u32 \<Rightarrow> 'g \<Rightarrow> nat \<times> 'g" where
  "window_padding R c base udp_window g =
     (let headroom = unat udp_window - base;
          (lo, hi) = content_padding_addition c
      in if lo \<noteq> 0 \<or> hi \<noteq> 0 then
           let (n, g) = random_usize_inclusive R (unat lo) (unat hi) g in (min n headroom, g)
         else optional_below R headroom g)"

definition content_padding_for_frame ::
  "'g rng \<Rightarrow> amnezia_config \<Rightarrow> nat \<Rightarrow> nat \<Rightarrow> nat \<Rightarrow> u32 \<Rightarrow> 'g \<Rightarrow> nat \<times> 'g" where
  "content_padding_for_frame R c src_len dst_len transport_junk udp_window g =
     (let committed = src_len + DATA_OVERHEAD_SZ + transport_junk;
          space = min (dst_len - committed) (MAX_SENDABLE_DATAGRAM - committed)
      in if random_trailers c then
           let (n, g) = window_padding R c committed udp_window g in (min n space, g)
         else content_padding R c src_len space g)"

definition transport_window_observation :: "amnezia_config \<Rightarrow> nat \<Rightarrow> nat" where
  "transport_window_observation c src_len = transport_junk_size c + DATA_OVERHEAD_SZ + src_len"

definition received_window_observation :: "amnezia_config \<Rightarrow> nat \<Rightarrow> nat" where
  "received_window_observation c plaintext_len = transport_junk_size c + DATA_OFFSET_SZ + plaintext_len"

section \<open>Cookie replies\<close>

definition reply_amplifies :: "nat \<Rightarrow> nat \<Rightarrow> bool" where
  "reply_amplifies request_len reply_len \<longleftrightarrow> reply_len > request_len"

definition cookie_reply_len :: "amnezia_config \<Rightarrow> nat \<Rightarrow> nat" where
  "cookie_reply_len c cookie_len = saturating_add cookie_len (outbound_junk_size c CookieReply)"

definition cookie_reply_would_amplify :: "amnezia_config \<Rightarrow> nat \<Rightarrow> nat \<Rightarrow> bool" where
  "cookie_reply_would_amplify c cookie_len request_len =
     reply_amplifies request_len (cookie_reply_len c cookie_len)"

definition cookie_amplification_bounds :: "amnezia_config \<Rightarrow> (string \<times> nat \<times> nat) list" where
  "cookie_amplification_bounds c =
     (let reply = COOKIE_REPLY_SZ + unat (cookie_packet_junk_size c) in
      sort_key (\<lambda>(_, request, _). request)
        (map (\<lambda>(label, junk, base). (label, base + unat junk, reply - base))
          (filter (\<lambda>(_, junk, base). reply > base + unat junk)
            [(''S1'', init_packet_junk_size c, HANDSHAKE_INIT_SZ),
             (''S2'', response_packet_junk_size c, HANDSHAKE_RESP_SZ)])))"

text \<open>
  The complaint's values: S3, the reply, the binding packet with its label and prefix, what each
  violated bound costs, the largest S3 that clears the binding bound and what to raise otherwise.
\<close>

record amplification_complaint =
  ac_s3 :: u16
  ac_reply :: nat
  ac_request :: nat
  ac_which :: string
  ac_which_junk :: nat
  ac_consequences :: "(string \<times> nat) list"
  ac_lower_to :: nat
  ac_raise :: "(string \<times> nat) list"

definition cookie_amplification_complaint :: "amnezia_config \<Rightarrow> amplification_complaint option" where
  "cookie_amplification_complaint c =
     (if disable_cookies c then None
      else
        let bounds = cookie_amplification_bounds c in
        case bounds of
          [] \<Rightarrow> None
        | (which, request, _) # _ \<Rightarrow> Some \<lparr>
            ac_s3 = cookie_packet_junk_size c,
            ac_reply = COOKIE_REPLY_SZ + unat (cookie_packet_junk_size c),
            ac_request = request,
            ac_which = which,
            ac_which_junk = request - (if which = ''S1'' then HANDSHAKE_INIT_SZ else HANDSHAKE_RESP_SZ),
            ac_consequences = map (\<lambda>(label, request, _). (label, request)) bounds,
            ac_lower_to = request - COOKIE_REPLY_SZ,
            ac_raise = map (\<lambda>(label, _, min_junk). (label, min_junk)) bounds \<rparr>)"

section \<open>Junk datagrams\<close>

definition DNS_JUNK_SIZE_MIN :: nat where "DNS_JUNK_SIZE_MIN = 50"
definition DNS_JUNK_SIZE_MAX :: nat where "DNS_JUNK_SIZE_MAX = 200"
definition QUIC_JUNK_SIZE_MIN :: nat where "QUIC_JUNK_SIZE_MIN = 1200"
definition QUIC_JUNK_SIZE_MAX :: nat where "QUIC_JUNK_SIZE_MAX = 1252"
definition SIP_JUNK_SIZE_MIN :: nat where "SIP_JUNK_SIZE_MIN = 200"
definition SIP_JUNK_SIZE_MAX :: nat where "SIP_JUNK_SIZE_MAX = 1200"
definition STUN_JUNK_SIZE_MIN :: nat where "STUN_JUNK_SIZE_MIN = 28"
definition STUN_JUNK_SIZE_MAX :: nat where "STUN_JUNK_SIZE_MAX = 100"

lemmas junk_sizes = DNS_JUNK_SIZE_MIN_def DNS_JUNK_SIZE_MAX_def QUIC_JUNK_SIZE_MIN_def
  QUIC_JUNK_SIZE_MAX_def SIP_JUNK_SIZE_MIN_def SIP_JUNK_SIZE_MAX_def STUN_JUNK_SIZE_MIN_def
  STUN_JUNK_SIZE_MAX_def

definition pre_handshake_junk_size_range :: "amnezia_config \<Rightarrow> nat \<times> nat" where
  "pre_handshake_junk_size_range c =
     (let j = cfg_pre_handshake_junk c;
          configured = (unat (packet_size_min j), unat (packet_size_max j)) in
      case im_protocol (cfg_imitation c) of
        ImNone \<Rightarrow> configured
      | ImAuto \<Rightarrow> configured
      | ImDns \<Rightarrow> (DNS_JUNK_SIZE_MIN, DNS_JUNK_SIZE_MAX)
      | ImQuic \<Rightarrow> (QUIC_JUNK_SIZE_MIN, QUIC_JUNK_SIZE_MAX)
      | ImSip \<Rightarrow> (SIP_JUNK_SIZE_MIN, SIP_JUNK_SIZE_MAX)
      | ImStun \<Rightarrow> (STUN_JUNK_SIZE_MIN, STUN_JUNK_SIZE_MAX))"

definition pre_handshake_junk_range_within :: "amnezia_config \<Rightarrow> output_budget \<Rightarrow> wg_error + (nat \<times> nat)" where
  "pre_handshake_junk_range_within c budget =
     (let protocol_shaped = (im_protocol (cfg_imitation c) \<noteq> ImNone);
          kind = (if protocol_shaped then OtherControl else OrdinaryJunk)
      in junk_range (pre_handshake_junk_size_range c) protocol_shaped (control_for budget kind))"

definition pre_handshake_junk_max_size_in :: "amnezia_config \<Rightarrow> nat \<times> nat \<Rightarrow> nat" where
  "pre_handshake_junk_max_size_in c r =
     (if \<not> junk_is_enabled (cfg_pre_handshake_junk c) then 0 else max (fst r) (snd r))"

text \<open>A panic is \<open>None\<close>; the datagram is the filled start of the buffer.\<close>

definition fill_pre_handshake_junk_in ::
  "'g rng \<Rightarrow> amnezia_config \<Rightarrow> bytes \<Rightarrow> nat \<times> nat \<Rightarrow> 'g \<Rightarrow> ((wg_error + bytes) \<times> 'g) option" where
  "fill_pre_handshake_junk_in R c buffer r g =
     (if \<not> junk_is_enabled (cfg_pre_handshake_junk c) then Some (Ok [], g)
      else
        let (sz, g) = random_usize_inclusive R (fst r) (snd r) g in
        if length buffer < sz then Some (Err DestinationBufferTooSmall, g)
        else do {
          (packet, g) \<leftarrow>
            (let packet = take sz buffer; domain = im_domain (cfg_imitation c) in
             case im_protocol (cfg_imitation c) of
               ImNone \<Rightarrow> Some (fill_random R packet g)
             | ImAuto \<Rightarrow> Some (fill_random R packet g)
             | ImDns \<Rightarrow> fill_dns R packet 0 domain g
             | ImQuic \<Rightarrow> fill_quic_initial R packet g
             | ImSip \<Rightarrow> fill_sip R packet domain g
             | ImStun \<Rightarrow> fill_stun R packet g);
          Some (Ok packet, g) })"

definition fill_pre_handshake_junk ::
  "'g rng \<Rightarrow> amnezia_config \<Rightarrow> bytes \<Rightarrow> 'g \<Rightarrow> ((wg_error + bytes) \<times> 'g) option" where
  "fill_pre_handshake_junk R c buffer g =
     fill_pre_handshake_junk_in R c buffer (pre_handshake_junk_size_range c) g"

definition fill_outbound_junk ::
  "'g rng \<Rightarrow> amnezia_config \<Rightarrow> bytes \<Rightarrow> nat \<Rightarrow> 'g \<Rightarrow> (bytes \<times> 'g) option" where
  "fill_outbound_junk R c dst trailing_size g =
     (case im_protocol (cfg_imitation c) of
        ImNone \<Rightarrow> Some (fill_random R dst g)
      | protocol \<Rightarrow> fill_protocol_like R protocol (im_domain (cfg_imitation c)) dst trailing_size g)"


section \<open>Padding stays within its room\<close>

lemma content_padding_le: "fst (content_padding R c n space g) \<le> space"
  by (simp add: content_padding_def Let_def case_prod_beta)

lemma window_padding_le: "fst (window_padding R c base w g) \<le> unat w - base"
  using random_below_less(1) [of "unat w - base" R g]
  by (cases "unat w - base = 0") (auto simp: random_below_less(2) window_padding_def Let_def case_prod_beta optional_below_def)

lemma next_multiple_of_mod: "0 < m \<Longrightarrow> next_multiple_of n m mod m = 0"
proof -
  assume m: "0 < m"
  have "n + (m - n mod m) = (n div m + 1) * m" if "n mod m \<noteq> 0"
    using mod_less_divisor [OF m, of n] div_mult_mod_eq [of n m] unfolding add_mult_distrib by linarith
  then show ?thesis by (simp add: next_multiple_of_def)
qed

lemma le_next_multiple_of: "n \<le> next_multiple_of n m"
  by (simp add: next_multiple_of_def)

section \<open>Accepted configurations\<close>

lemma labelled_junk_sizes_find:
  "find P (labelled_junk_sizes c) = None \<longleftrightarrow>
     \<not> P (''S1'', init_packet_junk_size c) \<and> \<not> P (''S2'', response_packet_junk_size c) \<and>
     \<not> P (''S3'', cookie_packet_junk_size c) \<and> \<not> P (''S4'', transport_packet_junk_size c)"
  by (auto simp: labelled_junk_sizes_def)

lemma all_kinds:
  "(\<forall>kind. Q kind) \<longleftrightarrow> Q HandshakeInit \<and> Q HandshakeResponse \<and> Q CookieReply \<and> Q TransportData"
  by (metis packet_kind.exhaust)

lemma check_nonce_ok_iff:
  "is_ok (check_header_protection_nonce c) \<longleftrightarrow>
     (header_protection_enabled c \<longrightarrow>
        (\<forall>kind. NONCE_SIZE \<le> inbound_junk_size c kind) \<and>
        (im_protocol (cfg_imitation c) = ImSip \<longrightarrow>
           (\<forall>kind. inbound_junk_size c kind < SIP_REQUEST_LINE_MIN)))"
proof -
  have short: "find (\<lambda>(_, junk). unat junk < NONCE_SIZE) (labelled_junk_sizes c) = None \<longleftrightarrow>
      (\<forall>kind. NONCE_SIZE \<le> inbound_junk_size c kind)"
    unfolding all_kinds labelled_junk_sizes_find by (simp add: not_less)
  have sip: "sip_request_line_prefix c = None \<longleftrightarrow>
      (\<forall>kind. inbound_junk_size c kind < SIP_REQUEST_LINE_MIN)"
    unfolding all_kinds sip_request_line_prefix_def labelled_junk_sizes_find
    by (simp add: not_le)
  have deg: "header_protection_nonce c = Some NonceDegenerate \<longleftrightarrow>
      header_protection_enabled c \<and> im_protocol (cfg_imitation c) = ImSip \<and> sip_request_line_prefix c \<noteq> None"
    by (auto simp: header_protection_nonce_def split: imitation_protocol.splits option.splits)
  show ?thesis
    unfolding short [symmetric] sip [symmetric]
    by (cases "sip_request_line_prefix c") (auto simp: check_header_protection_nonce_def deg Let_def case_prod_beta split: option.splits)
qed

text \<open>The refusal that names a SIP prefix always has one to name.\<close>

lemma degenerate_has_prefix:
  "header_protection_nonce c = Some NonceDegenerate \<Longrightarrow> sip_request_line_prefix c \<noteq> None"
  by (auto simp: header_protection_nonce_def split: imitation_protocol.splits option.splits if_splits)

lemma find_None_list_all: "find P xs = None \<longleftrightarrow> list_all (\<lambda>x. \<not> P x) xs"
  by (auto simp: find_None_iff list_all_iff)

lemma validate_ok_iff:
  "is_ok (validate c) \<longleftrightarrow>
     is_ok (check_header_protection_nonce c) \<and>
     list_all (\<lambda>(_, junk, base). unat junk + base \<le> MAX_SENDABLE_DATAGRAM) (prefix_bases c) \<and>
     list_all (\<lambda>(_, lo, hi). (lo, hi) = (0, 0) \<or> lo \<noteq> 0) (duration_ranges c)"
proof -
  have 1: "list_all (\<lambda>(_, junk, base). unat junk + base \<le> MAX_SENDABLE_DATAGRAM) (prefix_bases c) \<longleftrightarrow>
      find (\<lambda>(_, junk, base). unat junk + base > MAX_SENDABLE_DATAGRAM) (prefix_bases c) = None"
    unfolding find_None_list_all by (simp add: case_prod_unfold not_less)
  have 2: "list_all (\<lambda>(_, lo, hi). (lo, hi) = (0, 0) \<or> lo \<noteq> 0) (duration_ranges c) \<longleftrightarrow>
      find (\<lambda>(_, lo, hi). (lo, hi) \<noteq> (0, 0) \<and> lo = 0) (duration_ranges c) = None"
    unfolding find_None_list_all by (simp add: case_prod_unfold)
  show ?thesis
    unfolding 1 2 validate_def
    by (cases "check_header_protection_nonce c") (auto split: option.splits)
qed

section \<open>Drawn timers\<close>

lemma timer_pick_bounds:
  assumes "fst r \<le> snd r"
  shows "timer_lo r d \<le> fst (timer_pick R r d g)" "fst (timer_pick R r d g) \<le> timer_hi r d"
proof -
  have le: "unat (fst r) \<le> unat (snd r)" using assms by (simp add: word_le_nat_alt)
  show "timer_lo r d \<le> fst (timer_pick R r d g)" "fst (timer_pick R r d g) \<le> timer_hi r d"
    using random_usize_inclusive_bounds(1) [of "unat (fst r)" R "unat (snd r)" g]
      random_usize_inclusive_bounds(2) [of R "unat (fst r)" "unat (snd r)" g] le
    by (simp_all add: timer_pick_def timer_lo_def timer_hi_def Let_def case_prod_beta from_secs_def NANOS_def)
qed

lemma whole_seconds:
  "from_secs (as_secs (timer_lo r (from_secs d))) = timer_lo r (from_secs d)"
  "from_secs (as_secs (timer_hi r (from_secs d))) = timer_hi r (from_secs d)"
  by (simp_all add: timer_lo_def timer_hi_def from_secs_def as_secs_def NANOS_def)

lemma norm_range_ordered [simp]: "fst (norm_range r) \<le> snd (norm_range r)"
  by (auto simp: norm_range_def min_def max_def)

definition timers_ordered :: "awg_timers \<Rightarrow> bool" where
  "timers_ordered t \<longleftrightarrow>
     fst (rekey_after_time t) \<le> snd (rekey_after_time t) \<and>
     fst (rekey_timeout t) \<le> snd (rekey_timeout t) \<and>
     fst (reject_after_time t) \<le> snd (reject_after_time t) \<and>
     fst (keepalive_timeout t) \<le> snd (keepalive_timeout t) \<and>
     fst (max_handshake_attempts t) \<le> snd (max_handshake_attempts t)"

lemma with_tunable_timers_ordered: "timers_ordered (cfg_timers (with_tunable_timers t c))"
  by (simp add: timers_ordered_def with_tunable_timers_def)

section \<open>Cookie amplification\<close>

lemma cookie_amplification_bounds_Nil:
  "cookie_amplification_bounds c = [] \<longleftrightarrow>
     64 + unat (cookie_packet_junk_size c) \<le> 148 + unat (init_packet_junk_size c) \<and>
     64 + unat (cookie_packet_junk_size c) \<le> 92 + unat (response_packet_junk_size c)"
  by (auto simp: cookie_amplification_bounds_def message_sizes Let_def)

lemma cookie_reply_len_small: "cookie_reply_len c 64 = 64 + unat (cookie_packet_junk_size c)"
  using unat_bound [of "cookie_packet_junk_size c"]
  by (simp add: cookie_reply_len_def saturating_add_def outbound_junk_size_def usize_max_def)


lemma content_padding_mtu_bound:
  assumes "content_padding_mtu c \<noteq> 0" "n \<le> unat (content_padding_mtu c)"
  shows "n + fst (content_padding R c n space g) \<le> unat (content_padding_mtu c)"
proof -
  have "unat (content_padding_mtu c) \<noteq> 0" using assms(1) by (simp add: unat_eq_0)
  then show ?thesis
    using assms(2) by (auto simp: content_padding_def Let_def case_prod_beta)
qed

lemma content_padding_rounds:
  assumes "content_padding_mtu c = 0" "content_padding_addition c = (0, 0)" "15 \<le> space"
  shows "fst (content_padding R c n space g) = next_multiple_of n 16 - n \<and> next_multiple_of n 16 - n < 16"
proof -
  have "next_multiple_of n 16 - n \<le> 15" by (auto simp: next_multiple_of_def)
  then show ?thesis
    using assms by (simp add: content_padding_def PADDING_MULTIPLE_def)
qed

lemma from_secs_order:
  "from_secs a \<le> from_secs b \<longleftrightarrow> a \<le> b" "from_secs a < from_secs b \<longleftrightarrow> a < b"
  "from_secs (a + b) = from_secs a + from_secs b"
  by (simp_all add: from_secs_def NANOS_def)

section \<open>Properties\<close>

text \<open>
  C33. Transport padding. A frame that fits the destination and the largest sendable datagram still
  fits both with its padding. With random trailers on, padding never takes the frame past the
  tunnel's UDP window unless it already was past it. With them off, a plaintext within the configured
  MTU stays within it, and with neither an MTU nor a range configured the plaintext is rounded up to
  a multiple of sixteen by fewer than sixteen bytes.
\<close>

theorem transport_padding_bounds:
  assumes "n + 32 + junk \<le> min dst_len 65507"
    and "fst (content_padding_for_frame R c n dst_len junk w g) = pad"
  shows "n + 32 + junk + pad \<le> min dst_len 65507 \<and>
    (random_trailers c \<longrightarrow> n + 32 + junk + pad \<le> max (n + 32 + junk) (unat w)) \<and>
    (\<not> random_trailers c \<and> content_padding_mtu c \<noteq> 0 \<and> n \<le> unat (content_padding_mtu c) \<longrightarrow>
       n + pad \<le> unat (content_padding_mtu c)) \<and>
    (\<not> random_trailers c \<and> content_padding_mtu c = 0 \<and> content_padding_addition c = (0, 0) \<and>
       n + 32 + junk + 15 \<le> min dst_len 65507 \<longrightarrow> (n + pad) mod 16 = 0 \<and> pad < 16)"
proof -
  define space where "space = min (dst_len - (n + 32 + junk)) (65507 - (n + 32 + junk))"
  have M: "MAX_SENDABLE_DATAGRAM = 65507" by (simp add: MAX_SENDABLE_DATAGRAM_def)
  have pad: "pad = (if random_trailers c then min (fst (window_padding R c (n + 32 + junk) w g)) space
      else fst (content_padding R c n space g))"
    using assms(2) unfolding content_padding_for_frame_def space_def Let_def case_prod_beta DATA_OVERHEAD_SZ_def M
    by (cases "random_trailers c") (simp_all only: if_True if_False fst_conv)
  have "pad \<le> space" using pad content_padding_le [of R c n space g] by auto
  then have fits: "n + 32 + junk + pad \<le> min dst_len 65507"
    using assms(1) unfolding space_def by linarith
  have win: "n + 32 + junk + pad \<le> max (n + 32 + junk) (unat w)" if "random_trailers c"
    using that pad window_padding_le [of R c "n + 32 + junk" w g] by simp
  have mtu: "n + pad \<le> unat (content_padding_mtu c)"
    if "\<not> random_trailers c" "content_padding_mtu c \<noteq> 0" "n \<le> unat (content_padding_mtu c)"
    using content_padding_mtu_bound [OF that(2,3), of R space g] that(1) pad by simp
  have "(n + pad) mod 16 = 0 \<and> pad < 16"
    if "\<not> random_trailers c" "content_padding_mtu c = 0" "content_padding_addition c = (0, 0)"
      "n + 32 + junk + 15 \<le> min dst_len 65507"
  proof -
    have "15 \<le> space" using that(4) unfolding space_def by linarith
    from content_padding_rounds [OF that(2,3) this, of R n g]
    show ?thesis
      using that(1) pad le_next_multiple_of [of n 16] next_multiple_of_mod [of 16 n] by simp
  qed
  then show ?thesis using fits win mtu by blast
qed

theorem transport_padding_bounds_witness:
  "(20 + fst (content_padding_for_frame zero_rng (config_new 0 0 0 0) 20 1500 0 500 ())) mod 16 = 0"
  using transport_padding_bounds [of 20 0 1500 zero_rng "config_new 0 0 0 0" 500 "()", OF _ refl]
  by (simp add: config_new_def)

text \<open>
  Resolving an automatic imitation to a learned protocol keeps the configuration acceptable: the
  header-protection policy that held for the configuration holds for the resolved one, whatever was
  learned, the resolved one is never automatic, and nothing but the imitation differs. A fixed
  configuration is unchanged.
\<close>

lemma resolve_imitation_keeps_policy:
  assumes "is_ok (check_header_protection_nonce c)"
  shows "is_ok (check_header_protection_nonce (resolve_imitation c p)) \<and>
    im_protocol (cfg_imitation (resolve_imitation c p)) \<noteq> ImAuto \<and>
    (resolve_imitation c p)\<lparr> cfg_imitation := cfg_imitation c \<rparr> = c \<and>
    (im_protocol (cfg_imitation c) \<noteq> ImAuto \<longrightarrow> resolve_imitation c p = c) \<and>
    (im_protocol (cfg_imitation c) = ImAuto \<and> p \<noteq> ImAuto \<and>
       is_ok (check_header_protection_nonce (c\<lparr> cfg_imitation := imitation_new p None BrDefault \<rparr>)) \<longrightarrow>
       im_protocol (cfg_imitation (resolve_imitation c p)) = p)"
proof -
  have sizes: "inbound_junk_size (c\<lparr> cfg_imitation := i \<rparr>) kind = inbound_junk_size c kind" for i kind
    by (cases kind) simp_all
  have "is_ok (check_header_protection_nonce (c\<lparr> cfg_imitation := imitation_default \<rparr>))"
    using assms unfolding check_nonce_ok_iff sizes
    by (simp add: header_protection_enabled_def imitation_default_def)
  then show ?thesis
    using assms by (auto simp: resolve_imitation_def Let_def imitation_new_def imitation_default_def)
qed

text \<open>
  C34. What the absence of a timer-ordering complaint means for the tunnel, for every draw: a rekey
  that starts at the drawn rekey age completes within its drawn timeout before any drawn rejection
  age and before the key expires, and the age of the last-minute rekey on receive is positive.
\<close>

theorem quiet_timers_renew_in_time:
  assumes "timers_ordered (cfg_timers c)" "timer_ordering_complaint c = None"
    and "t = cfg_timers c"
  shows "fst (key_refresh_sending R t g1) + fst (retransmit_timeout R t g2) \<le>
           fst (timer_pick R (reject_after_time t) REJECT_AFTER_TIME g3) \<and>
         fst (key_refresh_sending R t g1) + fst (retransmit_timeout R t g2) \<le> keychain_expire t \<and>
         0 < fst (key_refresh_receiving R t g3)"
proof -
  have o: "fst (rekey_after_time t) \<le> snd (rekey_after_time t)"
    "fst (rekey_timeout t) \<le> snd (rekey_timeout t)" "fst (reject_after_time t) \<le> snd (reject_after_time t)"
    "fst (keepalive_timeout t) \<le> snd (keepalive_timeout t)"
    using assms(1,3) by (simp_all add: timers_ordered_def)
  let ?rej = "timer_lo (reject_after_time t) REJECT_AFTER_TIME"
  let ?rek = "timer_hi (rekey_after_time t) REKEY_AFTER_TIME"
  let ?to = "timer_hi (rekey_timeout t) REKEY_TIMEOUT"
  let ?ka = "timer_hi (keepalive_timeout t) KEEPALIVE_TIMEOUT"
  have c: "as_secs ?rek + as_secs ?to \<le> as_secs ?rej" "as_secs ?ka + as_secs ?to < as_secs ?rej"
    using assms(2,3) by (auto simp: timer_ordering_complaint_def Let_def split: if_splits)
  have w: "from_secs (as_secs ?rej) = ?rej" "from_secs (as_secs ?rek) = ?rek"
    "from_secs (as_secs ?to) = ?to" "from_secs (as_secs ?ka) = ?ka"
    unfolding timer_consts by (rule whole_seconds)+
  have le: "?rek + ?to \<le> ?rej" "?ka + ?to < ?rej"
    using c w by (metis from_secs_order(1,3), metis from_secs_order(2,3))
  have lohi: "timer_lo r d \<le> timer_hi r d" if "fst r \<le> snd r" for r d
    using le_trans [OF timer_pick_bounds [OF that]] .
  have "fst (key_refresh_sending R t g1) \<le> ?rek" "fst (retransmit_timeout R t g2) \<le> ?to"
    "?rej \<le> fst (timer_pick R (reject_after_time t) REJECT_AFTER_TIME g3)"
    using o timer_pick_bounds by (simp_all add: key_refresh_sending_def retransmit_timeout_def)
  moreover have "?rej \<le> keychain_expire t"
    using lohi [OF o(3)] by (simp add: keychain_expire_def)
  moreover have "timer_lo (keepalive_timeout t) KEEPALIVE_TIMEOUT \<le> ?ka"
    "timer_lo (rekey_timeout t) REKEY_TIMEOUT \<le> ?to"
    using lohi [OF o(4)] lohi [OF o(2)] by simp_all
  ultimately show ?thesis
    using le by (simp add: key_refresh_receiving_def Let_def case_prod_beta)
qed

theorem quiet_timers_renew_in_time_witness:
  "timer_ordering_complaint (config_new 0 0 0 0) = None \<and>
   0 < fst (key_refresh_receiving zero_rng awg_timers_default ())"
proof -
  have q: "timer_ordering_complaint (config_new 0 0 0 0) = None"
    by (simp add: timer_ordering_complaint_def config_new_def awg_timers_default_def timer_lo_def
        timer_hi_def timer_consts as_secs_def from_secs_def NANOS_def)
  have "timers_ordered (cfg_timers (config_new 0 0 0 0))"
    by (simp add: timers_ordered_def config_new_def awg_timers_default_def)
  then show ?thesis
    using q quiet_timers_renew_in_time [of "config_new 0 0 0 0" awg_timers_default zero_rng "()" "()" "()"]
    by (simp add: config_new_def)
qed

text \<open>
  The cookie-amplification complaint. With cookies on, there is no complaint exactly when neither
  a minimum-size initiation nor a minimum-size response gets an amplifying cookie reply; and where
  there is one, both remedies it offers work in one pass, whichever bounds were violated: lowering S3
  to the named value, and raising the named prefixes to the named sizes.
\<close>

lemma amplification_advice_works:
  assumes "\<not> disable_cookies c"
  shows "(cookie_amplification_complaint c = None \<longleftrightarrow>
      \<not> cookie_reply_would_amplify c 64 (148 + unat (init_packet_junk_size c)) \<and>
      \<not> cookie_reply_would_amplify c 64 (92 + unat (response_packet_junk_size c))) \<and>
    (\<forall>a. cookie_amplification_complaint c = Some a \<longrightarrow>
      cookie_amplification_complaint (c\<lparr> cookie_packet_junk_size := of_nat (ac_lower_to a) \<rparr>) = None \<and>
      cookie_amplification_complaint
        (c\<lparr> init_packet_junk_size :=
              (case map_of (ac_raise a) ''S1'' of Some n \<Rightarrow> of_nat n | None \<Rightarrow> init_packet_junk_size c),
            response_packet_junk_size :=
              (case map_of (ac_raise a) ''S2'' of Some n \<Rightarrow> of_nat n | None \<Rightarrow> response_packet_junk_size c) \<rparr>)
        = None)"
proof -
  let ?s1 = "unat (init_packet_junk_size c)" and ?s2 = "unat (response_packet_junk_size c)"
    and ?s3 = "unat (cookie_packet_junk_size c)"
  have none: "cookie_amplification_complaint d = None \<longleftrightarrow> cookie_amplification_bounds d = []"
    if "\<not> disable_cookies d" for d
    using that by (simp add: cookie_amplification_complaint_def Let_def split: list.splits prod.splits)
  have b: "?s1 < 65536" "?s2 < 65536" "?s3 < 65536"
    using unat_bound [of "init_packet_junk_size c"] unat_bound [of "response_packet_junk_size c"]
      unat_bound [of "cookie_packet_junk_size c"] by simp_all
  have first: "cookie_amplification_complaint c = None \<longleftrightarrow> 64 + ?s3 \<le> 148 + ?s1 \<and> 64 + ?s3 \<le> 92 + ?s2"
    using none [OF assms] cookie_amplification_bounds_Nil by simp
  have some: "cookie_amplification_complaint (c\<lparr> cookie_packet_junk_size := of_nat (ac_lower_to a) \<rparr>) = None \<and>
      cookie_amplification_complaint
        (c\<lparr> init_packet_junk_size :=
              (case map_of (ac_raise a) ''S1'' of Some n \<Rightarrow> of_nat n | None \<Rightarrow> init_packet_junk_size c),
            response_packet_junk_size :=
              (case map_of (ac_raise a) ''S2'' of Some n \<Rightarrow> of_nat n | None \<Rightarrow> response_packet_junk_size c) \<rparr>)
        = None" if a: "cookie_amplification_complaint c = Some a" for a
  proof -
    have cases: "cookie_amplification_bounds c =
      (let x = (''S1'', 148 + ?s1, ?s3 + 64 - 148); y = (''S2'', 92 + ?s2, ?s3 + 64 - 92) in
       if 148 + ?s1 < 64 + ?s3 then
         if 92 + ?s2 < 64 + ?s3 then if 148 + ?s1 \<le> 92 + ?s2 then [x, y] else [y, x] else [x]
       else if 92 + ?s2 < 64 + ?s3 then [y] else [])"
      by (simp add: cookie_amplification_bounds_def message_sizes Let_def add.commute)
    show ?thesis
      using a assms b
      by (subst (1 2) none)
        (auto simp: cookie_amplification_complaint_def cases Let_def cookie_amplification_bounds_Nil
          unat_u16_of_nat message_sizes simp del: of_nat_add of_nat_diff split: if_splits)
  qed
  show ?thesis
    using first some by (simp add: cookie_reply_would_amplify_def reply_amplifies_def cookie_reply_len_small not_less)
qed

end
