(* ===== verification/Framing.thy ===== *)
theory Framing
  imports Amnezia_Config
begin

text \<open>
  AmneziaWG framing (\<open>noise/amnezia.rs\<close>): how an outgoing packet gets its S prefix, its header
  protection and its random trailer, and every way an inbound datagram can be read.

  The lemmas show that framing never panics and fails only for a short buffer or a prefix that cannot
  hold the nonce, that the receiver's candidate list always contains the reading that recovers the
  framed packet, that the optional bytes respect every ceiling (so that a cookie reply is never larger
  than the datagram that provoked it), and that on plain WireGuard settings the candidate list agrees
  with the packet parser.
\<close>

section \<open>Room for a trailer\<close>

record trailer_room =
  tr_udp_window :: u32
  tr_max_wire :: nat

definition trailer_room_window :: "u32 \<Rightarrow> trailer_room" where
  "trailer_room_window udp_window = \<lparr> tr_udp_window = udp_window, tr_max_wire = usize_max \<rparr>"

definition trailer_room_cookie_reply :: "nat \<Rightarrow> trailer_room" where
  "trailer_room_cookie_reply request_len =
     \<lparr> tr_udp_window = DEFAULT_UDP_WINDOW, tr_max_wire = request_len \<rparr>"

definition trailer_room_within :: "nat \<Rightarrow> trailer_room \<Rightarrow> trailer_room" where
  "trailer_room_within max_wire r = r\<lparr> tr_max_wire := min (tr_max_wire r) max_wire \<rparr>"

definition trailer_len ::
  "'g rng \<Rightarrow> amnezia_config \<Rightarrow> packet_kind \<Rightarrow> nat \<Rightarrow> nat \<Rightarrow> trailer_room option \<Rightarrow> 'g \<Rightarrow> nat \<times> 'g" where
  "trailer_len R c kind base buffer_len room g =
     (case room of
        None \<Rightarrow> (0, g)
      | Some room \<Rightarrow>
          if \<not> random_trailers c \<or> kind = TransportData then (0, g)
          else
            let headroom = unat (tr_udp_window room) - base;
                ceil = min (min buffer_len MAX_SENDABLE_DATAGRAM) (tr_max_wire room) - base
            in optional_below R (min headroom (saturating_add ceil 1)) g)"

section \<open>Reading a datagram\<close>

definition read_tag_masked :: "bytes \<Rightarrow> nat \<Rightarrow> bytes \<Rightarrow> u32 option" where
  "read_tag_masked packet offset mk =
     (if offset + 4 \<le> length packet
      then Some (u32_from_le (map2 xor (slice offset (offset + 4) packet) mk)) else None)"

definition zero_mask :: bytes where "zero_mask = replicate TYPE_MASK_SIZE 0"

definition read_tag :: "bytes \<Rightarrow> nat \<Rightarrow> u32 option" where
  "read_tag packet offset = read_tag_masked packet offset zero_mask"

fun tag_matches :: "obfuscation_ranges \<Rightarrow> packet_kind \<Rightarrow> u32 \<Rightarrow> bool" where
  "tag_matches obf HandshakeInit tag = matches_h1 obf tag"
| "tag_matches obf HandshakeResponse tag = matches_h2 obf tag"
| "tag_matches obf CookieReply tag = matches_h3 obf tag"
| "tag_matches obf TransportData tag = matches_h4 obf tag"

record inbound_candidate =
  ic_kind :: packet_kind
  ic_offset :: nat
  ic_message_len :: nat
  ic_wire_len :: nat
  ic_protected :: bool

type_synonym inbound_candidates = "inbound_candidate option list"

text \<open>The kinds in trial order; transport has a minimum size and no exact one.\<close>

definition trial_order :: "(packet_kind \<times> nat option) list" where
  "trial_order = [(HandshakeInit, Some HANDSHAKE_INIT_SZ), (HandshakeResponse, Some HANDSHAKE_RESP_SZ),
     (CookieReply, Some COOKIE_REPLY_SZ), (TransportData, None)]"

definition candidate_for ::
  "amnezia_config \<Rightarrow> obfuscation_ranges \<Rightarrow> bytes \<Rightarrow> bytes \<Rightarrow> bool \<Rightarrow> packet_kind \<times> nat option \<Rightarrow>
   inbound_candidate option" where
  "candidate_for c obf datagram mk protected entry =
     (let (kind, exact_len) = entry;
          wire_len = length datagram;
          offset = inbound_junk_size c kind;
          (fits, message_len) =
            (case exact_len of
               Some len \<Rightarrow> if random_trailers c then (wire_len \<ge> offset + len, len)
                          else (wire_len = offset + len, len)
             | None \<Rightarrow> (wire_len \<ge> offset + DATA_OVERHEAD_SZ, wire_len - offset))
      in if \<not> fits \<or> (protected \<and> offset < NONCE_SIZE) then None
         else if (case read_tag_masked datagram offset mk of
                    Some tag \<Rightarrow> tag_matches obf kind tag
                  | None \<Rightarrow> False)
         then Some \<lparr> ic_kind = kind, ic_offset = offset, ic_message_len = message_len,
                     ic_wire_len = wire_len, ic_protected = protected \<rparr>
         else None)"

definition candidates_under_mask ::
  "amnezia_config \<Rightarrow> obfuscation_ranges \<Rightarrow> bytes \<Rightarrow> bytes \<Rightarrow> bool \<Rightarrow> inbound_candidates" where
  "candidates_under_mask c obf datagram mk protected =
     map (candidate_for c obf datagram mk protected) trial_order"

definition inbound_candidates ::
  "stream_cipher \<Rightarrow> amnezia_config \<Rightarrow> obfuscation_ranges \<Rightarrow> bytes \<Rightarrow> inbound_candidates" where
  "inbound_candidates C c obf datagram =
     (if \<not> header_protection_enabled c then candidates_under_mask c obf datagram zero_mask False
      else case type_mask C (header_protection c) datagram of
        Some mk \<Rightarrow> candidates_under_mask c obf datagram mk True
      | None \<Rightarrow> replicate 4 None)"

definition candidates_is_empty :: "inbound_candidates \<Rightarrow> bool" where
  "candidates_is_empty cs = list_all (\<lambda>x. x = None) cs"

definition candidates_iter :: "inbound_candidates \<Rightarrow> inbound_candidate list" where
  "candidates_iter cs = map the (filter (\<lambda>x. x \<noteq> None) cs)"

fun masked_len :: "packet_kind \<Rightarrow> nat \<Rightarrow> nat" where
  "masked_len TransportData message_len = 16"
| "masked_len HandshakeInit message_len = message_len"
| "masked_len HandshakeResponse message_len = message_len"
| "masked_len CookieReply message_len = message_len"

definition candidate_message ::
  "stream_cipher \<Rightarrow> amnezia_config \<Rightarrow> bytes \<Rightarrow> inbound_candidate \<Rightarrow> bytes option" where
  "candidate_message C c datagram cand =
     (if length datagram < ic_offset cand + ic_message_len cand then None
      else
        let message = slice (ic_offset cand) (ic_offset cand + ic_message_len cand) datagram in
        if \<not> ic_protected cand then Some message
        else
          let (ok, scratch) = unmask_detached C (header_protection c) datagram message
                (masked_len (ic_kind cand) (ic_message_len cand))
          in if \<not> ok then None else Some scratch)"

section \<open>Framing a packet\<close>

definition classify_outbound :: "obfuscation_ranges \<Rightarrow> bytes \<Rightarrow> packet_kind option" where
  "classify_outbound obf packet =
     (case read_tag packet 0 of
        None \<Rightarrow> None
      | Some tag \<Rightarrow>
          if length packet = HANDSHAKE_INIT_SZ \<and> matches_h1 obf tag then Some HandshakeInit
          else if length packet = HANDSHAKE_RESP_SZ \<and> matches_h2 obf tag then Some HandshakeResponse
          else if length packet = COOKIE_REPLY_SZ \<and> matches_h3 obf tag then Some CookieReply
          else if length packet \<ge> DATA_OVERHEAD_SZ \<and> matches_h4 obf tag then Some TransportData
          else None)"

definition UPSTREAM_CONTROL_KINDS :: "(packet_kind \<times> nat) list" where
  "UPSTREAM_CONTROL_KINDS = [(HandshakeInit, HANDSHAKE_INIT_SZ), (HandshakeResponse, HANDSHAKE_RESP_SZ),
     (CookieReply, COOKIE_REPLY_SZ)]"

definition UPSTREAM_COLLISION_CANDIDATES :: nat where "UPSTREAM_COLLISION_CANDIDATES = 16"

definition upstream_control_length_fits :: "amnezia_config \<Rightarrow> packet_kind \<Rightarrow> nat \<Rightarrow> nat \<Rightarrow> bool" where
  "upstream_control_length_fits c kind base wire_len =
     (let need = inbound_junk_size c kind + base
      in if random_trailers c then wire_len \<ge> need else wire_len = need)"

definition imitation_redraw_avoids_upstream_collisions :: "amnezia_config \<Rightarrow> bool" where
  "imitation_redraw_avoids_upstream_collisions c =
     (case im_protocol (cfg_imitation c) of
        ImSip \<Rightarrow> sip_request_line_prefix c = None
      | _ \<Rightarrow> True)"

definition upstream_collision_applies :: "amnezia_config \<Rightarrow> packet_kind \<Rightarrow> nat \<Rightarrow> bool" where
  "upstream_collision_applies c kind wire_len \<longleftrightarrow>
     kind = TransportData \<and> header_protection_enabled c \<and>
     imitation_redraw_avoids_upstream_collisions c \<and>
     list_ex (\<lambda>(control, base). upstream_control_length_fits c control base wire_len) UPSTREAM_CONTROL_KINDS"

definition upstream_control_collision ::
  "amnezia_config \<Rightarrow> obfuscation_ranges \<Rightarrow> bytes \<Rightarrow> bytes \<Rightarrow> bool" where
  "upstream_control_collision c obf datagram mk =
     list_ex (\<lambda>(kind, base).
       upstream_control_length_fits c kind base (length datagram) \<and>
       (case read_tag_masked datagram (inbound_junk_size c kind) mk of
          Some tag \<Rightarrow> tag_matches obf kind tag
        | None \<Rightarrow> False)) UPSTREAM_CONTROL_KINDS"

text \<open>
  The redraw loop: the first argument counts the framings that may still be tried after the one at
  hand, so the loop of the source starts it at one less than \<open>UPSTREAM_COLLISION_CANDIDATES\<close>.
\<close>

fun avoid_upstream_control_collision ::
  "nat \<Rightarrow> 'g rng \<Rightarrow> stream_cipher \<Rightarrow> amnezia_config \<Rightarrow> obfuscation_ranges \<Rightarrow> bytes \<Rightarrow> nat \<Rightarrow> bytes \<Rightarrow> 'g \<Rightarrow>
   (bytes \<times> 'g) option" where
  "avoid_upstream_control_collision 0 R C c obf datagram junk_size canonical g = Some (datagram, g)"
| "avoid_upstream_control_collision (Suc left) R C c obf datagram junk_size canonical g =
     (let mk = map2 xor (take TYPE_MASK_SIZE canonical)
                 (slice junk_size (junk_size + TYPE_MASK_SIZE) datagram)
      in if \<not> upstream_control_collision c obf datagram mk then Some (datagram, g)
         else
           let datagram = copy_at junk_size canonical datagram;
               len = length datagram
           in do {
             (junk, g) \<leftarrow> fill_outbound_junk R c (take junk_size datagram) (len - junk_size) g;
             avoid_upstream_control_collision left R C c obf
               (snd (mask_outbound C (header_protection c) (junk @ drop junk_size datagram) junk_size DATA_OFFSET_SZ))
               junk_size canonical g })"

text \<open>The framed datagram is the start of the buffer; a panic is \<open>None\<close>.\<close>

definition prepend_outbound_with_trailer ::
  "'g rng \<Rightarrow> stream_cipher \<Rightarrow> amnezia_config \<Rightarrow> obfuscation_ranges \<Rightarrow> bytes \<Rightarrow> nat \<Rightarrow> trailer_room option \<Rightarrow> 'g \<Rightarrow>
   ((wg_error + bytes) \<times> 'g) option" where
  "prepend_outbound_with_trailer R C c obf buffer packet_size room g =
     (if length buffer < packet_size then Some (Err DestinationBufferTooSmall, g)
      else
        let packet = take packet_size buffer in
        case classify_outbound obf packet of
          None \<Rightarrow> Some (Ok packet, g)
        | Some kind \<Rightarrow>
            let junk_size = outbound_junk_size c kind in
            (case checked_add packet_size junk_size of
               None \<Rightarrow> Some (Err DestinationBufferTooSmall, g)
             | Some new_size \<Rightarrow>
                 let (trailer, g) = trailer_len R c kind new_size (length buffer) room g in
                 if junk_size = 0 \<and> \<not> header_protection_enabled c \<and> trailer = 0 then Some (Ok packet, g)
                 else if length buffer < new_size then Some (Err DestinationBufferTooSmall, g)
                 else
                   let buffer = copy_at junk_size packet buffer in do {
                     (junk, g) \<leftarrow> fill_outbound_junk R c (take junk_size buffer) packet_size g;
                     let buffer = junk @ drop junk_size buffer;
                         (ok, framed) = mask_outbound C (header_protection c) (take new_size buffer) junk_size
                           (masked_len kind packet_size)
                     in if \<not> ok then Some (Err DestinationBufferTooSmall, g)
                        else do {
                          (framed, g) \<leftarrow>
                            (if upstream_collision_applies c kind (new_size + trailer)
                             then avoid_upstream_control_collision (UPSTREAM_COLLISION_CANDIDATES - 1) R C c obf
                                    framed junk_size (slice junk_size (junk_size + DATA_OFFSET_SZ) buffer) g
                             else Some (framed, g));
                          let (suffix, g) = fill_random R (slice new_size (new_size + trailer) buffer) g
                          in Some (Ok (framed @ suffix), g) } }))"

section \<open>Ceilings on the optional bytes\<close>

lemma optional_below_bound: "fst (optional_below R n g) = 0 \<or> fst (optional_below R n g) < n"
  using random_below_less(1) [of n R g] by (cases "n = 0") (simp_all add: optional_below_def random_below_def)

lemma trailer_len_bounds:
  assumes "trailer_len R c kind base buffer_len room g = (t, g')"
  shows "t \<le> buffer_len - base"
    and "t \<le> MAX_SENDABLE_DATAGRAM - base"
    and "room = Some r \<Longrightarrow> t \<le> tr_max_wire r - base"
    and "room = Some r \<Longrightarrow> t = 0 \<or> base + t < unat (tr_udp_window r)"
    and "kind = TransportData \<Longrightarrow> t = 0" and "\<not> random_trailers c \<Longrightarrow> t = 0"
proof -
  have "t = 0 \<or> (\<exists>r. room = Some r \<and>
      t < min (unat (tr_udp_window r) - base)
        (saturating_add (min (min buffer_len MAX_SENDABLE_DATAGRAM) (tr_max_wire r) - base) 1))"
  proof (cases "t = 0")
    case False
    then obtain r where r: "room = Some r" "optional_below R (min (unat (tr_udp_window r) - base)
        (saturating_add (min (min buffer_len MAX_SENDABLE_DATAGRAM) (tr_max_wire r) - base) 1)) g = (t, g')"
      using assms by (auto simp: trailer_len_def Let_def split: option.splits if_splits)
    then show ?thesis using optional_below_bound [of R _ g] False by (metis fst_conv)
  qed simp
  then show "t \<le> buffer_len - base" "t \<le> MAX_SENDABLE_DATAGRAM - base"
    "room = Some r \<Longrightarrow> t \<le> tr_max_wire r - base"
    "room = Some r \<Longrightarrow> t = 0 \<or> base + t < unat (tr_udp_window r)"
    by (auto simp: saturating_add_def)
  show "kind = TransportData \<Longrightarrow> t = 0" "\<not> random_trailers c \<Longrightarrow> t = 0"
    using assms by (auto simp: trailer_len_def split: option.splits)
qed

lemma fill_outbound_junk_fills: "fills (length dst) (fill_outbound_junk R c dst n g)"
  unfolding fill_outbound_junk_def
  by (cases "im_protocol (cfg_imitation c)") (simp_all add: fill_protocol_like_fills)

section \<open>The shape of a frame\<close>

definition is_frame :: "stream_cipher \<Rightarrow> amnezia_config \<Rightarrow> packet_kind \<Rightarrow> bytes \<Rightarrow> bytes \<Rightarrow> bool" where
  "is_frame C c kind packet d \<longleftrightarrow>
     (\<exists>prefix. length prefix = outbound_junk_size c kind \<and>
        d = prefix @ masked C (header_protection c) (take NONCE_SIZE prefix)
              (masked_len kind (length packet)) packet)"

lemma classify_outbound_facts:
  assumes "classify_outbound obf packet = Some kind"
  shows "32 \<le> length packet" "masked_len kind (length packet) \<le> length packet"
    "4 \<le> masked_len kind (length packet)" "tag_matches obf kind (u32_from_le (take 4 packet))"
    "kind \<noteq> TransportData \<Longrightarrow> (kind, Some (length packet)) \<in> set trial_order"
proof -
  have "map2 xor (take 4 packet) (replicate 4 0) = take 4 packet" if "4 \<le> length packet"
    using that by (intro nth_equalityI) simp_all
  then have tag: "read_tag packet 0 = Some t \<Longrightarrow> t = u32_from_le (take 4 packet)" for t
    by (auto simp: read_tag_def read_tag_masked_def zero_mask_def TYPE_MASK_SIZE_def slice_def split: if_splits)
  show "32 \<le> length packet" "masked_len kind (length packet) \<le> length packet"
    "4 \<le> masked_len kind (length packet)" "tag_matches obf kind (u32_from_le (take 4 packet))"
    "kind \<noteq> TransportData \<Longrightarrow> (kind, Some (length packet)) \<in> set trial_order"
    using assms tag
    by (auto simp: classify_outbound_def message_sizes trial_order_def split: option.splits if_splits)
qed

lemma mask_makes_frame:
  assumes "length prefix = outbound_junk_size c kind"
    and "header_protection_enabled c \<Longrightarrow> NONCE_SIZE \<le> outbound_junk_size c kind"
    and "masked_len kind (length packet) \<le> length packet"
  shows "fst (mask_outbound C (header_protection c) (prefix @ packet) (outbound_junk_size c kind)
            (masked_len kind (length packet)))"
    and "is_frame C c kind packet (snd (mask_outbound C (header_protection c) (prefix @ packet)
            (outbound_junk_size c kind) (masked_len kind (length packet))))"
  using mask_outbound_prefix [of "header_protection c" prefix "masked_len kind (length packet)" packet C] assms
  by (auto simp: is_frame_def header_protection_enabled_def)

lemma restore_header:
  assumes "is_frame C c TransportData packet d" "16 \<le> length packet"
  obtains prefix where "length prefix = outbound_junk_size c TransportData"
    "copy_at (outbound_junk_size c TransportData) (take 16 packet) d = prefix @ packet"
proof -
  from assms(1) obtain prefix where p: "length prefix = outbound_junk_size c TransportData"
    "d = prefix @ masked C (header_protection c) (take NONCE_SIZE prefix) 16 packet"
    by (auto simp: is_frame_def)
  have "drop 16 (masked C (header_protection c) (take NONCE_SIZE prefix) 16 packet) = drop 16 packet"
    using assms(2) by (simp add: masked_def)
  then have "copy_at (outbound_junk_size c TransportData) (take 16 packet) d = prefix @ packet"
    using p assms(2) by (simp add: copy_at_def)
  with p(1) show thesis by (rule that)
qed

lemma avoid_keeps_frame:
  assumes "header_protection_enabled c \<Longrightarrow> NONCE_SIZE \<le> outbound_junk_size c TransportData"
    and "32 \<le> length packet"
  shows "is_frame C c TransportData packet d \<Longrightarrow>
    \<exists>d' g'. avoid_upstream_control_collision n R C c obf d (outbound_junk_size c TransportData)
        (take 16 packet) g = Some (d', g') \<and> is_frame C c TransportData packet d'"
proof (induction n arbitrary: d g)
  case (Suc n)
  let ?j = "outbound_junk_size c TransportData"
  obtain prefix where p: "length prefix = ?j" "copy_at ?j (take 16 packet) d = prefix @ packet"
    by (rule restore_header [OF Suc.prems]) (use assms(2) in auto)
  obtain junk g1 where f: "fill_outbound_junk R c prefix (length packet) g = Some (junk, g1)"
    "length junk = ?j"
    using fill_outbound_junk_fills [of prefix R c "length packet" g] p(1) by (auto simp: fills_def)
  have fr: "is_frame C c TransportData packet
      (snd (mask_outbound C (header_protection c) (junk @ packet) ?j 16))"
    using mask_makes_frame(2) [of junk c TransportData packet C] f(2) assms by simp
  show ?case
    using Suc.IH [OF fr] Suc.prems f p by (simp add: Let_def DATA_OFFSET_SZ_def)
qed auto

lemma frame_length: "is_frame C c kind packet d \<Longrightarrow> length d = outbound_junk_size c kind + length packet"
  by (auto simp: is_frame_def)

text \<open>Framing, when the mandatory bytes fit and a set key finds its nonce: no panic, no error.\<close>

lemma prepend_frames:
  assumes n: "n \<le> length buffer" "length buffer \<le> usize_max"
    and k: "classify_outbound obf (take n buffer) = Some kind"
    and fits: "outbound_junk_size c kind + n \<le> length buffer"
    and hp: "header_protection_enabled c \<Longrightarrow> NONCE_SIZE \<le> outbound_junk_size c kind"
  obtains d suffix g' where
    "prepend_outbound_with_trailer R C c obf buffer n room g = Some (Ok (d @ suffix), g')"
    "is_frame C c kind (take n buffer) d"
    "length suffix = fst (trailer_len R c kind (n + outbound_junk_size c kind) (length buffer) room g)"
proof -
  let ?j = "outbound_junk_size c kind" and ?p = "take n buffer"
  obtain t g1 where t: "trailer_len R c kind (n + ?j) (length buffer) room g = (t, g1)"
    by (cases "trailer_len R c kind (n + ?j) (length buffer) room g")
  have add: "checked_add n ?j = Some (n + ?j)" using fits n by (simp add: checked_add_def)
  have lp: "length ?p = n" using n by simp
  note facts = classify_outbound_facts [OF k]
  show thesis
  proof (cases "?j = 0 \<and> \<not> header_protection_enabled c \<and> t = 0")
    case True
    have "is_frame C c kind ?p ?p"
      using True by (simp add: is_frame_def masked_def header_protection_enabled_def)
    moreover have "prepend_outbound_with_trailer R C c obf buffer n room g = Some (Ok (?p @ []), g1)"
      using True n k add t unfolding prepend_outbound_with_trailer_def by (simp add: Let_def)
    ultimately show thesis using that [of ?p "[]" g1] True t by simp
  next
    case False
    let ?b = "copy_at ?j ?p buffer"
    have b: "length ?b = length buffer" "drop ?j (take (n + ?j) ?b) = ?p"
      using fits n by (simp_all add: copy_at_def)
    obtain junk g2 where f: "fill_outbound_junk R c (take ?j ?b) n g1 = Some (junk, g2)" "length junk = ?j"
      using fill_outbound_junk_fills [of "take ?j ?b" R c n g1] fits b(1) by (auto simp: fills_def)
    have whole: "take (n + ?j) (junk @ drop ?j ?b) = junk @ ?p"
      using f(2) b(2) by (simp add: take_drop add.commute)
    obtain ok d where m: "mask_outbound C (header_protection c) (junk @ ?p) ?j (masked_len kind n) = (ok, d)"
      by (cases "mask_outbound C (header_protection c) (junk @ ?p) ?j (masked_len kind n)")
    have d: ok "is_frame C c kind ?p d"
      using mask_makes_frame [OF f(2) hp, of ?p C] facts(2) m lp by simp_all
    obtain d' g3 where a:
      "(if upstream_collision_applies c kind (n + ?j + t)
        then avoid_upstream_control_collision (UPSTREAM_COLLISION_CANDIDATES - 1) R C c obf d ?j
               (slice ?j (?j + DATA_OFFSET_SZ) (junk @ drop ?j ?b)) g2
        else Some (d, g2)) = Some (d', g3)" "is_frame C c kind ?p d'"
    proof (cases "upstream_collision_applies c kind (n + ?j + t)")
      case True
      then have kd: "kind = TransportData" by (simp add: upstream_collision_applies_def)
      have "slice ?j (?j + 16) (junk @ drop ?j ?b) = take 16 ?p"
        using f(2) b(2) facts(1) lp by (simp add: slice_def copy_at_def take_drop)
      then show thesis
        using that avoid_keeps_frame [of c ?p C d "UPSTREAM_COLLISION_CANDIDATES - 1" R obf g2] True d(2) hp facts(1) lp
        unfolding kd by (auto simp: DATA_OFFSET_SZ_def)
    next
      case False
      then show thesis using that d by simp
    qed
    obtain suffix g4 where s: "fill_random R (slice (n + ?j) (n + ?j + t) (junk @ drop ?j ?b)) g3 = (suffix, g4)"
      by (cases "fill_random R (slice (n + ?j) (n + ?j + t) (junk @ drop ?j ?b)) g3")
    have "t \<le> length buffer - (n + ?j)" by (rule trailer_len_bounds(1) [OF t])
    then have "length (slice (n + ?j) (n + ?j + t) (junk @ drop ?j ?b)) = t"
      using f(2) b(1) fits by simp
    then have ls: "length suffix = t" using length_fill_random [of R _ g3] s by (metis fst_conv)
    have "prepend_outbound_with_trailer R C c obf buffer n room g = Some (Ok (d' @ suffix), g4)"
      using False n fits k add t f m whole d(1) a(1) s unfolding prepend_outbound_with_trailer_def
      by (simp add: Let_def) (metis less_irrefl)
    then show thesis using that [of d' suffix g4] a(2) ls t by simp
  qed
qed


section \<open>Reading a frame back\<close>

definition agree_on :: "packet_kind \<Rightarrow> amnezia_config \<Rightarrow> amnezia_config \<Rightarrow> bool" where
  "agree_on kind c c' \<longleftrightarrow> inbound_junk_size c' kind = inbound_junk_size c kind \<and>
     header_protection c' = header_protection c \<and> (random_trailers c \<longrightarrow> random_trailers c')"

lemma frame_reading:
  assumes fr: "is_frame C c kind packet d" and k: "classify_outbound obf packet = Some kind"
    and hp: "header_protection_enabled c \<Longrightarrow> NONCE_SIZE \<le> inbound_junk_size c kind"
    and ag: "agree_on kind c c'"
    and s: "suffix = [] \<or> random_trailers c \<and> kind \<noteq> TransportData"
  defines "cand \<equiv> \<lparr> ic_kind = kind, ic_offset = inbound_junk_size c kind, ic_message_len = length packet,
                    ic_wire_len = length (d @ suffix), ic_protected = header_protection_enabled c \<rparr>"
  shows "Some cand \<in> set (inbound_candidates C c' obf (d @ suffix))"
    and "candidate_message C c' (d @ suffix) cand = Some packet"
proof -
  let ?key = "header_protection c" and ?ml = "masked_len kind (length packet)"
  obtain prefix where p: "length prefix = inbound_junk_size c kind"
    and d: "d = prefix @ masked C ?key (take NONCE_SIZE prefix) ?ml packet"
    using fr by (auto simp: is_frame_def outbound_junk_size_def)
  note facts = classify_outbound_facts [OF k]
  have nonce: "take NONCE_SIZE (d @ suffix) = take NONCE_SIZE prefix" if "hp_is_set ?key"
    using hp that p unfolding d by (simp add: header_protection_enabled_def)
  have body: "slice (inbound_junk_size c kind) (inbound_junk_size c kind + length packet) (d @ suffix) =
      masked C ?key (take NONCE_SIZE prefix) ?ml packet"
    unfolding d using p by (simp add: slice_def)
  have tag: "read_tag_masked (d @ suffix) (inbound_junk_size c kind) mk = Some (u32_from_le (take 4 packet))"
    if "mk = (if hp_is_set ?key then the (type_mask C ?key (d @ suffix)) else zero_mask)"
      "hp_is_set ?key \<Longrightarrow> type_mask C ?key (d @ suffix) \<noteq> None" for mk
  proof -
    have sl: "slice (inbound_junk_size c kind) (inbound_junk_size c kind + 4) (d @ suffix) =
        take 4 (masked C ?key (take NONCE_SIZE prefix) ?ml packet)"
      unfolding d using p facts(1) by (simp add: slice_def)
    have "map2 xor (take 4 (masked C ?key (take NONCE_SIZE prefix) ?ml packet)) mk = take 4 packet"
    proof (cases "hp_is_set ?key")
      case True
      then have "type_mask C ?key (d @ suffix) = Some mk" using that by simp
      from type_mask_on_masked [OF True this facts(3,2)] show ?thesis unfolding nonce [OF True] .
    next
      case False
      then show ?thesis
        using that(1) facts(1)
        by (intro nth_equalityI) (simp_all add: masked_def zero_mask_def TYPE_MASK_SIZE_def)
    qed
    then show ?thesis using sl p facts(1) by (simp add: read_tag_masked_def d)
  qed
  have entry: "(kind, if kind = TransportData then None else Some (length packet)) \<in> set trial_order"
    using facts(5) by (auto simp: trial_order_def)
  have cand: "candidate_for c' obf (d @ suffix) mk (header_protection_enabled c)
        (kind, if kind = TransportData then None else Some (length packet)) = Some cand"
    if "read_tag_masked (d @ suffix) (inbound_junk_size c kind) mk = Some (u32_from_le (take 4 packet))" for mk
    using that hp facts(1,4) s ag frame_length [OF fr]
    by (auto simp: candidate_for_def Let_def cand_def agree_on_def outbound_junk_size_def DATA_OVERHEAD_SZ_def)
  have en: "header_protection_enabled c' = header_protection_enabled c"
    using ag by (simp add: agree_on_def header_protection_enabled_def)
  have some: "type_mask C ?key (d @ suffix) \<noteq> None" if "hp_is_set ?key"
    using that hp p by (simp add: type_mask_Some d header_protection_enabled_def)
  show "Some cand \<in> set (inbound_candidates C c' obf (d @ suffix))"
  proof (cases "hp_is_set ?key")
    case True
    then obtain mk where mk: "type_mask C ?key (d @ suffix) = Some mk" using some by blast
    then show ?thesis
      using cand [OF tag] True entry en ag
      by (auto simp: inbound_candidates_def candidates_under_mask_def header_protection_enabled_def agree_on_def
          intro!: image_eqI [OF _ entry])
  next
    case False
    then show ?thesis
      using cand [OF tag] entry en ag
      by (auto simp: inbound_candidates_def candidates_under_mask_def header_protection_enabled_def agree_on_def
          intro!: image_eqI [OF _ entry])
  qed
  show "candidate_message C c' (d @ suffix) cand = Some packet"
  proof (cases "hp_is_set ?key")
    case True
    have "unmask_detached C ?key (d @ suffix) (masked C ?key (take NONCE_SIZE prefix) ?ml packet) ?ml = (True, packet)"
      using unmask_detached_masked [of ?key "d @ suffix" ?ml packet C] facts(2,3) hp True frame_length [OF fr]
      unfolding nonce [OF True] by (simp add: header_protection_enabled_def outbound_junk_size_def TYPE_MASK_SIZE_def)
    then show ?thesis
      using True frame_length [OF fr] ag unfolding candidate_message_def cand_def
      by (simp add: body header_protection_enabled_def agree_on_def outbound_junk_size_def)
  next
    case False
    then show ?thesis
      using frame_length [OF fr] unfolding candidate_message_def cand_def
      by (simp add: body header_protection_enabled_def masked_def outbound_junk_size_def)
  qed
qed

lemma candidates_iter_iff: "x \<in> set (candidates_iter cs) \<longleftrightarrow> Some x \<in> set cs"
  by (force simp: candidates_iter_def)


section \<open>Errors of framing\<close>

lemma prepend_refuses:
  assumes "length buffer \<le> usize_max"
    and "length buffer < n \<or>
      (\<exists>kind. classify_outbound obf (take n buffer) = Some kind \<and>
        (length buffer < n + outbound_junk_size c kind \<or>
         header_protection_enabled c \<and> outbound_junk_size c kind < NONCE_SIZE))"
  shows "\<exists>g'. prepend_outbound_with_trailer R C c obf buffer n room g = Some (Err DestinationBufferTooSmall, g')"
proof (cases "length buffer < n")
  case True
  then show ?thesis by (simp add: prepend_outbound_with_trailer_def)
next
  case False
  then obtain kind where k: "classify_outbound obf (take n buffer) = Some kind"
    "length buffer < n + outbound_junk_size c kind \<or>
     header_protection_enabled c \<and> outbound_junk_size c kind < NONCE_SIZE"
    using assms(2) by blast
  let ?j = "outbound_junk_size c kind"
  obtain t g1 where t: "trailer_len R c kind (n + ?j) (length buffer) room g = (t, g1)"
    by (cases "trailer_len R c kind (n + ?j) (length buffer) room g")
  show ?thesis
  proof (cases "length buffer < n + ?j")
    case True
    then show ?thesis
      using False k(1) t by (auto simp: prepend_outbound_with_trailer_def checked_add_def Let_def)
  next
    case fits: False
    then have hp: "header_protection_enabled c" "?j < NONCE_SIZE" using k(2) by auto
    have add: "checked_add n ?j = Some (n + ?j)" using fits assms(1) by (simp add: checked_add_def)
    let ?b = "copy_at ?j (take n buffer) buffer"
    obtain junk g2 where f: "fill_outbound_junk R c (take ?j ?b) n g1 = Some (junk, g2)"
      using fill_outbound_junk_fills [of "take ?j ?b" R c n g1] by (auto simp: fills_def)
    have m: "mask_outbound C (header_protection c) d ?j l = (False, d)" for d l
      using hp by (simp add: mask_outbound_def header_protection_enabled_def)
    show ?thesis
      using False fits k(1) add t f hp unfolding prepend_outbound_with_trailer_def
      by (simp add: Let_def m)
  qed
qed

lemma prepend_unclassified:
  "n \<le> length buffer \<Longrightarrow> classify_outbound obf (take n buffer) = None \<Longrightarrow>
   prepend_outbound_with_trailer R C c obf buffer n room g = Some (Ok (take n buffer), g)"
  by (simp add: prepend_outbound_with_trailer_def)

lemma plain_candidates:
  assumes "ranges_valid obf" "\<forall>kind. inbound_junk_size c kind = 0"
    and "\<not> header_protection_enabled c" "\<not> random_trailers c"
  shows "length (candidates_iter (inbound_candidates C c obf d)) \<le> 1 \<and>
    (candidates_iter (inbound_candidates C c obf d) = [] \<longleftrightarrow> \<not> is_ok (parse_incoming_packet obf d)) \<and>
    (\<forall>cand \<in> set (candidates_iter (inbound_candidates C c obf d)). candidate_message C c d cand = Some d)"
proof -
  have tag: "read_tag_masked d 0 zero_mask = Some (u32_from_le (slice 0 4 d))" if "4 \<le> length d"
  proof -
    have "map2 xor (slice 0 4 d) zero_mask = slice 0 4 d"
      using that by (intro nth_equalityI) (simp_all add: zero_mask_def TYPE_MASK_SIZE_def slice_def)
    then show ?thesis using that by (simp add: read_tag_masked_def)
  qed
  have sizes: "inbound_junk_size c kind = 0" for kind using assms(2) by blast
  have cands: "inbound_candidates C c obf d = map (candidate_for c obf d zero_mask False) trial_order"
    using assms(3) by (simp add: inbound_candidates_def candidates_under_mask_def)
  note ex = matches_exclusive [OF assms(1), of "u32_from_le (slice 0 4 d)"]
  consider "length d < 32" | "32 \<le> length d" by linarith
  then show ?thesis
  proof cases
    case 1
    then show ?thesis
      unfolding cands using assms(4)
      by (simp add: trial_order_def candidate_for_def sizes message_sizes candidates_iter_def parse_incoming_packet_def)
  next
    case 2
    then have t: "read_tag_masked d 0 zero_mask = Some (u32_from_le (slice 0 4 d))" by (intro tag) simp
    show ?thesis
      unfolding cands using assms(4) 2 ex
      by (auto simp: trial_order_def candidate_for_def sizes message_sizes candidates_iter_def
          parse_incoming_packet_def t candidate_message_def Let_def)
  qed
qed

section \<open>Properties\<close>



text \<open>
  C22. The receiver finds what the sender framed. For an accepted configuration, a packet of any kind
  whose frame fits is framed, and the candidate readings of the datagram at an end that agrees on the
  prefix of that kind, the key and the trailers contain one of that kind whose message is the packet,
  header protection, trailer and any redrawn prefix notwithstanding.
\<close>

theorem framing_round_trip:
  assumes "is_ok (check_header_protection_nonce c)" "length buffer \<le> usize_max" "n \<le> length buffer"
    and "classify_outbound obf (take n buffer) = Some kind"
    and "n + inbound_junk_size c kind \<le> length buffer" and "agree_on kind c c'"
  shows "\<exists>wire g' cand. prepend_outbound_with_trailer R C c obf buffer n room g = Some (Ok wire, g') \<and>
     cand \<in> set (candidates_iter (inbound_candidates C c' obf wire)) \<and> ic_kind cand = kind \<and>
     candidate_message C c' wire cand = Some (take n buffer)"
proof -
  have hp: "NONCE_SIZE \<le> inbound_junk_size c kind" if "header_protection_enabled c"
    using assms(1) that by (simp add: check_nonce_ok_iff)
  have j: "outbound_junk_size c kind + n \<le> length buffer"
    using assms(5) by (simp add: outbound_junk_size_def)
  obtain d suffix g' where p:
    "prepend_outbound_with_trailer R C c obf buffer n room g = Some (Ok (d @ suffix), g')"
    "is_frame C c kind (take n buffer) d"
    "length suffix = fst (trailer_len R c kind (n + outbound_junk_size c kind) (length buffer) room g)"
    by (rule prepend_frames [OF assms(3,2,4) j]) (use hp in \<open>simp_all add: outbound_junk_size_def\<close>)
  have s: "suffix = [] \<or> random_trailers c \<and> kind \<noteq> TransportData"
    using p(3) by (auto simp: trailer_len_def split: option.splits if_splits)
  show ?thesis
    using p(1) frame_reading [OF p(2) assms(4) hp assms(6) s]
    by (intro exI conjI) (auto simp: candidates_iter_iff)
qed

definition sample_config :: amnezia_config where
  "sample_config = with_random_trailers True (with_header_protection (replicate 32 1) (config_new 15 16 17 18))"

theorem framing_round_trip_witness:
  "\<exists>wire g' cand. prepend_outbound_with_trailer zero_rng (\<lambda>_ _ i. of_nat i) sample_config obfuscation_default
       ([4, 0, 0, 0] @ replicate 100 9) 40 None () = Some (Ok wire, g') \<and>
     cand \<in> set (candidates_iter (inbound_candidates (\<lambda>_ _ i. of_nat i) sample_config obfuscation_default wire)) \<and>
     ic_kind cand = TransportData \<and>
     candidate_message (\<lambda>_ _ i. of_nat i) sample_config wire cand = Some ([4, 0, 0, 0] @ replicate 36 9)"
proof -
  have t: "take 40 ([4, 0, 0, 0] @ replicate 100 9) = [4, 0, 0, 0] @ replicate 36 (9 :: u8)" by simp
  have z: "zero_mask = [0, 0, 0, 0]"
    by (simp add: zero_mask_def TYPE_MASK_SIZE_def numeral_eq_Suc)
  have "classify_outbound obfuscation_default ([4, 0, 0, 0] @ replicate 36 9) = Some TransportData"
    by (simp add: classify_outbound_def read_tag_def read_tag_masked_def z slice_def message_sizes
        obfuscation_default_def matches_defs tag_contains_def message_types u32_from_le_def)
  moreover have "is_ok (check_header_protection_nonce sample_config)"
    unfolding check_nonce_ok_iff all_kinds
    by (simp add: sample_config_def with_header_protection_def with_random_trailers_def config_new_def
        NONCE_SIZE_def imitation_default_def)
  ultimately show ?thesis
    using framing_round_trip [of sample_config "[4, 0, 0, 0] @ replicate 100 9" 40 obfuscation_default TransportData
        sample_config zero_rng "\<lambda>_ _ i. of_nat i" None "()"] t
    by (simp add: usize_max_def agree_on_def sample_config_def with_header_protection_def with_random_trailers_def
        config_new_def)
qed

text \<open>
  C32. A framed cookie reply is never larger than the datagram that provoked it: whenever the
  emit-site guard lets a reply of the fixed size out, the prefix and whatever trailer is drawn in the
  room the request leaves keep it within the request, in any buffer and under any output ceiling.
\<close>

theorem cookie_reply_never_amplifies:
  assumes "\<not> cookie_reply_would_amplify c 64 request_len"
    and "classify_outbound obf (take 64 buffer) = Some CookieReply" "length buffer \<le> usize_max"
    and "prepend_outbound_with_trailer R C c obf buffer 64
           (Some (trailer_room_within max_wire (trailer_room_cookie_reply request_len))) g = Some (Ok wire, g')"
  shows "length wire \<le> request_len"
proof -
  let ?j = "outbound_junk_size c CookieReply"
  let ?room = "trailer_room_within max_wire (trailer_room_cookie_reply request_len)"
  have j: "64 + ?j \<le> request_len"
    using assms(1) by (simp add: cookie_reply_would_amplify_def reply_amplifies_def cookie_reply_len_small
        outbound_junk_size_def not_less)
  have nbad: "\<not> (length buffer < 64 \<or> (\<exists>kind. classify_outbound obf (take 64 buffer) = Some kind \<and>
        (length buffer < 64 + outbound_junk_size c kind \<or>
         header_protection_enabled c \<and> outbound_junk_size c kind < NONCE_SIZE)))"
    using prepend_refuses [OF assms(3), of 64 obf c R C "Some ?room" g] assms(4) by auto
  then have h: "64 \<le> length buffer" "?j + 64 \<le> length buffer" "header_protection_enabled c \<Longrightarrow> NONCE_SIZE \<le> ?j"
    using assms(2) by auto
  obtain d suffix g1 where p:
    "prepend_outbound_with_trailer R C c obf buffer 64 (Some ?room) g = Some (Ok (d @ suffix), g1)"
    "is_frame C c CookieReply (take 64 buffer) d"
    "length suffix = fst (trailer_len R c CookieReply (64 + ?j) (length buffer) (Some ?room) g)"
    by (rule prepend_frames [OF h(1) assms(3,2) h(2,3)])
  obtain t g2 where t: "trailer_len R c CookieReply (64 + ?j) (length buffer) (Some ?room) g = (t, g2)"
    by (cases "trailer_len R c CookieReply (64 + ?j) (length buffer) (Some ?room) g")
  have "t \<le> request_len - (64 + ?j)"
    using trailer_len_bounds(3) [OF t refl] by (simp add: trailer_room_within_def trailer_room_cookie_reply_def)
  then show ?thesis
    using p(1,3) assms(4) frame_length [OF p(2)] t h(1) j by simp
qed

theorem cookie_reply_never_amplifies_witness:
  "\<exists>wire g'. prepend_outbound_with_trailer zero_rng (\<lambda>_ _ _. 0) (config_new 0 0 0 0) obfuscation_default
      ([3, 0, 0, 0] @ replicate 60 0) 64 (Some (trailer_room_within 1500 (trailer_room_cookie_reply 148))) () =
      Some (Ok wire, g') \<and> length wire \<le> 148"
proof -
  let ?b = "[3, 0, 0, 0] @ replicate 60 0 :: bytes"
  let ?room = "trailer_room_within 1500 (trailer_room_cookie_reply 148)"
  have z: "zero_mask = [0, 0, 0, 0]"
    by (simp add: zero_mask_def TYPE_MASK_SIZE_def numeral_eq_Suc)
  have k: "classify_outbound obfuscation_default (take 64 ?b) = Some CookieReply"
    by (simp add: classify_outbound_def read_tag_def read_tag_masked_def z slice_def message_sizes
        obfuscation_default_def matches_defs tag_contains_def message_types u32_from_le_def)
  have hp: "header_protection_enabled (config_new 0 0 0 0) \<Longrightarrow> NONCE_SIZE \<le> outbound_junk_size (config_new 0 0 0 0) CookieReply"
    by (simp add: config_new_def header_protection_enabled_def hp_is_set_def hp_default_def)
  have b: "64 \<le> length ?b" "length ?b \<le> usize_max"
    "outbound_junk_size (config_new 0 0 0 0) CookieReply + 64 \<le> length ?b"
    by (simp_all add: usize_max_def outbound_junk_size_def config_new_def)
  obtain d suffix g' where p: "prepend_outbound_with_trailer zero_rng (\<lambda>_ _ _. 0) (config_new 0 0 0 0)
      obfuscation_default ?b 64 (Some ?room) () = Some (Ok (d @ suffix), g')"
    by (rule prepend_frames [OF b(1,2) k b(3) hp])
  have "length (d @ suffix) \<le> 148"
    by (rule cookie_reply_never_amplifies [OF _ k _ p])
      (simp_all add: usize_max_def cookie_reply_would_amplify_def reply_amplifies_def cookie_reply_len_small config_new_def)
  with p show ?thesis by blast
qed

text \<open>
  On plain WireGuard settings, with no prefixes, key or trailers, the candidate list is the packet
  parser: for disjoint tag ranges a datagram has at most one reading, has one exactly when it parses,
  and the reading is the whole datagram.
\<close>

lemma plain_candidates_are_the_parser:
  assumes "ranges_valid obf" "\<forall>kind. inbound_junk_size c kind = 0"
    and "\<not> header_protection_enabled c" "\<not> random_trailers c"
  shows "length (candidates_iter (inbound_candidates C c obf d)) \<le> 1 \<and>
    (candidates_iter (inbound_candidates C c obf d) = [] \<longleftrightarrow> \<not> is_ok (parse_incoming_packet obf d)) \<and>
    (\<forall>cand \<in> set (candidates_iter (inbound_candidates C c obf d)). candidate_message C c d cand = Some d)"
  by (rule plain_candidates [OF assms])

end
