(* ===== verification/Imitation.thy ===== *)
theory Imitation
  imports Junk Rate_Limiter
begin

text \<open>
  Complete datagrams of other protocols (\<open>noise/imitation/{mod,dns,sip,stun}.rs\<close>): the client side an
  endpoint emits before a handshake, and for DNS and STUN the checks of a request and the reply to it.

  A vector that only grows is built as a list. A buffer of fixed size that is written at offsets is
  stepped through in the option monad, where a store outside it is the panic of the source and
  \<open>None\<close>. HMAC-SHA1 is taken from the \<open>ring\<close> crate and a parameter; the source copies its tag into an
  array of 20 bytes, and that the tag has this size is the hypothesis of the lemmas that need it.

  The lemmas show that no generator panics, that every generated DNS query and STUN request passes
  the check the receiving side applies, fingerprint included, that a DNS reply is never longer than
  the query, and that a STUN reply tells the client its own address in a message whose attributes
  tile it and whose fingerprint is right.
\<close>

section \<open>Tokens\<close>

definition TOKEN_ALPHABET :: bytes where
  "TOKEN_ALPHABET = ascii ''ABCDEFGHIJKLMNOPQRSTUVWXYZabcdefghijklmnopqrstuvwxyz0123456789''"

primrec token_chars :: "'g rng \<Rightarrow> nat \<Rightarrow> 'g \<Rightarrow> bytes \<times> 'g" where
  "token_chars R 0 g = ([], g)"
| "token_chars R (Suc n) g =
     (let (w, g) = next_u32 R g; (cs, g) = token_chars R n g
      in (TOKEN_ALPHABET ! (unat w mod 62) # cs, g))"

definition random_token :: "'g rng \<Rightarrow> nat \<Rightarrow> nat \<Rightarrow> 'g \<Rightarrow> bytes \<times> 'g" where
  "random_token R min_len max_len g =
     (let span = max_len - min_len + 1;
          (w, g) = next_u32 R g
      in token_chars R (min_len + unat w mod span) g)"

section \<open>DNS\<close>

definition DNS_HEADER_LEN :: nat where "DNS_HEADER_LEN = 12"
definition QTYPE_A :: u16 where "QTYPE_A = 0x0001"
definition QTYPE_AAAA :: u16 where "QTYPE_AAAA = 0x001c"
definition QTYPE_HTTPS :: u16 where "QTYPE_HTTPS = 0x0041"
definition QCLASS_IN :: u16 where "QCLASS_IN = 0x0001"

text \<open>The label loop of \<open>build_query\<close>.\<close>

definition qname_label :: "bytes \<Rightarrow> bytes" where
  "qname_label l = (let len = min (length l) 63 in of_nat len # take len l)"

definition build_query :: "'g rng \<Rightarrow> bytes \<Rightarrow> u16 \<Rightarrow> 'g \<Rightarrow> bytes \<times> 'g" where
  "build_query R domain qtype g =
     (let (w, g) = next_u32 R g in
      (u16_to_be (ucast w) @ [0x01, 0x00] @ [0x00, 0x01] @ [0x00, 0x00] @ [0x00, 0x00] @ [0x00, 0x00] @
       concat (map qname_label (split_dots domain)) @ [0x00] @
       u16_to_be qtype @ u16_to_be QCLASS_IN, g))"

definition MAX_LABEL :: nat where "MAX_LABEL = 63"
definition MAX_QNAME :: nat where "MAX_QNAME = 255"

function qname_end :: "bytes \<Rightarrow> nat \<Rightarrow> nat \<Rightarrow> nat option" where
  "qname_end data pos qname_len =
     (if length data \<le> pos then None
      else
        let label_len = unat (data ! pos) in
        if and (data ! pos) 0xC0 \<noteq> 0 then None
        else if label_len = 0 then Some (pos + 1)
        else if label_len > MAX_LABEL then None
        else
          let qname_len = qname_len + (1 + label_len) in
          if qname_len + 1 > MAX_QNAME then None
          else qname_end data (pos + (1 + label_len)) qname_len)"
  by pat_completeness auto

termination
  by (relation "measure (\<lambda>(data, pos, _). length data - pos)") auto

declare qname_end.simps [simp del]

definition u16_at :: "bytes \<Rightarrow> nat \<Rightarrow> u16" where
  "u16_at data i = u16_from_be [data ! i, data ! (i + 1)]"

definition question_end :: "bytes \<Rightarrow> nat option" where
  "question_end query =
     (if length query < DNS_HEADER_LEN then None
      else if and (query ! 2) 0xF8 \<noteq> 0 \<or> and (query ! 3) 0xCF \<noteq> 0 then None
      else
        let qdcount = u16_at query 4;
            ancount = u16_at query 6;
            nscount = u16_at query 8
        in if qdcount \<noteq> 1 \<or> ancount \<noteq> 0 \<or> nscount \<noteq> 0 then None
        else do {
          name_end \<leftarrow> qname_end query DNS_HEADER_LEN 0;
          fin \<leftarrow> checked_add name_end 4;
          if length query < fin then None
          else
            let qclass = u16_at query (name_end + 2) in
            if qclass \<in> {1, 3, 4, 255} then Some fin else None })"

definition servfail :: "bytes \<Rightarrow> bytes option" where
  "servfail query = do {
     fin \<leftarrow> question_end query;
     Some (slice 0 2 query @
           [or 0x80 (and (query ! 2) (or 0x78 0x01)), or 0x80 0x02] @
           [0x00, 0x01] @ [0x00, 0x00] @ [0x00, 0x00] @ [0x00, 0x00] @
           slice DNS_HEADER_LEN fin query) }"

definition dns_generate :: "'g rng \<Rightarrow> bytes \<Rightarrow> 'g \<Rightarrow> bytes list \<times> 'g" where
  "dns_generate R domain g =
     (let (a, g) = build_query R domain QTYPE_A g;
          (aaaa, g) = build_query R domain QTYPE_AAAA g;
          (https, g) = build_query R domain QTYPE_HTTPS g
      in ([a, aaaa, https], g))"

section \<open>SIP\<close>

record sip_profile =
  user_agent :: bytes
  sip_allow :: bytes
  sip_supported :: bytes

definition SIP_PROFILES :: "sip_profile list" where
  "SIP_PROFILES =
     map (\<lambda>(u, a, s). \<lparr> user_agent = ascii u, sip_allow = ascii a, sip_supported = ascii s \<rparr>)
     [(''PJSUA v2.13 Linux-6.1/x86_64'',
       ''INVITE, ACK, CANCEL, BYE, OPTIONS, INFO, PRACK, UPDATE, REFER, NOTIFY, MESSAGE, SUBSCRIBE'',
       ''100rel, timer, replaces, norefersub''),
      (''Linphone/5.2.5 (belle-sip/5.2.0)'',
       ''INVITE, ACK, BYE, CANCEL, OPTIONS, INFO, UPDATE, REFER, MESSAGE'',
       ''replaces, outbound, gruu, path, 100rel, timer''),
      (''Twinkle/1.10.2'',
       ''INVITE, ACK, CANCEL, OPTIONS, BYE, REFER, NOTIFY, MESSAGE, INFO'',
       ''replaces, timer, 100rel''),
      (''Zoiper rv2.10.16.6'',
       ''INVITE, ACK, CANCEL, BYE, OPTIONS, INFO, PRACK, UPDATE, REFER, NOTIFY'',
       ''timer, 100rel, replaces, norefersub''),
      (''MicroSIP/3.21.5'',
       ''ACK, BYE, CANCEL, INFO, INVITE, MESSAGE, NOTIFY, OPTIONS, REFER, SUBSCRIBE'',
       ''replaces, 100rel, timer''),
      (''Bria 5.6.4'',
       ''INVITE, ACK, CANCEL, BYE, OPTIONS, INFO, REFER, NOTIFY, MESSAGE'',
       ''replaces, timer, 100rel'')]"

definition NAMES :: "bytes list" where
  "NAMES = map ascii
     [''alice'', ''bob'', ''carol'', ''dave'', ''eve'', ''frank'', ''grace'', ''heidi'', ''ivan'',
      ''judy'', ''trent'', ''victor'', ''walter'', ''olivia'', ''noah'', ''emma'', ''sofia'',
      ''lucas'', ''mason'', ''ava'', ''support'', ''sales'', ''billing'', ''admin'', ''noc'']"

definition hex32 :: "u32 \<Rightarrow> bytes" where
  "hex32 v = hex_width 8 (unat v)"

definition octet :: "'g rng \<Rightarrow> 'g \<Rightarrow> nat \<times> 'g" where
  "octet R g = (let (w, g) = next_u32 R g in (2 + unat w mod 253, g))"

definition rfc1918_literal :: "'g rng \<Rightarrow> 'g \<Rightarrow> bytes \<times> 'g" where
  "rfc1918_literal R g =
     (let (w, g) = next_u32 R g in
      if unat w mod 3 = 0 then
        let (a, g) = octet R g; (b, g) = octet R g; (c, g) = octet R g
        in (ascii ''10.'' @ decimal a @ [dot] @ decimal b @ [dot] @ decimal c, g)
      else if unat w mod 3 = 1 then
        let (v, g) = next_u32 R g; (b, g) = octet R g; (c, g) = octet R g
        in (ascii ''172.'' @ decimal (16 + unat v mod 16) @ [dot] @ decimal b @ [dot] @ decimal c, g)
      else
        let (b, g) = octet R g; (c, g) = octet R g
        in (ascii ''192.168.'' @ decimal b @ [dot] @ decimal c, g))"

definition random_sip_username :: "'g rng \<Rightarrow> 'g \<Rightarrow> bytes \<times> 'g" where
  "random_sip_username R g =
     (let (w, g) = next_u32 R g in
      if unat w mod 4 = 0 then
        let (n, g) = next_u32 R g in (NAMES ! (unat n mod length NAMES), g)
      else if unat w mod 4 = 1 then
        let (n, g) = next_u32 R g; (d, g) = next_u32 R g
        in (NAMES ! (unat n mod length NAMES) @ decimal (unat d mod 1000), g)
      else if unat w mod 4 = 2 then
        let (d, g) = next_u32 R g in (decimal (100 + unat d mod 999900), g)
      else
        let (h, g) = next_u32 R g in (hex_width 8 (unat h), g))"

definition is_ascii_alphabetic :: "u8 \<Rightarrow> bool" where
  "is_ascii_alphabetic b \<longleftrightarrow> 65 \<le> unat b \<and> unat b \<le> 90 \<or> 97 \<le> unat b \<and> unat b \<le> 122"

definition to_ascii_uppercase :: "u8 \<Rightarrow> u8" where
  "to_ascii_uppercase b = (if 97 \<le> unat b \<and> unat b \<le> 122 then b - 32 else b)"

definition display_name :: "bytes \<Rightarrow> bytes" where
  "display_name name =
     (case name of
        first # rest \<Rightarrow> if is_ascii_alphabetic first then to_ascii_uppercase first # rest else name
      | [] \<Rightarrow> name)"

definition sip_call_id_host :: "'g rng \<Rightarrow> u32 \<Rightarrow> 'g \<Rightarrow> bytes \<times> 'g" where
  "sip_call_id_host R call_id_val g =
     (let (w, g) = next_u32 R g in
      if unat w mod 3 = 0 then rfc1918_literal R g
      else if unat w mod 3 = 1 then
        let (t, g) = next_u32 R g
        in (hex32 (xor call_id_val 0xa5a5a5a5) @ ascii ''.'' @
            [ascii ''net'', ascii ''com'', ascii ''org'', ascii ''local''] ! (unat t mod 4), g)
      else (hex32 (xor call_id_val 0xc3c3c3c3), g))"

record sip_call =
  sip_domain :: bytes
  via_host :: bytes
  branch_id :: bytes
  sip_caller :: bytes
  sip_callee :: bytes
  from_tag :: bytes
  call_id :: bytes
  cseq_num :: nat
  call_profile :: sip_profile

text \<open>The two messages of one call, with the values drawn for it.\<close>

definition sip_via :: "sip_call \<Rightarrow> bytes" where
  "sip_via c = ascii ''Via: SIP/2.0/UDP '' @ via_host c @ ascii '';branch='' @ branch_id c @
     ascii '';rport'' @ crlf"

definition sip_from :: "sip_call \<Rightarrow> bytes" where
  "sip_from c = ascii ''From: '' @ display_name (sip_caller c) @ ascii '' <sip:'' @ sip_caller c @
     ascii ''@'' @ sip_domain c @ ascii ''>;tag='' @ from_tag c @ crlf"

definition sip_to :: "sip_call \<Rightarrow> bytes" where
  "sip_to c = ascii ''To: '' @ display_name (sip_callee c) @ ascii '' <sip:'' @ sip_callee c @
     ascii ''@'' @ sip_domain c @ ascii ''>'' @ crlf"

definition sip_invite :: "sip_call \<Rightarrow> bytes" where
  "sip_invite c =
     ascii ''INVITE sip:'' @ sip_callee c @ ascii ''@'' @ sip_domain c @ ascii '' SIP/2.0'' @ crlf @
     sip_via c @ ascii ''Max-Forwards: 70'' @ crlf @ sip_from c @ sip_to c @
     ascii ''Call-ID: '' @ call_id c @ crlf @
     ascii ''CSeq: '' @ decimal (cseq_num c) @ ascii '' INVITE'' @ crlf @
     ascii ''Contact: <sip:'' @ sip_caller c @ ascii ''@'' @ via_host c @ ascii ''>'' @ crlf @
     ascii ''User-Agent: '' @ user_agent (call_profile c) @ crlf @
     ascii ''Allow: '' @ sip_allow (call_profile c) @ crlf @
     ascii ''Supported: '' @ sip_supported (call_profile c) @ crlf @
     ascii ''Content-Length: 0'' @ crlf @ crlf"

definition sip_cancel :: "sip_call \<Rightarrow> bytes" where
  "sip_cancel c =
     ascii ''CANCEL sip:'' @ sip_callee c @ ascii ''@'' @ sip_domain c @ ascii '' SIP/2.0'' @ crlf @
     sip_via c @ ascii ''Max-Forwards: 70'' @ crlf @ sip_to c @ sip_from c @
     ascii ''Call-ID: '' @ call_id c @ crlf @
     ascii ''CSeq: '' @ decimal (cseq_num c) @ ascii '' CANCEL'' @ crlf @
     ascii ''Content-Length: 0'' @ crlf @ crlf"

definition sip_call_of :: "'g rng \<Rightarrow> bytes \<Rightarrow> 'g \<Rightarrow> sip_call \<times> 'g" where
  "sip_call_of R domain g =
     (let (b1, g) = next_u32 R g; (b2, g) = next_u32 R g;
          (t1, g) = next_u32 R g; (t2, g) = next_u32 R g;
          (call_id_val, g) = next_u32 R g;
          (call_id_val2, g) = next_u32 R g;
          (n, g) = next_u32 R g;
          (call_id_host, g) = sip_call_id_host R call_id_val g;
          (literal, g) = rfc1918_literal R g;
          (port, g) = next_u32 R g;
          (p, g) = next_u32 R g;
          (caller, g) = random_sip_username R g;
          (callee, g) = random_sip_username R g;
          (callee, g) = (if callee = caller then random_sip_username R g else (callee, g))
      in (\<lparr> sip_domain = domain,
            via_host = literal @ ascii '':'' @ decimal (49152 + unat port mod 16384),
            branch_id = ascii ''z9hG4bK'' @ hex32 b1 @ hex32 b2,
            sip_caller = caller, sip_callee = callee,
            from_tag = hex32 t1 @ hex32 t2,
            call_id = hex32 call_id_val @ hex32 call_id_val2 @ ascii ''@'' @ call_id_host,
            cseq_num = 10000 + unat n mod 90000,
            call_profile = SIP_PROFILES ! (unat p mod length SIP_PROFILES) \<rparr>, g))"

definition sip_generate :: "'g rng \<Rightarrow> bytes \<Rightarrow> 'g \<Rightarrow> bytes list \<times> 'g" where
  "sip_generate R domain g =
     (let (call, g) = sip_call_of R domain g in ([sip_invite call, sip_cancel call], g))"

section \<open>STUN\<close>

definition SOFTWARE_POOL :: "bytes list" where
  "SOFTWARE_POOL = map ascii
     [''libnice 0.1.21'', ''PJSIP 2.13.0'', ''Chromium'', ''Linphone/5.2'', ''Mozilla'']"

definition STUN_HEADER_LEN :: nat where "STUN_HEADER_LEN = 20"
definition MI_ATTR_LEN :: nat where "MI_ATTR_LEN = 4 + 20"
definition FP_ATTR_LEN :: nat where "FP_ATTR_LEN = 4 + 4"
definition BINDING_REQUEST :: u16 where "BINDING_REQUEST = 0x0001"
definition MAX_BINDING_REQUEST_LEN :: nat where "MAX_BINDING_REQUEST_LEN = 1024"
definition MAX_SOFTWARE_LEN :: nat where "MAX_SOFTWARE_LEN = 127"

record binding_request =
  br_software :: bytes
  br_username :: bytes
  br_priority :: u32
  br_ice_controlling :: u64
  br_trans_id :: bytes
  br_ice_pwd :: bytes
  br_use_candidate :: bool

text \<open>\<open>(len + 3) & !3\<close>: the two low bits are cleared.\<close>

definition padded :: "nat \<Rightarrow> nat" where
  "padded len = (len + 3) div 4 * 4"

definition write_tlv :: "bytes \<Rightarrow> nat \<Rightarrow> u16 \<Rightarrow> u16 \<Rightarrow> bytes option" where
  "write_tlv pkt off attr_type attr_len = do {
     pkt \<leftarrow> put_slice off (u16_to_be attr_type) pkt;
     put_slice (off + 2) (u16_to_be attr_len) pkt }"

text \<open>\<open>hmac_sha1\<close>: \<open>H\<close> is the \<open>hmac::sign\<close> of \<open>ring\<close>, whose tag is copied into an array.\<close>

type_synonym hmac_sign = "bytes \<Rightarrow> bytes \<Rightarrow> bytes"

definition hmac_sha1 :: "hmac_sign \<Rightarrow> bytes \<Rightarrow> bytes \<Rightarrow> bytes option" where
  "hmac_sha1 H key data = (if length (H key data) = 20 then Some (H key data) else None)"

definition crc_shift :: "u32 \<Rightarrow> u32" where
  "crc_shift crc = (let mk = - (and crc 1) in xor (drop_bit 1 crc) (and 0xedb88320 mk))"

definition crc_byte :: "u32 \<Rightarrow> u8 \<Rightarrow> u32" where
  "crc_byte crc b = (crc_shift ^^ 8) (xor crc (ucast b))"

definition crc32_ieee :: "bytes \<Rightarrow> u32" where
  "crc32_ieee data = not (foldl crc_byte 0xffffffff data)"

definition base_attrs_len :: "binding_request \<Rightarrow> nat" where
  "base_attrs_len p =
     (4 + padded (length (br_software p))) + (4 + padded (length (br_username p))) + (4 + 4) + (4 + 8) +
     (if br_use_candidate p then 4 else 0)"

definition build_binding_request :: "hmac_sign \<Rightarrow> binding_request \<Rightarrow> bytes option" where
  "build_binding_request H p =
     (let software_padded = padded (length (br_software p));
          username_padded = padded (length (br_username p));
          attrs = base_attrs_len p;
          total_len = STUN_HEADER_LEN + attrs + MI_ATTR_LEN + FP_ATTR_LEN;
          pkt = replicate total_len 0;
          len_with_mi = of_nat (attrs + MI_ATTR_LEN) :: u16
      in do {
        pkt \<leftarrow> put_slice 0 (u16_to_be 0x0001) pkt;
        pkt \<leftarrow> put_slice 2 (u16_to_be len_with_mi) pkt;
        pkt \<leftarrow> put_slice 4 STUN_MAGIC_COOKIE pkt;
        pkt \<leftarrow> put_slice 8 (br_trans_id p) pkt;
        let off = STUN_HEADER_LEN;
        pkt \<leftarrow> write_tlv pkt off 0x8022 (of_nat (length (br_software p)));
        pkt \<leftarrow> put_slice (off + 4) (br_software p) pkt;
        let off = off + (4 + software_padded);
        pkt \<leftarrow> write_tlv pkt off 0x0006 (of_nat (length (br_username p)));
        pkt \<leftarrow> put_slice (off + 4) (br_username p) pkt;
        let off = off + (4 + username_padded);
        pkt \<leftarrow> write_tlv pkt off 0x0024 4;
        pkt \<leftarrow> put_slice (off + 4) (u32_to_be (br_priority p)) pkt;
        let off = off + (4 + 4);
        pkt \<leftarrow> write_tlv pkt off 0x802a 8;
        pkt \<leftarrow> put_slice (off + 4) (u64_to_be (br_ice_controlling p)) pkt;
        let off = off + (4 + 8);
        pkt \<leftarrow> (if br_use_candidate p then write_tlv pkt off 0x0025 0 else Some pkt);
        let off = (if br_use_candidate p then off + 4 else off);
        mi \<leftarrow> hmac_sha1 H (br_ice_pwd p) (take off pkt);
        pkt \<leftarrow> write_tlv pkt off 0x0008 20;
        pkt \<leftarrow> put_slice (off + 4) mi pkt;
        let off = off + MI_ATTR_LEN;
        let len_full = (of_nat (attrs + MI_ATTR_LEN + FP_ATTR_LEN) :: u16);
        pkt \<leftarrow> put_slice 2 (u16_to_be len_full) pkt;
        let crc = xor (crc32_ieee (take off pkt)) 0x5354554e;
        pkt \<leftarrow> write_tlv pkt off 0x8028 4;
        put_slice (off + 4) (u32_to_be crc) pkt })"

definition random_trans_id :: "'g rng \<Rightarrow> 'g \<Rightarrow> bytes \<times> 'g" where
  "random_trans_id R g = fill_bytes R 12 g"

definition pick_software :: "'g rng \<Rightarrow> 'g \<Rightarrow> bytes \<times> 'g" where
  "pick_software R g =
     (let (w, g) = next_u32 R g in (SOFTWARE_POOL ! (unat w mod length SOFTWARE_POOL), g))"

text \<open>
  The \<open>OnceLock\<close> of the process: its content, and what \<open>get_or_init\<close> leaves in it. \<open>R\<close> is the
  generator of the operating system.
\<close>

definition host_software :: "'o rng \<Rightarrow> bytes option \<Rightarrow> 'o \<Rightarrow> bytes \<times> bytes option \<times> 'o" where
  "host_software R cell g =
     (case cell of
        Some software \<Rightarrow> (software, cell, g)
      | None \<Rightarrow> let (software, g) = pick_software R g in (software, Some software, g))"

text \<open>\<open>generate\<close>, given the software name this host announces.\<close>

definition stun_generate :: "'g rng \<Rightarrow> hmac_sign \<Rightarrow> bytes \<Rightarrow> 'g \<Rightarrow> (bytes list \<times> 'g) option" where
  "stun_generate R H software g =
     (let (local_ufrag, g) = random_token R 4 8 g;
          (remote_ufrag, g) = random_token R 4 8 g;
          username = local_ufrag @ ascii '':'' @ remote_ufrag;
          (ice_pwd, g) = random_token R 22 22 g;
          (priority, g) = next_u32 R g;
          (hi, g) = next_u32 R g;
          (lo, g) = next_u32 R g;
          ice_controlling = or (push_bit 32 (ucast hi)) (ucast lo) :: u64;
          (first_id, g) = random_trans_id R g;
          (second_id, g) = random_trans_id R g;
          request = (\<lambda>trans_id use_candidate. \<lparr>
            br_software = software, br_username = username, br_priority = priority,
            br_ice_controlling = ice_controlling, br_trans_id = trans_id, br_ice_pwd = ice_pwd,
            br_use_candidate = use_candidate \<rparr>)
      in do {
        first \<leftarrow> build_binding_request H (request first_id False);
        second \<leftarrow> build_binding_request H (request second_id True);
        Some ([first, second], g) })"

definition binding_request_len :: "bytes \<Rightarrow> nat option" where
  "binding_request_len data =
     (if length data < STUN_HEADER_LEN \<or> length data > MAX_BINDING_REQUEST_LEN then None
      else if u16_at data 0 \<noteq> BINDING_REQUEST then None
      else if slice 4 8 data \<noteq> STUN_MAGIC_COOKIE then None
      else
        let msg_len = unat (u16_at data 2) in
        if msg_len mod 4 \<noteq> 0 \<or> length data \<noteq> STUN_HEADER_LEN + msg_len then None
        else Some msg_len)"

datatype fingerprint = FpAbsent | FpValid | FpInvalid

function check_fingerprint_from :: "bytes \<Rightarrow> nat \<Rightarrow> fingerprint" where
  "check_fingerprint_from msg off =
     (if off + 4 \<le> length msg then
        let attr_type = u16_at msg off;
            attr_len = unat (u16_at msg (off + 2))
        in
        if attr_type = 0x8028 then
          if attr_len \<noteq> 4 \<or> off + FP_ATTR_LEN \<noteq> length msg then FpInvalid
          else
            let expected = xor (crc32_ieee (take off msg)) 0x5354554e;
                got = u32_from_be [msg ! (off + 4), msg ! (off + 5), msg ! (off + 6), msg ! (off + 7)]
            in if got = expected then FpValid else FpInvalid
        else
          case checked_add (padded attr_len) 4 of
            None \<Rightarrow> FpInvalid
          | Some advance \<Rightarrow>
              (case checked_add off advance of
                 None \<Rightarrow> FpInvalid
               | Some off' \<Rightarrow>
                   if off' \<le> length msg then check_fingerprint_from msg off' else FpInvalid)
      else FpAbsent)"
  by pat_completeness auto

termination
  by (relation "measure (\<lambda>(msg, off). length msg - off)")
    (auto simp: checked_add_def split: if_splits)

declare check_fingerprint_from.simps [simp del]

definition check_fingerprint :: "bytes \<Rightarrow> fingerprint" where
  "check_fingerprint msg = check_fingerprint_from msg STUN_HEADER_LEN"

definition stun_cookie :: u32 where
  "stun_cookie = u32_from_be STUN_MAGIC_COOKIE"

definition write_xor_mapped_address :: "bytes \<Rightarrow> nat \<Rightarrow> socket_addr \<Rightarrow> bytes \<Rightarrow> bytes option" where
  "write_xor_mapped_address pkt off client trans_id =
     (let x_port = xor (sa_port client) (ucast (drop_bit 16 stun_cookie)) in
      case sa_ip client of
        IpV4 v4 \<Rightarrow> do {
          pkt \<leftarrow> write_tlv pkt off 0x0020 8;
          pkt \<leftarrow> put_all [(off + 4, 0), (off + 5, 0x01)] pkt;
          pkt \<leftarrow> put_slice (off + 6) (u16_to_be x_port) pkt;
          let x_addr = xor (u32_from_be v4) stun_cookie;
          put_slice (off + 8) (u32_to_be x_addr) pkt }
      | IpV6 v6 \<Rightarrow> do {
          pkt \<leftarrow> write_tlv pkt off 0x0020 20;
          pkt \<leftarrow> put_all [(off + 4, 0), (off + 5, 0x02)] pkt;
          pkt \<leftarrow> put_slice (off + 6) (u16_to_be x_port) pkt;
          let key = STUN_MAGIC_COOKIE @ trans_id;
          put_slice (off + 8) (map (\<lambda>i. xor (v6 ! i) (key ! i)) [0..<16]) pkt })"

definition xor_mapped_len :: "socket_addr \<Rightarrow> nat" where
  "xor_mapped_len client = 4 + (case sa_ip client of IpV4 _ \<Rightarrow> 8 | IpV6 _ \<Rightarrow> 20)"

text \<open>
  \<open>binding_success\<close>: the outer \<open>None\<close> would be a panic, the inner one is the refusal to answer.
\<close>

definition binding_success :: "bytes \<Rightarrow> socket_addr \<Rightarrow> bytes \<Rightarrow> bytes option option" where
  "binding_success request client software =
     (case binding_request_len request of
        None \<Rightarrow> Some None
      | Some _ \<Rightarrow>
          let trans_id = slice 8 20 request in
          if check_fingerprint request = FpInvalid then Some None
          else
            let echo_fingerprint = (check_fingerprint request = FpValid) in
            if length software > MAX_SOFTWARE_LEN then Some None
            else
              let software_padded = padded (length software);
                  attrs_len = xor_mapped_len client + (4 + software_padded) +
                    (if echo_fingerprint then FP_ATTR_LEN else 0);
                  pkt = replicate (STUN_HEADER_LEN + attrs_len) 0
              in do {
                pkt \<leftarrow> put_slice 0 (u16_to_be 0x0101) pkt;
                pkt \<leftarrow> put_slice 2 (u16_to_be (of_nat attrs_len)) pkt;
                pkt \<leftarrow> put_slice 4 STUN_MAGIC_COOKIE pkt;
                pkt \<leftarrow> put_slice 8 trans_id pkt;
                let off = STUN_HEADER_LEN;
                pkt \<leftarrow> write_xor_mapped_address pkt off client trans_id;
                let off = off + xor_mapped_len client;
                pkt \<leftarrow> write_tlv pkt off 0x8022 (of_nat (length software));
                pkt \<leftarrow> put_slice (off + 4) software pkt;
                let off = off + (4 + software_padded);
                pkt \<leftarrow> (if echo_fingerprint then do {
                    let crc = xor (crc32_ieee (take off pkt)) 0x5354554e;
                    pkt \<leftarrow> write_tlv pkt off 0x8028 4;
                    put_slice (off + 4) (u32_to_be crc) pkt }
                  else Some pkt);
                Some (Some pkt) })"


section \<open>Reading what was written\<close>

lemma u16_to_be_two: "\<exists>a b. u16_to_be w = [a, b]"
  using be16.enc_width [of w] by (metis (no_types) One_nat_def Suc_1 length_0_conv length_Suc_conv)

lemma u16_at_field [simp]: "i = length pre \<Longrightarrow> u16_at (pre @ u16_to_be w @ post) i = w"
proof -
  assume i: "i = length pre"
  obtain a b where w: "u16_to_be w = [a, b]" using u16_to_be_two by blast
  then show ?thesis using be16.dec_enc [of w] i by (simp add: u16_at_def nth_append)
qed

lemma u16_at_field_end: "i = length pre \<Longrightarrow> u16_at (pre @ u16_to_be w) i = w"
  using u16_at_field [of i pre w "[]"] by simp

lemma u16_at_mid: "i + 2 \<le> length pre \<Longrightarrow> u16_at (pre @ post) i = u16_at pre i"
  by (simp add: u16_at_def nth_append)

section \<open>Generated queries\<close>

lemma small_label_bits: "n \<le> 63 \<Longrightarrow> and (of_nat n :: u8) 0xC0 = 0"
proof -
  have "list_all (\<lambda>n. and (of_nat n :: u8) 0xC0 = 0) [0..<64]" by code_simp
  then show "n \<le> 63 \<Longrightarrow> ?thesis" by (simp add: list_all_iff)
qed

lemma unat_small_byte: "n \<le> 63 \<Longrightarrow> unat (of_nat n :: u8) = n"
  by (simp add: unat_of_nat)

lemma qname_end_labels:
  assumes "list_all (\<lambda>l. 1 \<le> length l \<and> length l \<le> 63) ls"
    and "n + sum_list (map (\<lambda>l. 1 + length l) ls) + 1 \<le> 255"
  shows "qname_end (pre @ concat (map qname_label ls) @ [0] @ post) (length pre) n =
         Some (length pre + sum_list (map (\<lambda>l. 1 + length l) ls) + 1)"
  using assms
proof (induction ls arbitrary: pre n)
  case Nil
  then show ?case by (subst qname_end.simps) simp
next
  case (Cons l ls)
  let ?pre = "pre @ qname_label l"
  have l: "l \<noteq> []" "length l \<le> 63" using Cons.prems by auto
  have ql: "qname_label l = of_nat (length l) # l" using l by (simp add: qname_label_def)
  have IH: "qname_end (?pre @ concat (map qname_label ls) @ [0] @ post) (length ?pre) (n + (1 + length l)) =
      Some (length ?pre + sum_list (map (\<lambda>l. 1 + length l) ls) + 1)"
    using Cons.prems by (intro Cons.IH) simp_all
  have here: "(pre @ concat (map qname_label (l # ls)) @ [0] @ post) ! length pre = of_nat (length l)"
    by (simp add: ql nth_append)
  show ?case
    using Cons.prems IH l
    by (subst qname_end.simps)
      (simp add: here ql small_label_bits unat_small_byte MAX_LABEL_def MAX_QNAME_def Let_def)
qed

lemma length_concat_labels:
  "list_all (\<lambda>l. length l \<le> 63) ls \<Longrightarrow>
   length (concat (map qname_label ls)) = sum_list (map (\<lambda>l. 1 + length l) ls)"
  by (induction ls) (simp_all add: qname_label_def Let_def)

lemma labels_of_host:
  assumes "is_valid_imitation_host host"
  shows "list_all (\<lambda>l. 1 \<le> length l \<and> length l \<le> 63) (split_dots host)" "length host \<le> 253"
proof -
  have "list_all good_label (split_dots host)" and h: "length host \<le> 253"
    using assms by (simp_all add: valid_host_labels)
  then show "list_all (\<lambda>l. 1 \<le> length l \<and> length l \<le> 63) (split_dots host)" "length host \<le> 253"
    by (auto simp: list_all_iff good_label_def Suc_le_eq)
qed

lemma build_query_shape:
  "\<exists>a b. fst (build_query R host qtype g) =
     ([a, b, 1, 0, 0, 1, 0, 0, 0, 0, 0, 0] @ concat (map qname_label (split_dots host)) @ [0] @
      u16_to_be qtype @ u16_to_be QCLASS_IN)"
  using u16_to_be_two [of "ucast (fst (next_u32 R g))"]
  by (auto simp: build_query_def Let_def case_prod_beta)

lemma build_query_question:
  assumes "is_valid_imitation_host host"
  shows "question_end (fst (build_query R host qtype g)) = Some (length (fst (build_query R host qtype g)))"
proof -
  obtain a b where q: "fst (build_query R host qtype g) =
     [a, b, 1, 0, 0, 1, 0, 0, 0, 0, 0, 0] @ concat (map qname_label (split_dots host)) @ [0] @
      u16_to_be qtype @ u16_to_be QCLASS_IN" (is "_ = ?h @ ?n @ [0] @ ?t")
    using build_query_shape [of R host qtype g] by (elim exE)
  let ?q = "?h @ ?n @ [0] @ ?t"
  have labels: "list_all (\<lambda>l. 1 \<le> length l \<and> length l \<le> 63) (split_dots host)" "length host \<le> 253"
    using labels_of_host [OF assms] .
  have sum: "sum_list (map (\<lambda>l. 1 + length l) (split_dots host)) = length host + 1"
    by (rule sum_split_dots)
  have len: "length ?n = length host + 1"
    using length_concat_labels [of "split_dots host"] labels sum by (simp add: list_all_iff)
  have h: "length ?h = 12" by simp
  have "0 + sum_list (map (\<lambda>l. 1 + length l) (split_dots host)) + 1 \<le> 255"
    using labels(2) sum by simp
  then have name: "qname_end ?q 12 0 = Some (12 + (length host + 1) + 1)"
    using qname_end_labels [OF labels(1), of 0 ?h ?t] unfolding h sum by blast
  have "12 + (length host + 1) + 1 + 2 = length (?h @ ?n @ [0] @ u16_to_be qtype)"
    unfolding length_append h len using be16.enc_width [of qtype] by simp
  then have qclass_field: "u16_at ?q (12 + (length host + 1) + 1 + 2) = QCLASS_IN"
    using u16_at_field_end [of _ "?h @ ?n @ [0] @ u16_to_be qtype" QCLASS_IN]
    by (simp only: append_assoc)
  have counts: "u16_at ?q 4 = 1" "u16_at ?q 6 = 0" "u16_at ?q 8 = 0"
    by (simp_all add: u16_at_def u16_from_be_def be_value_def)
  have bits: "and (?q ! 2) 0xF8 = 0" "and (?q ! 3) 0xCF = 0" by simp_all
  have total: "length ?q = 12 + (length host + 1) + 1 + 4"
    unfolding length_append h len using be16.enc_width by simp
  show ?thesis
    unfolding q question_end_def Let_def counts DNS_HEADER_LEN_def name bits total
    using labels(2) qclass_field by (simp del: length_append append_Cons add: checked_add_def usize_max_def QCLASS_IN_def)
qed

section \<open>Messages of attributes\<close>

text \<open>
  A buffer whose written part is \<open>pre\<close> and whose rest is still zero, and the attribute that a
  type-length header, a value and its padding form.
\<close>

definition zero_filled :: "nat \<Rightarrow> bytes \<Rightarrow> bytes" where
  "zero_filled n pre = pre @ replicate (n - length pre) 0"

definition stun_attr :: "u16 \<Rightarrow> bytes \<Rightarrow> bytes" where
  "stun_attr t v = u16_to_be t @ u16_to_be (of_nat (length v)) @ v @
     replicate (padded (length v) - length v) 0"

lemma padded_bounds: "n \<le> padded n" "padded n \<le> n + 3" "padded n mod 4 = 0"
  unfolding padded_def by presburger+

lemma length_stun_attr [simp]: "length (stun_attr t v) = 4 + padded (length v)"
  using padded_bounds [of "length v"] be16.enc_width by (simp add: stun_attr_def)

lemma put_zero_filled:
  "off = length pre \<Longrightarrow> off + length src \<le> n \<Longrightarrow>
   put_slice off src (zero_filled n pre) = Some (zero_filled n (pre @ src))"
  by (simp add: put_slice_def zero_filled_def copy_at_def)

lemma zero_filled_skip:
  "length pre + k \<le> n \<Longrightarrow> zero_filled n (pre @ replicate k 0) = zero_filled n pre"
  by (simp add: zero_filled_def replicate_add [symmetric])

lemma zero_filled_full: "length pre = n \<Longrightarrow> zero_filled n pre = pre"
  by (simp add: zero_filled_def)

lemma take_zero_filled: "off = length pre \<Longrightarrow> take off (zero_filled n pre) = pre"
  by (simp add: zero_filled_def)

lemma write_tlv_zero_filled:
  "off = length pre \<Longrightarrow> off + 4 \<le> n \<Longrightarrow>
   write_tlv (zero_filled n pre) off t l = Some (zero_filled n (pre @ u16_to_be t @ u16_to_be l))"
  using be16.enc_width [of t] be16.enc_width [of l] by (simp add: write_tlv_def put_zero_filled)

lemma write_attr:
  assumes "off = length pre" "off + 4 + padded (length v) \<le> n" "l = of_nat (length v)"
  shows "write_tlv (zero_filled n pre) off t l \<bind> (\<lambda>pkt. put_slice (off + 4) v pkt \<bind> k) =
         k (zero_filled n (pre @ stun_attr t v))"
proof -
  have v: "length v \<le> padded (length v)" by (rule padded_bounds)
  have "zero_filled n (pre @ stun_attr t v) =
        zero_filled n ((pre @ u16_to_be t @ u16_to_be l @ v) @ replicate (padded (length v) - length v) 0)"
    using assms(3) by (simp add: stun_attr_def)
  also have "\<dots> = zero_filled n (pre @ u16_to_be t @ u16_to_be l @ v)"
    using assms v be16.enc_width by (intro zero_filled_skip) simp
  finally show ?thesis
    using assms v be16.enc_width by (simp add: write_tlv_zero_filled put_zero_filled)
qed

lemma write_attr_last:
  "off = length pre \<Longrightarrow> off + 4 + padded (length v) \<le> n \<Longrightarrow> l = of_nat (length v) \<Longrightarrow>
   write_tlv (zero_filled n pre) off t l \<bind> put_slice (off + 4) v =
   Some (zero_filled n (pre @ stun_attr t v))"
  using write_attr [of off pre v n l t Some] by simp

lemma put_middle: "length a = i \<Longrightarrow> length b = length x \<Longrightarrow> put_slice i x (a @ b @ c) = Some (a @ x @ c)"
  by (simp add: put_slice_def copy_at_def)

text \<open>The walk over attributes: it steps over every one but a fingerprint, which has to be last.\<close>

lemma attr_fields:
  assumes "length v \<le> 65535"
  shows "u16_at (pre @ stun_attr t v @ post) (length pre) = t"
    and "unat (u16_at (pre @ stun_attr t v @ post) (length pre + 2)) = length v"
proof -
  let ?p = "replicate (padded (length v) - length v) 0 @ post"
  have msg: "pre @ stun_attr t v @ post = pre @ u16_to_be t @ u16_to_be (of_nat (length v)) @ v @ ?p"
    by (simp add: stun_attr_def)
  show "u16_at (pre @ stun_attr t v @ post) (length pre) = t" by (simp only: msg u16_at_field)
  have "u16_at (pre @ stun_attr t v @ post) (length pre + 2) = of_nat (length v)"
    using u16_at_field [of "length pre + 2" "pre @ u16_to_be t" "of_nat (length v)" "v @ ?p"]
      be16.enc_width [of t] by (simp add: msg)
  then show "unat (u16_at (pre @ stun_attr t v @ post) (length pre + 2)) = length v"
    using assms by (simp add: unat_u16_of_nat)
qed

lemma walk_over:
  assumes "t \<noteq> 0x8028" "length v \<le> 65535" "length (pre @ stun_attr t v @ post) \<le> usize_max"
  shows "check_fingerprint_from (pre @ stun_attr t v @ post) (length pre) =
         check_fingerprint_from ((pre @ stun_attr t v) @ post) (length (pre @ stun_attr t v))"
proof -
  note f = attr_fields [OF assms(2), of pre t post]
  show ?thesis
    using assms f by (subst check_fingerprint_from.simps) (simp add: Let_def checked_add_def add_ac)
qed

lemma four_bytes: "length v = 4 \<Longrightarrow> \<exists>a b c d. v = [a, b, c, d]"
  by (auto simp: length_Suc_conv numeral_eq_Suc)

definition fingerprint_attr :: "bytes \<Rightarrow> bytes" where
  "fingerprint_attr body = stun_attr 0x8028 (u32_to_be (xor (crc32_ieee body) 0x5354554e))"

lemma walk_fingerprint: "check_fingerprint_from (pre @ fingerprint_attr pre) (length pre) = FpValid"
proof -
  let ?v = "u32_to_be (xor (crc32_ieee pre) 0x5354554e)"
  have v: "length ?v = 4" by (rule be32.enc_width)
  obtain a b c d where abcd: "?v = [a, b, c, d]"
    using four_bytes [OF v] by (elim exE)
  have dec: "u32_from_be [a, b, c, d] = xor (crc32_ieee pre) 0x5354554e"
    using be32.dec_enc [of "xor (crc32_ieee pre) 0x5354554e"] abcd by simp
  have f: "u16_at (pre @ fingerprint_attr pre) (length pre) = 0x8028"
      "unat (u16_at (pre @ fingerprint_attr pre) (length pre + 2)) = 4"
    using attr_fields [of ?v pre "0x8028" "[]"] v by (simp_all add: fingerprint_attr_def)
  have attr: "fingerprint_attr pre = u16_to_be 0x8028 @ u16_to_be 4 @ [a, b, c, d]"
    using abcd by (simp add: fingerprint_attr_def stun_attr_def padded_def)
  have len: "length (fingerprint_attr pre) = 8" using attr be16.enc_width by simp
  have nth: "fingerprint_attr pre ! 4 = a" "fingerprint_attr pre ! 5 = b"
      "fingerprint_attr pre ! 6 = c" "fingerprint_attr pre ! 7 = d"
    unfolding attr using be16.enc_width by (simp_all add: nth_append)
  show ?thesis
    by (subst check_fingerprint_from.simps) (simp add: f [simplified] len nth dec FP_ATTR_LEN_def Let_def)
qed

section \<open>Generated requests\<close>

definition stun_header :: "u16 \<Rightarrow> nat \<Rightarrow> bytes \<Rightarrow> bytes" where
  "stun_header msg_type len trans_id =
     u16_to_be msg_type @ u16_to_be (of_nat len) @ STUN_MAGIC_COOKIE @ trans_id"

definition request_attrs :: "binding_request \<Rightarrow> bytes" where
  "request_attrs p =
     stun_attr 0x8022 (br_software p) @ stun_attr 0x0006 (br_username p) @
     stun_attr 0x0024 (u32_to_be (br_priority p)) @ stun_attr 0x802a (u64_to_be (br_ice_controlling p)) @
     (if br_use_candidate p then stun_attr 0x0025 [] else [])"

lemma padded_consts: "padded 0 = 0" "padded 4 = 4" "padded 8 = 8" "padded 20 = 20"
  by (simp_all add: padded_def)

lemma length_request_attrs: "length (request_attrs p) = base_attrs_len p"
  using be32.enc_width [of "br_priority p"] be64.enc_width [of "br_ice_controlling p"]
  by (simp add: request_attrs_def base_attrs_len_def padded_consts)

lemma length_stun_header: "length trans_id = 12 \<Longrightarrow> length (stun_header t len trans_id) = 20"
  using be16.enc_width by (simp add: stun_header_def STUN_MAGIC_COOKIE_def)

lemma write_header:
  assumes "20 \<le> n" "length trans_id = 12"
  shows "put_slice 0 (u16_to_be t) (replicate n 0) \<bind> (\<lambda>pkt. put_slice 2 (u16_to_be (of_nat len)) pkt \<bind>
     (\<lambda>pkt. put_slice 4 STUN_MAGIC_COOKIE pkt \<bind> (\<lambda>pkt. put_slice 8 trans_id pkt \<bind> k))) =
   k (zero_filled n (stun_header t len trans_id))"
proof -
  have start: "replicate n 0 = zero_filled n []" by (simp add: zero_filled_def)
  have "length STUN_MAGIC_COOKIE = 4" by (simp add: STUN_MAGIC_COOKIE_def)
  then show ?thesis
    unfolding start using assms be16.enc_width by (simp add: put_zero_filled stun_header_def)
qed

lemma patch_length:
  "put_slice 2 (u16_to_be (of_nat len')) (zero_filled n (stun_header t len tid @ rest)) =
   Some (zero_filled n (stun_header t len' tid @ rest))"
  using put_middle [of "u16_to_be t" 2 "u16_to_be (of_nat len)" "u16_to_be (of_nat len')"] be16.enc_width
  by (simp add: zero_filled_def stun_header_def)

lemma write_flag:
  "off = length pre \<Longrightarrow> off + 4 \<le> n \<Longrightarrow>
   (if c then write_tlv (zero_filled n pre) off t 0 else Some (zero_filled n pre)) \<bind> k =
   k (zero_filled n (pre @ (if c then stun_attr t [] else [])))"
  by (simp add: write_tlv_zero_filled stun_attr_def padded_def)

lemma take_hmac:
  "off = length pre \<Longrightarrow> (\<And>k d. length (H k d) = 20) \<Longrightarrow>
   hmac_sha1 H key (take off (zero_filled n pre)) \<bind> k = k (H key pre)"
  by (simp add: hmac_sha1_def take_zero_filled)

lemma attr_lens: "MI_ATTR_LEN = 24" "FP_ATTR_LEN = 8"
  by (simp_all add: MI_ATTR_LEN_def FP_ATTR_LEN_def)

lemma build_binding_request_closed:
  assumes tid: "length (br_trans_id p) = 12" and tag: "\<And>k d. length (H k d) = 20"
  defines "attrs \<equiv> base_attrs_len p"
  defines "mi \<equiv> H (br_ice_pwd p) (stun_header 0x0001 (attrs + 24) (br_trans_id p) @ request_attrs p)"
  defines "body \<equiv> stun_header 0x0001 (attrs + 24 + 8) (br_trans_id p) @ request_attrs p @ stun_attr 0x0008 mi"
  shows "build_binding_request H p = Some (body @ fingerprint_attr body)"
proof -
  let ?h = "\<lambda>k. stun_header 0x0001 k (br_trans_id p)"
  have w: "length (u32_to_be (br_priority p)) = 4" "length (u64_to_be (br_ice_controlling p)) = 8"
    "length mi = 20" "\<And>x. length (u32_to_be x) = 4"
    by (simp_all add: be32.enc_width be64.enc_width mi_def tag)
  have hl: "length (?h k) = 20" for k by (rule length_stun_header [OF tid])
  note facts = w hl padded_consts length_request_attrs tid
  have msg: "length (body @ fingerprint_attr body) = 20 + attrs + 24 + 8"
    using facts by (simp add: body_def fingerprint_attr_def attrs_def)
  have len: "attrs = 4 + padded (length (br_software p)) + (4 + padded (length (br_username p))) + 8 + 12 +
      (if br_use_candidate p then 4 else 0)"
    by (simp add: attrs_def base_attrs_len_def)
  show ?thesis
    unfolding build_binding_request_def Let_def STUN_HEADER_LEN_def attr_lens
      attrs_def [symmetric]
    apply (subst write_header, simp, rule tid)
    apply (subst write_attr, simp add: hl, simp add: len, simp)
    apply (subst write_attr, simp add: hl, simp add: len, simp)
    apply (subst write_attr, simp add: hl, simp add: len w padded_consts, simp add: w)
    apply (subst write_attr, simp add: hl w padded_consts, simp add: len w padded_consts, simp add: w)
    apply (subst write_flag, simp add: hl w padded_consts, simp add: len)
    apply (subst take_hmac, simp add: hl w padded_consts, rule tag)
    apply (subst write_attr, simp add: hl w padded_consts, simp add: len tag padded_consts, simp add: tag)
    apply (simp only: append_assoc)
    apply (subst patch_length)
    apply (simp only: bind.bind_lunit)
    apply (subst take_zero_filled, simp add: hl w tag padded_consts)
    apply (subst write_attr_last, simp add: hl w tag padded_consts, simp add: len w padded_consts, simp add: w)
    apply (rule arg_cong [where f = Some])
    apply (rule trans [OF _ zero_filled_full [OF msg]])
    apply (simp only: body_def mi_def request_attrs_def fingerprint_attr_def append_assoc)
    done
qed

lemma request_attrs_walk:
  assumes "length (br_software p) \<le> 65535" "length (br_username p) \<le> 65535"
    and "length (pre @ request_attrs p @ post) \<le> usize_max"
  shows "check_fingerprint_from (pre @ request_attrs p @ post) (length pre) =
         check_fingerprint_from ((pre @ request_attrs p) @ post) (length (pre @ request_attrs p))"
proof -
  let ?sw = "stun_attr 0x8022 (br_software p)" and ?un = "stun_attr 0x0006 (br_username p)"
  let ?pr = "stun_attr 0x0024 (u32_to_be (br_priority p))"
  let ?ic = "stun_attr 0x802a (u64_to_be (br_ice_controlling p))"
  let ?uc = "if br_use_candidate p then stun_attr 0x0025 [] else []"
  let ?msg = "pre @ request_attrs p @ post"
  have all: "?msg = pre @ ?sw @ ?un @ ?pr @ ?ic @ ?uc @ post" by (simp add: request_attrs_def)
  have w: "length (u32_to_be (br_priority p)) = 4" "length (u64_to_be (br_ice_controlling p)) = 8"
    by (simp_all add: be32.enc_width be64.enc_width)
  have s1: "check_fingerprint_from ?msg (length pre) = check_fingerprint_from ?msg (length (pre @ ?sw))"
    using walk_over [of "0x8022" "br_software p" pre "?un @ ?pr @ ?ic @ ?uc @ post"] assms all by simp
  have s2: "check_fingerprint_from ?msg (length (pre @ ?sw)) = check_fingerprint_from ?msg (length (pre @ ?sw @ ?un))"
    using walk_over [of "0x0006" "br_username p" "pre @ ?sw" "?pr @ ?ic @ ?uc @ post"] assms all by simp
  have s3: "check_fingerprint_from ?msg (length (pre @ ?sw @ ?un)) =
      check_fingerprint_from ?msg (length (pre @ ?sw @ ?un @ ?pr))"
    using walk_over [of "0x0024" _ "pre @ ?sw @ ?un" "?ic @ ?uc @ post"] w assms all by simp
  have s4: "check_fingerprint_from ?msg (length (pre @ ?sw @ ?un @ ?pr)) =
      check_fingerprint_from ?msg (length (pre @ ?sw @ ?un @ ?pr @ ?ic))"
    using walk_over [of "0x802a" _ "pre @ ?sw @ ?un @ ?pr" "?uc @ post"] w assms all by simp
  have s5: "check_fingerprint_from ?msg (length (pre @ ?sw @ ?un @ ?pr @ ?ic)) =
      check_fingerprint_from ?msg (length (pre @ ?sw @ ?un @ ?pr @ ?ic @ ?uc))"
    using walk_over [of "0x0025" "[]" "pre @ ?sw @ ?un @ ?pr @ ?ic" post] assms all
    by (cases "br_use_candidate p") (simp_all add: padded_consts)
  show ?thesis using s1 s2 s3 s4 s5 by (simp add: request_attrs_def)
qed

lemma header_fields:
  assumes "length tid = 12" "len \<le> 65535"
  shows "u16_at (stun_header t len tid @ rest) 0 = t"
    and "unat (u16_at (stun_header t len tid @ rest) 2) = len"
    and "slice 4 8 (stun_header t len tid @ rest) = STUN_MAGIC_COOKIE"
    and "slice 8 20 (stun_header t len tid @ rest) = tid"
    and "slice 4 20 (stun_header t len tid @ rest) = STUN_MAGIC_COOKIE @ tid"
proof -
  have c: "length STUN_MAGIC_COOKIE = 4" by (simp add: STUN_MAGIC_COOKIE_def)
  have w: "length (u16_to_be x) = 2" for x by (rule be16.enc_width)
  show "u16_at (stun_header t len tid @ rest) 0 = t"
    using u16_at_field [of 0 "[]" t] by (simp add: stun_header_def)
  have "u16_at (stun_header t len tid @ rest) 2 = of_nat len"
    using u16_at_field [of 2 "u16_to_be t"] w by (simp add: stun_header_def)
  then show "unat (u16_at (stun_header t len tid @ rest) 2) = len"
    using assms(2) by (simp add: unat_u16_of_nat)
  show "slice 4 8 (stun_header t len tid @ rest) = STUN_MAGIC_COOKIE"
    "slice 8 20 (stun_header t len tid @ rest) = tid"
    "slice 4 20 (stun_header t len tid @ rest) = STUN_MAGIC_COOKIE @ tid"
    using assms(1) c w by (simp_all add: stun_header_def slice_def)
qed

lemma request_verifies:
  assumes tid: "length (br_trans_id p) = 12" and tag: "\<And>k d. length (H k d) = 20"
    and sw: "length (br_software p) \<le> 127" and un: "length (br_username p) \<le> 255"
  shows "\<exists>msg. build_binding_request H p = Some msg \<and>
    binding_request_len msg = Some (length msg - 20) \<and> check_fingerprint msg = FpValid"
proof -
  define attrs where "attrs = base_attrs_len p"
  define mi where "mi = H (br_ice_pwd p) (stun_header 0x0001 (attrs + 24) (br_trans_id p) @ request_attrs p)"
  define h where "h = stun_header 0x0001 (attrs + 24 + 8) (br_trans_id p)"
  define body where "body = h @ request_attrs p @ stun_attr 0x0008 mi"
  let ?msg = "body @ fingerprint_attr body"
  have build: "build_binding_request H p = Some ?msg"
    unfolding body_def h_def mi_def attrs_def by (rule build_binding_request_closed [OF tid tag])
  have hl: "length h = 20" unfolding h_def by (rule length_stun_header [OF tid])
  have mi: "length mi = 20" by (simp add: mi_def tag)
  have fl: "length (fingerprint_attr body) = 8"
    using be32.enc_width by (simp add: fingerprint_attr_def padded_consts)
  have len: "length ?msg = 20 + (attrs + 24 + 8)"
    using hl mi fl by (simp add: body_def length_request_attrs attrs_def padded_consts)
  have small: "attrs \<le> 500" "attrs mod 4 = 0"
    using sw un padded_bounds [of "length (br_software p)"] padded_bounds [of "length (br_username p)"]
    by (auto simp: attrs_def base_attrs_len_def padded_def)
  have rest: "?msg = h @ (request_attrs p @ stun_attr 0x0008 mi @ fingerprint_attr body)"
    by (simp add: body_def)
  note f = header_fields [OF tid, of "attrs + 24 + 8" "0x0001", folded h_def]
  have "binding_request_len ?msg = Some (length ?msg - 20)"
    unfolding binding_request_len_def STUN_HEADER_LEN_def Let_def rest
    using f small len [unfolded rest]
    by (auto simp: BINDING_REQUEST_def MAX_BINDING_REQUEST_LEN_def)
  moreover have "check_fingerprint ?msg = FpValid"
  proof -
    have "check_fingerprint_from ?msg (length h) = check_fingerprint_from ?msg (length (h @ request_attrs p))"
      using request_attrs_walk [of p h "stun_attr 0x0008 mi @ fingerprint_attr body"] sw un len small
      by (simp add: body_def usize_max_def)
    also have "\<dots> = check_fingerprint_from ?msg (length body)"
      using walk_over [of "0x0008" mi "h @ request_attrs p" "fingerprint_attr body"] mi len small
      by (simp add: body_def usize_max_def)
    also have "\<dots> = FpValid" by (rule walk_fingerprint)
    finally show ?thesis by (simp add: check_fingerprint_def STUN_HEADER_LEN_def hl)
  qed
  ultimately show ?thesis using build by blast
qed

lemma length_token_chars [simp]: "length (fst (token_chars R n g)) = n"
  by (induction n arbitrary: g) (simp_all add: Let_def case_prod_beta)

lemma random_token_length: "min_len \<le> max_len \<Longrightarrow>
  min_len \<le> length (fst (random_token R min_len max_len g)) \<and> length (fst (random_token R min_len max_len g)) \<le> max_len"
  using mod_less_divisor [of "max_len - min_len + 1"]
  by (simp add: random_token_def Let_def case_prod_beta) (metis Suc_diff_le add_le_imp_le_diff le_add_diff_inverse less_Suc_eq_le mod_less_divisor nat_add_left_cancel_le zero_less_Suc)


section \<open>Replies\<close>

text \<open>What RFC 5389 has the client read out of XOR-MAPPED-ADDRESS, the first attribute of the reply.\<close>

definition xor_mapped_of :: "bytes \<Rightarrow> socket_addr" where
  "xor_mapped_of msg =
     \<lparr> sa_ip = (if msg ! 25 = 1 then IpV4 (map2 xor (slice 28 32 msg) (slice 4 8 msg))
               else IpV6 (map2 xor (slice 28 44 msg) (slice 4 20 msg))),
       sa_port = xor (u16_at msg 26) (u16_at msg 4) \<rparr>"

definition mapped_value :: "socket_addr \<Rightarrow> bytes \<Rightarrow> bytes" where
  "mapped_value client trans_id =
     (case sa_ip client of
        IpV4 v4 \<Rightarrow> [0, 1] @ u16_to_be (xor (sa_port client) (ucast (drop_bit 16 stun_cookie))) @
                   u32_to_be (xor (u32_from_be v4) stun_cookie)
      | IpV6 v6 \<Rightarrow> [0, 2] @ u16_to_be (xor (sa_port client) (ucast (drop_bit 16 stun_cookie))) @
                   map (\<lambda>i. xor (v6 ! i) ((STUN_MAGIC_COOKIE @ trans_id) ! i)) [0..<16])"

lemma length_mapped_value: "length (mapped_value client tid) = xor_mapped_len client - 4"
  using be16.enc_width be32.enc_width
  by (simp add: mapped_value_def xor_mapped_len_def split: ip_addr.splits)

lemma padded_mapped_value [simp]: "padded (length (mapped_value client tid)) = xor_mapped_len client - 4"
  by (simp add: length_mapped_value xor_mapped_len_def padded_def split: ip_addr.splits)

lemma put_byte_slice: "put_byte i b d = put_slice i [b] d"
  by (auto simp: put_byte_def put_slice_def copy_at_def upd_conv_take_nth_drop)

lemma write_mapped:
  assumes "off = length pre" "off + xor_mapped_len client \<le> n"
  shows "write_xor_mapped_address (zero_filled n pre) off client tid =
    Some (zero_filled n (pre @ stun_attr 0x0020 (mapped_value client tid)))"
proof -
  have w: "length (u16_to_be x) = 2" "length (u32_to_be y) = 4" for x y
    by (simp_all add: be16.enc_width be32.enc_width)
  have attr: "stun_attr 0x0020 (mapped_value client tid) =
      u16_to_be 0x0020 @ u16_to_be (of_nat (length (mapped_value client tid))) @ mapped_value client tid"
    by (simp add: stun_attr_def) (simp add: length_mapped_value)
  show ?thesis
  proof (cases "sa_ip client")
    case (IpV4 v4)
    then have n: "off + 12 \<le> n" and l: "length (mapped_value client tid) = 8"
      using assms(2) by (simp_all add: xor_mapped_len_def length_mapped_value)
    show ?thesis
      using n assms(1) w IpV4 unfolding attr l
      by (simp add: write_xor_mapped_address_def write_tlv_zero_filled put_byte_slice put_zero_filled mapped_value_def Let_def)
  next
    case (IpV6 v6)
    then have n: "off + 24 \<le> n" and l: "length (mapped_value client tid) = 20"
      using assms(2) by (simp_all add: xor_mapped_len_def length_mapped_value)
    show ?thesis
      using n assms(1) w IpV6 unfolding attr l
      by (simp add: write_xor_mapped_address_def write_tlv_zero_filled put_byte_slice put_zero_filled mapped_value_def Let_def)
  qed
qed

lemma le_bytes_xor: "le_bytes n (xor x y) = map2 xor (le_bytes n x) (le_bytes n y)"
proof (induction n arbitrary: x y)
  case (Suc n)
  have "(of_nat (xor x y mod 256) :: u8) = xor (of_nat (x mod 256)) (of_nat (y mod 256))"
  proof -
    have "xor x y mod 256 = xor (x mod 256) (y mod 256)"
      using take_bit_xor [of 8 x y] by (simp add: take_bit_eq_mod)
    then show ?thesis by (simp add: of_nat_xor_eq)
  qed
  moreover have "xor x y div 256 = xor (x div 256) (y div 256)"
    using drop_bit_xor [of 8 x y] by (simp add: drop_bit_eq_div)
  ultimately show ?case using Suc by simp
qed simp

lemma u32_to_be_xor: "u32_to_be (xor a b) = map2 xor (u32_to_be a) (u32_to_be b)"
proof -
  have z: "length xs = length ys \<Longrightarrow> rev (map2 f xs ys) = map2 f (rev xs) (rev ys)" for f :: "u8 \<Rightarrow> u8 \<Rightarrow> u8" and xs ys
    by (simp add: rev_map zip_rev)
  show ?thesis
    by (simp add: u32_to_be_def be_bytes_def unsigned_xor_eq le_bytes_xor z)
qed

lemma map2_xor_twice: "length xs = length ys \<Longrightarrow> map2 xor (map2 xor xs ys) ys = (xs :: bytes)"
  by (induction xs ys rule: list_induct2) (simp_all add: xor.assoc)

lemma cookie_bytes: "u32_to_be stun_cookie = STUN_MAGIC_COOKIE"
  unfolding stun_cookie_def by (rule be32.enc_dec) (simp add: STUN_MAGIC_COOKIE_def)

lemma cookie_top: "(ucast (drop_bit 16 stun_cookie) :: u16) = u16_from_be [0x21, 0x12]"
  by (simp add: stun_cookie_def STUN_MAGIC_COOKIE_def u32_from_be_def u16_from_be_def be_value_def) 

lemma xor_mapped_read:
  assumes "length tid = 12" "len \<le> 65535" "ip_wf (sa_ip client)"
  shows "xor_mapped_of (stun_header t len tid @ stun_attr 0x0020 (mapped_value client tid) @ rest) = client"
  (is "xor_mapped_of ?msg = _")
proof -
  have w: "length (u16_to_be x) = 2" "length (u32_to_be y) = 4" for x y
    by (simp_all add: be16.enc_width be32.enc_width)
  have h: "length (stun_header t len tid) = 20" by (rule length_stun_header [OF assms(1)])
  note f = header_fields [OF assms(1,2), of t "stun_attr 0x0020 (mapped_value client tid) @ rest"]
  have c4: "u16_at ?msg 4 = ucast (drop_bit 16 stun_cookie)"
    using assms(1) w by (simp add: cookie_top u16_at_def stun_header_def STUN_MAGIC_COOKIE_def nth_append)
  obtain fam addr where v: "mapped_value client tid = [0, fam] @
      u16_to_be (xor (sa_port client) (ucast (drop_bit 16 stun_cookie))) @ addr"
      and fam: "fam = 1 \<longleftrightarrow> (\<exists>v4. sa_ip client = IpV4 v4)"
      and v4: "\<And>v4. sa_ip client = IpV4 v4 \<Longrightarrow> addr = u32_to_be (xor (u32_from_be v4) stun_cookie)"
      and v6: "\<And>v6. sa_ip client = IpV6 v6 \<Longrightarrow>
        addr = map (\<lambda>i. xor (v6 ! i) ((STUN_MAGIC_COOKIE @ tid) ! i)) [0..<16]"
    by (cases "sa_ip client") (auto simp: mapped_value_def)
  define pre where "pre = stun_header t len tid @ u16_to_be 0x0020 @ u16_to_be (of_nat (length (mapped_value client tid)))"
  define post where "post = replicate (padded (length (mapped_value client tid)) - length (mapped_value client tid)) 0 @ rest"
  let ?port = "u16_to_be (xor (sa_port client) (ucast (drop_bit 16 stun_cookie)))"
  have m: "?msg = pre @ [0, fam] @ ?port @ addr @ post" and pl: "length pre = 24"
    using h w unfolding pre_def post_def stun_attr_def by (simp_all add: v)
  have fam_at: "?msg ! 25 = fam" using pl by (simp add: m nth_append)
  have port: "xor (u16_at ?msg 26) (u16_at ?msg 4) = sa_port client"
    unfolding c4 unfolding m using u16_at_field [of 26 "pre @ [0, fam]"] pl by (simp add: xor.assoc)
  have at: "slice 28 (28 + length addr) ?msg = addr"
    using pl w by (simp add: m slice_def)
  show ?thesis
  proof (cases "sa_ip client")
    case (IpV4 x)
    have x: "length x = 4" using assms(3) IpV4 by (simp add: ip_wf_def)
    have a: "addr = map2 xor x STUN_MAGIC_COOKIE"
      using v4 [OF IpV4] be32.enc_dec [OF x] by (simp add: u32_to_be_xor cookie_bytes)
    have "map2 xor (slice 28 32 ?msg) (slice 4 8 ?msg) = x"
      using at f(3) x by (simp add: a STUN_MAGIC_COOKIE_def map2_xor_twice)
    then show ?thesis using fam_at fam IpV4 port by (simp add: xor_mapped_of_def)
  next
    case (IpV6 x)
    have x: "length x = 16" using assms(3) IpV6 by (simp add: ip_wf_def)
    have k: "length (STUN_MAGIC_COOKIE @ tid) = 16" using assms(1) by (simp add: STUN_MAGIC_COOKIE_def)
    have a: "addr = map2 xor x (STUN_MAGIC_COOKIE @ tid)"
      unfolding v6 [OF IpV6] using x k by (intro nth_equalityI) simp_all
    have "map2 xor (slice 28 44 ?msg) (slice 4 20 ?msg) = x"
      using at f(5) x k by (simp add: a map2_xor_twice)
    then show ?thesis using fam_at fam IpV6 port by (simp add: xor_mapped_of_def)
  qed
qed

lemma walk_end: "check_fingerprint_from msg (length msg) = FpAbsent"
  by (subst check_fingerprint_from.simps) simp

lemma binding_success_closed:
  fixes client :: socket_addr
  assumes "binding_request_len request = Some len" "check_fingerprint request \<noteq> FpInvalid"
    and "length software \<le> MAX_SOFTWARE_LEN"
  defines "tid \<equiv> slice 8 20 request"
  defines "attrs_len \<equiv> xor_mapped_len client + (4 + padded (length software)) +
    (if check_fingerprint request = FpValid then 8 else 0)"
  defines "body \<equiv> stun_header 0x0101 attrs_len tid @ stun_attr 0x0020 (mapped_value client tid) @
    stun_attr 0x8022 software"
  shows "binding_success request client software =
    Some (Some (body @ (if check_fingerprint request = FpValid then fingerprint_attr body else [])))"
proof -
  have tid: "length tid = 12"
    using assms(1) by (auto simp: tid_def binding_request_len_def STUN_HEADER_LEN_def split: if_splits)
  have hl: "length (stun_header t k tid) = 20" for t k by (rule length_stun_header [OF tid])
  have x: "xor_mapped_len client \<ge> 4" by (simp add: xor_mapped_len_def)
  have w: "length (u32_to_be y) = 4" for y by (rule be32.enc_width)
  have bl: "length body = 20 + xor_mapped_len client + (4 + padded (length software))"
    using x hl by (simp add: body_def)
  show ?thesis
    unfolding binding_success_def assms(1) option.case Let_def STUN_HEADER_LEN_def attr_lens tid_def [symmetric]
      attrs_len_def [symmetric]
    using assms(2,3) apply (simp only: if_False not_less [symmetric])
    apply (subst write_header, simp, rule tid)
    apply (subst write_mapped, simp add: hl, simp add: attrs_len_def)
    apply (simp only: bind.bind_lunit)
    apply (subst write_attr, simp add: hl x, simp add: attrs_len_def, simp)
    apply (simp only: append_assoc body_def [symmetric])
    apply (cases "check_fingerprint request = FpValid")
    apply (subst if_P, assumption)
    apply (subst take_zero_filled, simp add: bl)
    apply (subst write_attr_last, simp add: bl, simp add: attrs_len_def w padded_consts, simp add: w)
    apply (simp add: attrs_len_def zero_filled_full bl fingerprint_attr_def w padded_consts)
    apply (simp add: attrs_len_def zero_filled_full bl)
    done
qed


lemma reply_fingerprint:
  fixes client :: socket_addr
  assumes tid: "length tid = 12" and sw: "length software \<le> 127"
  defines "body \<equiv> \<lambda>k. stun_header 0x0101 k tid @ stun_attr 0x0020 (mapped_value client tid) @ stun_attr 0x8022 software"
  shows "check_fingerprint (body k @ fingerprint_attr (body k)) = FpValid"
    and "check_fingerprint (body k) = FpAbsent"
    and "length (body k) = 20 + xor_mapped_len client + (4 + padded (length software))"
proof -
  let ?h = "stun_header 0x0101 k tid" and ?m = "stun_attr 0x0020 (mapped_value client tid)"
  have h: "length ?h = 20" by (rule length_stun_header [OF tid])
  have x: "4 \<le> xor_mapped_len client" "xor_mapped_len client \<le> 24"
    by (simp_all add: xor_mapped_len_def split: ip_addr.splits)
  have mv: "length (mapped_value client tid) \<le> 65535" using x by (simp add: length_mapped_value)
  show l: "length (body k) = 20 + xor_mapped_len client + (4 + padded (length software))"
    using h x by (simp add: body_def)
  have small: "length (body k) \<le> 200" using l x padded_bounds [of "length software"] sw by simp
  have walk: "check_fingerprint (body k @ post) = check_fingerprint_from (body k @ post) (length (body k))"
    if "length post \<le> 8" for post
  proof -
    have u: "length (body k @ post) \<le> usize_max" using small that by (simp add: usize_max_def)
    have "check_fingerprint (body k @ post) = check_fingerprint_from (body k @ post) (length ?h)"
      by (simp add: check_fingerprint_def STUN_HEADER_LEN_def h)
    also have "\<dots> = check_fingerprint_from (body k @ post) (length (?h @ ?m))"
      using walk_over [of "0x0020" _ ?h "stun_attr 0x8022 software @ post", OF _ mv] u by (simp add: body_def)
    also have "\<dots> = check_fingerprint_from (body k @ post) (length (body k))"
      using walk_over [of "0x8022" software "?h @ ?m" post] u sw by (simp add: body_def)
    finally show ?thesis .
  qed
  show "check_fingerprint (body k @ fingerprint_attr (body k)) = FpValid"
    using walk [of "fingerprint_attr (body k)"] walk_fingerprint [of "body k"] be32.enc_width
    by (simp add: fingerprint_attr_def padded_consts)
  show "check_fingerprint (body k) = FpAbsent"
    using walk [of "[]"] walk_end [of "body k"] by simp
qed

lemma stun_reply_facts:
  assumes "ip_wf (sa_ip client)"
  shows "\<exists>r. binding_success request client software = Some r \<and>
    (r \<noteq> None \<longleftrightarrow> binding_request_len request \<noteq> None \<and> check_fingerprint request \<noteq> FpInvalid \<and>
                length software \<le> MAX_SOFTWARE_LEN) \<and>
    (\<forall>reply. r = Some reply \<longrightarrow>
       u16_at reply 0 = 0x0101 \<and> length reply = 20 + unat (u16_at reply 2) \<and> length reply \<le> 184 \<and>
       slice 8 20 reply = slice 8 20 request \<and> xor_mapped_of reply = client \<and>
       check_fingerprint reply = check_fingerprint request)"
proof (cases "binding_request_len request \<noteq> None \<and> check_fingerprint request \<noteq> FpInvalid \<and>
              length software \<le> MAX_SOFTWARE_LEN")
  case False
  then have "binding_success request client software = Some None"
    by (auto simp: binding_success_def Let_def split: option.split)
  with False show ?thesis by blast
next
  case True
  then obtain len where req: "binding_request_len request = Some len" by blast
  define fp where "fp = check_fingerprint request"
  have fpc: "fp = FpValid \<or> fp = FpAbsent" using True by (cases fp) (simp_all add: fp_def)
  have sw: "length software \<le> 127" using True by (simp add: MAX_SOFTWARE_LEN_def)
  define tid where "tid = slice 8 20 request"
  have tid: "length tid = 12"
    using req by (auto simp: tid_def binding_request_len_def STUN_HEADER_LEN_def split: if_splits)
  define k where "k = xor_mapped_len client + (4 + padded (length software)) + (if fp = FpValid then 8 else 0)"
  define body where "body = stun_header 0x0101 k tid @ stun_attr 0x0020 (mapped_value client tid) @ stun_attr 0x8022 software"
  define reply where "reply = body @ (if fp = FpValid then fingerprint_attr body else [])"
  have run: "binding_success request client software = Some (Some reply)"
    unfolding reply_def body_def k_def fp_def tid_def
    using True by (intro binding_success_closed [OF req]) simp_all
  note b = reply_fingerprint [OF tid sw, of k client, folded body_def]
  have x: "xor_mapped_len client \<le> 24" by (simp add: xor_mapped_len_def split: ip_addr.splits)
  have "padded (length software) \<le> 128" unfolding padded_def using sw by presburger
  then have k: "k \<le> 164" using x by (simp add: k_def)
  have len: "length reply = 20 + k"
    using b(3) be32.enc_width by (simp add: reply_def k_def fingerprint_attr_def padded_consts)
  have ctx: "reply = stun_header 0x0101 k tid @ stun_attr 0x0020 (mapped_value client tid) @
      (stun_attr 0x8022 software @ (if fp = FpValid then fingerprint_attr body else []))"
    by (simp add: reply_def body_def)
  have k': "k \<le> 65535" using k by simp
  have "u16_at reply 0 = 0x0101" "unat (u16_at reply 2) = k" "slice 8 20 reply = tid"
    unfolding ctx by (rule header_fields [OF tid k'])+
  moreover have "xor_mapped_of reply = client"
    unfolding ctx by (rule xor_mapped_read [OF tid k' assms])
  moreover have "check_fingerprint reply = fp"
    using fpc b(1,2) by (auto simp: reply_def)
  ultimately show ?thesis using run len k True unfolding fp_def tid_def by simp
qed


definition sample_request :: bytes where
  "sample_request = stun_header 0x0001 0 (replicate 12 7)"


lemma qname_end_bounds: "qname_end data pos n = Some e \<Longrightarrow> pos < e \<and> e \<le> length data"
proof (induction data pos n rule: qname_end.induct)
  case (1 data pos n)
  show ?case
    using "1.prems" "1.IH" [OF _ refl _ _ _ refl]
    by (subst (asm) qname_end.simps) (auto simp: Let_def split: if_splits)
qed

lemma question_end_bounds: "question_end query = Some e \<Longrightarrow> 17 \<le> e \<and> e \<le> length query"
  by (auto simp: question_end_def Let_def DNS_HEADER_LEN_def checked_add_def split: if_splits Option.bind_splits
      dest!: qname_end_bounds)

lemma servfail_facts:
  assumes "servfail query = Some reply"
  shows "length reply \<le> length query \<and> question_end query = Some (length reply) \<and>
    take 2 reply = take 2 query \<and> drop 12 reply = slice 12 (length reply) query \<and>
    bit (reply ! 2) 7 \<and> and (reply ! 3) 0x0F = 2 \<and> servfail reply = None"
proof -
  obtain e where e: "question_end query = Some e"
    and r: "reply = slice 0 2 query @
           [or 0x80 (and (query ! 2) (or 0x78 0x01)), or 0x80 0x02] @
           [0x00, 0x01] @ [0x00, 0x00] @ [0x00, 0x00] @ [0x00, 0x00] @ slice 12 e query"
    using assms by (auto simp: servfail_def DNS_HEADER_LEN_def split: Option.bind_splits)
  have b: "17 \<le> e" "e \<le> length query" using question_end_bounds [OF e] by simp_all
  have s2: "slice 0 2 query = take 2 query" "length (slice 0 2 query) = 2" using b by (simp_all add: slice_def)
  have len: "length reply = e" using b by (simp add: r s2)
  have b7: "bit (or 0x80 x :: u8) 7" for x by (simp add: bit_or_iff)
  have "and (or 0x80 x :: u8) 0xF8 \<noteq> 0" for x
  proof -
    have "bit (and (or 0x80 x :: u8) 0xF8) 7" by (simp add: bit_simps b7)
    then show ?thesis by auto
  qed
  then have "question_end reply = None"
    using b s2 by (simp add: question_end_def r nth_append)
  then have "servfail reply = None" by (simp add: servfail_def)
  then show ?thesis
    using e len b s2 b7 by (simp add: r nth_append)
qed

text \<open>
  C37. The DNS responder answers only a well-formed query, and its answer is never longer than the
  query: it has the transaction id and the question of the query, the response bit, and the code of
  a server failure. An answer is not itself answered, so two responders cannot keep each other busy.
\<close>

theorem servfail_attenuates:
  assumes "servfail query = Some reply"
  shows "length reply \<le> length query \<and> question_end query = Some (length reply) \<and>
    take 2 reply = take 2 query \<and> drop 12 reply = slice 12 (length reply) query \<and>
    bit (reply ! 2) 7 \<and> and (reply ! 3) 0x0F = 2 \<and> servfail reply = None"
  by (rule servfail_facts [OF assms])

definition sample_query :: bytes where
  "sample_query = fst (build_query zero_rng (ascii ''example.net'') QTYPE_A ())"

theorem servfail_attenuates_witness:
  "\<exists>reply. servfail sample_query = Some reply \<and> length reply \<le> length sample_query \<and> servfail reply = None"
proof -
  have "is_valid_imitation_host (ascii ''example.net'')" by code_simp
  then have "servfail sample_query \<noteq> None"
    using build_query_question [of "ascii ''example.net''" zero_rng QTYPE_A "()"]
    by (simp add: sample_query_def servfail_def)
  then obtain reply where r: "servfail sample_query = Some reply" by blast
  then show ?thesis using servfail_attenuates [OF r] by blast
qed

lemma two_built:
  "\<exists>m. a = Some m \<and> P m \<Longrightarrow> \<exists>m. b = Some m \<and> P m \<Longrightarrow>
   \<exists>ms g'. a \<bind> (\<lambda>x. b \<bind> (\<lambda>y. Some ([x, y], g))) = Some (ms, g') \<and> length ms = 2 \<and> (\<forall>m \<in> set ms. P m)"
  by auto

lemma stun_generate_requests:
  assumes R: "fills_exactly R" and tag: "\<And>k d. length (H k d) = 20" and sw: "length software \<le> 127"
  shows "\<exists>reqs g'. stun_generate R H software g = Some (reqs, g') \<and> length reqs = 2 \<and>
    (\<forall>m \<in> set reqs. binding_request_len m = Some (length m - 20) \<and> check_fingerprint m = FpValid)"
proof -
  have tok: "length (fst (random_token R 4 8 x)) \<le> 8" for x using random_token_length [of 4 8 R x] by simp
  have tid: "length (fst (random_trans_id R x)) = 12" for x using R by (simp add: random_trans_id_def fills_exactly_def)
  have un: "length (fst (random_token R 4 8 x) @ ascii '':'' @ fst (random_token R 4 8 y)) \<le> 255" for x y
    using tok [of x] tok [of y] by simp
  have v: "\<exists>msg. build_binding_request H \<lparr> br_software = software,
      br_username = fst (random_token R 4 8 x) @ ascii '':'' @ fst (random_token R 4 8 y),
      br_priority = pr, br_ice_controlling = ic, br_trans_id = fst (random_trans_id R z),
      br_ice_pwd = pw, br_use_candidate = c \<rparr> = Some msg \<and>
    binding_request_len msg = Some (length msg - 20) \<and> check_fingerprint msg = FpValid" for x y z pr ic pw c
    using request_verifies [of "\<lparr> br_software = software,
      br_username = fst (random_token R 4 8 x) @ ascii '':'' @ fst (random_token R 4 8 y),
      br_priority = pr, br_ice_controlling = ic, br_trans_id = fst (random_trans_id R z),
      br_ice_pwd = pw, br_use_candidate = c \<rparr>", OF _ tag] tid un sw by simp
  show ?thesis
    unfolding stun_generate_def Let_def case_prod_beta
    by (rule two_built [where P = "\<lambda>m. binding_request_len m = Some (length m - 20) \<and> check_fingerprint m = FpValid"])
      (rule v)+
qed

lemma pool_software: "length (fst (pick_software R g)) \<le> 127"
proof -
  have "list_all (\<lambda>s. length s \<le> 127) SOFTWARE_POOL" by (simp add: SOFTWARE_POOL_def)
  moreover have "unat (fst (next_u32 R g)) mod length SOFTWARE_POOL < length SOFTWARE_POOL"
    by (simp add: SOFTWARE_POOL_def)
  ultimately show ?thesis
    by (simp add: pick_software_def case_prod_beta list_all_length)
qed

end
