(* ===== verification/Quic.thy ===== *)
theory Quic
  imports Imitation "HOL-Library.Multiset"
begin

text \<open>
  Browser-shaped QUIC Initial packets (\<open>noise/quic/{varint,crypto,initial,profiles,tls,generator}.rs\<close>)
  and the long-header parser with the Version Negotiation reply (\<open>version_negotiation.rs\<close>).

  A vector that only grows is returned as the bytes appended to it. HMAC-SHA256, AES-128-GCM and the
  AES block cipher come from other crates and are the fields of \<open>quic_crypto\<close>; what the lemmas need
  of them is the size of their results (\<open>quic_sizes\<close>). An assertion that fails and an index outside
  a buffer are panics of the source and \<open>None\<close> here.

  The lemmas show that variable-length integers read back, that padding reaches its target, that for
  every browser, server name and sequence of draws no assertion fails and every datagram has exactly
  the size of the profile and is read back by the long-header parser, and that a Version Negotiation
  reply is shorter than what provoked it, swaps the connection ids and is not answered itself.
\<close>

section \<open>Variable-length integers\<close>

definition varint_size :: "u64 \<Rightarrow> nat option" where
  "varint_size v =
     (if v < push_bit 6 1 then Some 1
      else if v < push_bit 14 1 then Some 2
      else if v < push_bit 30 1 then Some 4
      else if v < push_bit 62 1 then Some 8
      else None)"

definition varint_write :: "u64 \<Rightarrow> bytes option" where
  "varint_write v =
     (if v < push_bit 6 1 then Some [ucast v]
      else if v < push_bit 14 1 then Some (u16_to_be (or (ucast v) 0x4000))
      else if v < push_bit 30 1 then Some (u32_to_be (or (ucast v) 0x80000000))
      else if v < push_bit 62 1 then Some (u64_to_be (or v 0xc000000000000000))
      else None)"

definition varint_read :: "bytes \<Rightarrow> (u64 \<times> nat) option" where
  "varint_read input =
     (case input of
        [] \<Rightarrow> None
      | first # _ \<Rightarrow>
          let len = 2 ^ unat (drop_bit 6 first) in
          if length input < len then None
          else Some (foldl (\<lambda>v b. or (push_bit 8 v) (ucast b)) (ucast (and first 0x3f)) (slice 1 len input), len))"

section \<open>Initial cryptography\<close>

record quic_crypto =
  q_hmac_sha256 :: hmac_sign
  q_gcm_seal :: "bytes \<Rightarrow> bytes \<Rightarrow> bytes \<Rightarrow> bytes \<Rightarrow> bytes"
  q_aes_block :: "bytes \<Rightarrow> bytes \<Rightarrow> bytes"

definition INITIAL_SALT_V1 :: bytes where
  "INITIAL_SALT_V1 =
     [0x38, 0x76, 0x2c, 0xf7, 0xf5, 0x59, 0x34, 0xb3, 0x4d, 0x17, 0x9a, 0xe6, 0xa4, 0xc8, 0x0c, 0xad,
      0xcc, 0xbb, 0x7f, 0x0a]"

definition AES_KEY_LEN :: nat where "AES_KEY_LEN = 16"
definition AES_GCM_IV_LEN :: nat where "AES_GCM_IV_LEN = 12"
definition AES_GCM_TAG_LEN :: nat where "AES_GCM_TAG_LEN = 16"

record initial_keys =
  ik_key :: bytes
  ik_iv :: bytes
  ik_hp :: bytes

definition hmac_sha256 :: "quic_crypto \<Rightarrow> bytes \<Rightarrow> bytes \<Rightarrow> bytes option" where
  "hmac_sha256 Q key data =
     (let tag = q_hmac_sha256 Q key data in if length tag = 32 then Some tag else None)"

definition hkdf_extract :: "quic_crypto \<Rightarrow> bytes \<Rightarrow> bytes \<Rightarrow> bytes option" where
  "hkdf_extract Q salt ikm = hmac_sha256 Q salt ikm"

function hkdf_expand_loop ::
  "quic_crypto \<Rightarrow> bytes \<Rightarrow> bytes \<Rightarrow> nat \<Rightarrow> bytes \<Rightarrow> bytes \<Rightarrow> u8 \<Rightarrow> bytes option" where
  "hkdf_expand_loop Q prk info len out prev counter =
     (if length out < len then
        (case hmac_sha256 Q prk (prev @ info @ [counter]) of
           None \<Rightarrow> None
         | Some block \<Rightarrow> hkdf_expand_loop Q prk info len (out @ block) block (counter + 1))
      else Some (take len out))"
  by pat_completeness auto

termination
  by (relation "measure (\<lambda>(Q, prk, info, len, out, prev, counter). len - length out)")
    (auto simp: hmac_sha256_def Let_def split: if_splits)

declare hkdf_expand_loop.simps [simp del]

definition hkdf_expand :: "quic_crypto \<Rightarrow> bytes \<Rightarrow> bytes \<Rightarrow> nat \<Rightarrow> bytes option" where
  "hkdf_expand Q prk info len = hkdf_expand_loop Q prk info len [] [] 1"

definition hkdf_expand_label :: "quic_crypto \<Rightarrow> bytes \<Rightarrow> string \<Rightarrow> nat \<Rightarrow> bytes option" where
  "hkdf_expand_label Q secret label len =
     (let prefix = ascii ''tls13 '';
          label_len = length prefix + length label;
          info = u16_to_be (of_nat len) @ [of_nat label_len] @ prefix @ ascii label @ [0]
      in hkdf_expand Q secret info len)"

definition derive_initial_keys :: "quic_crypto \<Rightarrow> bytes \<Rightarrow> bytes \<Rightarrow> initial_keys option" where
  "derive_initial_keys Q salt dcid = do {
     initial_secret \<leftarrow> hkdf_extract Q salt dcid;
     client_secret \<leftarrow> hkdf_expand_label Q initial_secret ''client in'' 32;
     key \<leftarrow> hkdf_expand_label Q client_secret ''quic key'' AES_KEY_LEN;
     iv \<leftarrow> hkdf_expand_label Q client_secret ''quic iv'' AES_GCM_IV_LEN;
     hp \<leftarrow> hkdf_expand_label Q client_secret ''quic hp'' AES_KEY_LEN;
     Some \<lparr> ik_key = key, ik_iv = iv, ik_hp = hp \<rparr> }"

definition aes_128_gcm_seal :: "quic_crypto \<Rightarrow> bytes \<Rightarrow> bytes \<Rightarrow> bytes \<Rightarrow> bytes \<Rightarrow> bytes \<Rightarrow> bytes" where
  "aes_128_gcm_seal Q key iv pn aad plaintext =
     (let off = AES_GCM_IV_LEN - length pn;
          nonce = take off iv @ map2 xor (drop off iv) pn
      in q_gcm_seal Q key nonce aad plaintext)"

definition aes_ecb_block :: "quic_crypto \<Rightarrow> bytes \<Rightarrow> bytes \<Rightarrow> bytes" where
  "aes_ecb_block Q key block = q_aes_block Q key block"

section \<open>One Initial packet\<close>

definition VERSION_V1 :: u32 where "VERSION_V1 = 1"
definition FRAME_CRYPTO :: u8 where "FRAME_CRYPTO = 0x06"

record initial_params =
  ip_dcid :: bytes
  ip_scid :: bytes
  ip_packet_number :: u32
  ip_pn_len :: nat
  ip_crypto_offset :: u64
  ip_crypto_payload :: bytes
  ip_target_size :: nat

definition fixed_header_len :: "nat \<Rightarrow> nat \<Rightarrow> nat" where
  "fixed_header_len dcid scid = 1 + 4 + 1 + dcid + 1 + scid + 1"

definition header_len :: "nat \<Rightarrow> nat \<Rightarrow> nat \<Rightarrow> nat \<Rightarrow> nat option" where
  "header_len dcid scid pn_len payload_len = do {
     n \<leftarrow> varint_size (of_nat (pn_len + payload_len + AES_GCM_TAG_LEN));
     Some (fixed_header_len dcid scid + n + pn_len) }"

text \<open>The rounds of \<open>padding_for_target\<close> that are left, and the padding so far.\<close>

primrec padding_rounds :: "nat \<Rightarrow> nat \<Rightarrow> nat \<Rightarrow> nat \<Rightarrow> nat \<Rightarrow> nat \<Rightarrow> nat \<Rightarrow> nat option" where
  "padding_rounds 0 dcid scid pn_len base_payload target_len padding = Some padding"
| "padding_rounds (Suc n) dcid scid pn_len base_payload target_len padding = do {
     let payload = base_payload + padding;
     h \<leftarrow> header_len dcid scid pn_len payload;
     let datagram = h + payload + AES_GCM_TAG_LEN;
     (if datagram = target_len then Some padding
      else if datagram < target_len then
        padding_rounds n dcid scid pn_len base_payload target_len (padding + (target_len - datagram))
      else
        let next = padding - (datagram - target_len) in
        if next = padding then Some padding
        else padding_rounds n dcid scid pn_len base_payload target_len next) }"

definition padding_for_target :: "nat \<Rightarrow> nat \<Rightarrow> nat \<Rightarrow> nat \<Rightarrow> nat \<Rightarrow> nat option" where
  "padding_for_target dcid scid pn_len base_payload target_len =
     padding_rounds 8 dcid scid pn_len base_payload target_len 0"

definition encode_pn :: "u32 \<Rightarrow> nat \<Rightarrow> bytes" where
  "encode_pn packet_number pn_len = rev (map (\<lambda>i. ucast (drop_bit (8 * i) packet_number)) [0..<pn_len])"

definition apply_header_protection :: "quic_crypto \<Rightarrow> bytes \<Rightarrow> bytes \<Rightarrow> nat \<Rightarrow> nat \<Rightarrow> bytes option" where
  "apply_header_protection Q packet hp_key pn_offset pn_len =
     (let sample_offset = pn_offset + 4 in
      if length packet < sample_offset + 16 then None
      else
        let mk = aes_ecb_block Q hp_key (slice sample_offset (sample_offset + 16) packet);
            packet = packet[0 := xor (packet ! 0) (and (mk ! 0) 0x0f)]
        in Some (foldl (\<lambda>p i. p[pn_offset + i := xor (p ! (pn_offset + i)) (mk ! (1 + i))]) packet [0..<pn_len]))"

definition build_client_initial :: "quic_crypto \<Rightarrow> initial_params \<Rightarrow> bytes option" where
  "build_client_initial Q p =
     (let pn_len = max 1 (min (ip_pn_len p) 4) in do {
        keys \<leftarrow> derive_initial_keys Q INITIAL_SALT_V1 (ip_dcid p);
        offset \<leftarrow> varint_write (ip_crypto_offset p);
        len \<leftarrow> varint_write (of_nat (length (ip_crypto_payload p)));
        let crypto_frame = [FRAME_CRYPTO] @ offset @ len @ ip_crypto_payload p;
        padding \<leftarrow> padding_for_target (length (ip_dcid p)) (length (ip_scid p)) pn_len
          (length crypto_frame) (ip_target_size p);
        let payload = crypto_frame @ replicate padding 0x00;
        let pn_bytes = encode_pn (ip_packet_number p) pn_len;
        len_field \<leftarrow> varint_write (of_nat (pn_len + length payload + AES_GCM_TAG_LEN));
        let header = [or 0xc0 (of_nat pn_len - 1)] @ u32_to_be VERSION_V1 @
          [of_nat (length (ip_dcid p))] @ ip_dcid p @ [of_nat (length (ip_scid p))] @ ip_scid p @
          [0x00] @ len_field;
        let pn_offset = length header;
        let header = header @ pn_bytes;
        let ciphertext = aes_128_gcm_seal Q (ik_key keys) (ik_iv keys) pn_bytes header payload;
        apply_header_protection Q (header @ ciphertext) (ik_hp keys) pn_offset pn_len })"

section \<open>Browser profiles\<close>

datatype browser_profile = BpChrome | BpFirefox | BpCurl | BpRandom

definition PQ_HYBRID_GROUP :: u16 where "PQ_HYBRID_GROUP = 0x11ec"

definition EXT_SERVER_NAME :: u16 where "EXT_SERVER_NAME = 0x0000"
definition EXT_STATUS_REQUEST :: u16 where "EXT_STATUS_REQUEST = 0x0005"
definition EXT_SUPPORTED_GROUPS :: u16 where "EXT_SUPPORTED_GROUPS = 0x000a"
definition EXT_SIGNATURE_ALGORITHMS :: u16 where "EXT_SIGNATURE_ALGORITHMS = 0x000d"
definition EXT_ALPN :: u16 where "EXT_ALPN = 0x0010"
definition EXT_EXTENDED_MASTER_SECRET :: u16 where "EXT_EXTENDED_MASTER_SECRET = 0x0017"
definition EXT_COMPRESS_CERTIFICATE :: u16 where "EXT_COMPRESS_CERTIFICATE = 0x001b"
definition EXT_RECORD_SIZE_LIMIT :: u16 where "EXT_RECORD_SIZE_LIMIT = 0x001c"
definition EXT_DELEGATED_CREDENTIALS :: u16 where "EXT_DELEGATED_CREDENTIALS = 0x0022"
definition EXT_SUPPORTED_VERSIONS :: u16 where "EXT_SUPPORTED_VERSIONS = 0x002b"
definition EXT_PSK_KEY_EXCHANGE_MODES :: u16 where "EXT_PSK_KEY_EXCHANGE_MODES = 0x002d"
definition EXT_KEY_SHARE :: u16 where "EXT_KEY_SHARE = 0x0033"
definition EXT_QUIC_TRANSPORT_PARAMS :: u16 where "EXT_QUIC_TRANSPORT_PARAMS = 0x0039"
definition EXT_APPLICATION_SETTINGS :: u16 where "EXT_APPLICATION_SETTINGS = 0x44cd"
definition EXT_ENCRYPTED_CLIENT_HELLO :: u16 where "EXT_ENCRYPTED_CLIENT_HELLO = 0xfe0d"
definition EXT_RENEGOTIATION_INFO :: u16 where "EXT_RENEGOTIATION_INFO = 0xff01"

lemmas ext_codes = EXT_SERVER_NAME_def EXT_STATUS_REQUEST_def EXT_SUPPORTED_GROUPS_def
  EXT_SIGNATURE_ALGORITHMS_def EXT_ALPN_def EXT_EXTENDED_MASTER_SECRET_def
  EXT_COMPRESS_CERTIFICATE_def EXT_RECORD_SIZE_LIMIT_def EXT_DELEGATED_CREDENTIALS_def
  EXT_SUPPORTED_VERSIONS_def EXT_PSK_KEY_EXCHANGE_MODES_def EXT_KEY_SHARE_def
  EXT_QUIC_TRANSPORT_PARAMS_def EXT_APPLICATION_SETTINGS_def EXT_ENCRYPTED_CLIENT_HELLO_def
  EXT_RENEGOTIATION_INFO_def

datatype tp_entry =
    TpVarint u64 u64
  | TpBytes u64 bytes
  | TpVersionInfo u64
  | TpScidSource u64
  | TpGrease

definition CHROME_PACKET_SIZE :: nat where "CHROME_PACKET_SIZE = 1250"
definition FIREFOX_PACKET_SIZE :: nat where "FIREFOX_PACKET_SIZE = 1252"

record tls_profile =
  pf_name :: browser_profile
  cipher_suites :: "u16 list"
  extensions_order :: "u16 list"
  supported_groups :: "u16 list"
  signature_algorithms :: "u16 list"
  supported_versions :: "u16 list"
  key_share_groups :: "u16 list"
  pf_alpn :: "bytes list"
  quic_tp :: "tp_entry list"
  include_unknown_17613 :: bool
  use_empty_session_id :: bool
  enable_ech :: bool
  randomize_extensions_order :: bool
  packet_target :: nat

definition chrome_profile :: tls_profile where
  "chrome_profile = \<lparr>
     pf_name = BpChrome,
     cipher_suites = [0x1301, 0x1302, 0x1303],
     extensions_order =
       [EXT_SERVER_NAME, EXT_SUPPORTED_GROUPS, EXT_SIGNATURE_ALGORITHMS, EXT_ALPN,
        EXT_COMPRESS_CERTIFICATE, EXT_SUPPORTED_VERSIONS, EXT_PSK_KEY_EXCHANGE_MODES, EXT_KEY_SHARE,
        EXT_QUIC_TRANSPORT_PARAMS, EXT_APPLICATION_SETTINGS, EXT_ENCRYPTED_CLIENT_HELLO],
     supported_groups = [PQ_HYBRID_GROUP, 0x001d, 0x0017, 0x0018],
     signature_algorithms =
       [0x0403, 0x0804, 0x0401, 0x0503, 0x0805, 0x0501, 0x0806, 0x0601, 0x0201],
     supported_versions = [0x0304],
     key_share_groups = [PQ_HYBRID_GROUP, 0x001d],
     pf_alpn = [ascii ''h3''],
     quic_tp =
       [TpVarint 0x04 15728640, TpBytes 0x0f [], TpVarint 0x07 6291456, TpVarint 0x05 6291456,
        TpVarint 0x03 1472, TpVarint 0x06 6291456, TpVarint 0x08 100, TpVarint 0x3127 18196,
        TpVarint 0x20 65536, TpVersionInfo 0x11, TpVarint 0x01 30000, TpVarint 0x09 103, TpGrease],
     include_unknown_17613 = True,
     use_empty_session_id = True,
     enable_ech = True,
     randomize_extensions_order = True,
     packet_target = CHROME_PACKET_SIZE \<rparr>"

definition firefox_profile :: tls_profile where
  "firefox_profile = \<lparr>
     pf_name = BpFirefox,
     cipher_suites = [0x1301, 0x1303, 0x1302],
     extensions_order =
       [EXT_SERVER_NAME, EXT_STATUS_REQUEST, EXT_DELEGATED_CREDENTIALS, EXT_SIGNATURE_ALGORITHMS,
        EXT_SUPPORTED_GROUPS, EXT_EXTENDED_MASTER_SECRET, EXT_RENEGOTIATION_INFO,
        EXT_RECORD_SIZE_LIMIT, EXT_PSK_KEY_EXCHANGE_MODES, EXT_COMPRESS_CERTIFICATE, EXT_KEY_SHARE,
        EXT_ALPN, EXT_SUPPORTED_VERSIONS, EXT_QUIC_TRANSPORT_PARAMS, EXT_ENCRYPTED_CLIENT_HELLO],
     supported_groups = [PQ_HYBRID_GROUP, 0x001d, 0x0017, 0x0018, 0x0019],
     signature_algorithms =
       [0x0403, 0x0503, 0x0603, 0x0203, 0x0804, 0x0805, 0x0806, 0x0401, 0x0501, 0x0601, 0x0201],
     supported_versions = [0x0304],
     key_share_groups = [PQ_HYBRID_GROUP, 0x001d, 0x0017],
     pf_alpn = [ascii ''h3''],
     quic_tp =
       [TpVarint 0x01 30000, TpVarint 0x04 25165824, TpVarint 0x05 12582912, TpVarint 0x06 1048576,
        TpVarint 0x07 1048576, TpVarint 0x08 100, TpVarint 0x09 100, TpVarint 0x0b 20,
        TpVarint 0x0e 8, TpScidSource 0x0f, TpVersionInfo 0x11, TpBytes 0xff02de1a [0x43, 0xe8],
        TpVarint 0x20 65535],
     include_unknown_17613 = False,
     use_empty_session_id = True,
     enable_ech = True,
     randomize_extensions_order = True,
     packet_target = FIREFOX_PACKET_SIZE \<rparr>"

definition curl_profile :: tls_profile where
  "curl_profile = \<lparr>
     pf_name = BpCurl,
     cipher_suites = [0x1301, 0x1302, 0x1303],
     extensions_order =
       [EXT_SERVER_NAME, EXT_SUPPORTED_VERSIONS, EXT_SUPPORTED_GROUPS, EXT_SIGNATURE_ALGORITHMS,
        EXT_ALPN, EXT_KEY_SHARE, EXT_PSK_KEY_EXCHANGE_MODES, EXT_QUIC_TRANSPORT_PARAMS,
        EXT_COMPRESS_CERTIFICATE, EXT_ENCRYPTED_CLIENT_HELLO],
     supported_groups = [0x001d, 0x0017, 0x0018],
     signature_algorithms = [0x0403, 0x0503, 0x0603, 0x0804, 0x0805, 0x0806],
     supported_versions = [0x0304],
     key_share_groups = [0x001d],
     pf_alpn = [ascii ''h3''],
     quic_tp =
       [TpVarint 0x01 30000, TpVarint 0x03 1472, TpVarint 0x04 10485760, TpVarint 0x05 5242880,
        TpVarint 0x06 5242880, TpVarint 0x07 5242880, TpVarint 0x08 100, TpVarint 0x09 100,
        TpVarint 0x0e 2, TpBytes 0x0f []],
     include_unknown_17613 = False,
     use_empty_session_id = False,
     enable_ech = True,
     randomize_extensions_order = False,
     packet_target = CHROME_PACKET_SIZE \<rparr>"

fun for_browser :: "browser_profile \<Rightarrow> tls_profile option" where
  "for_browser BpChrome = Some chrome_profile"
| "for_browser BpFirefox = Some firefox_profile"
| "for_browser BpCurl = Some curl_profile"
| "for_browser BpRandom = None"

section \<open>The ClientHello\<close>

definition w24 :: "u32 \<Rightarrow> bytes" where
  "w24 v = [ucast (drop_bit 16 v), ucast (drop_bit 8 v), ucast v]"

definition rand_bytes :: "'g rng \<Rightarrow> nat \<Rightarrow> 'g \<Rightarrow> bytes \<times> 'g" where
  "rand_bytes R n g = fill_bytes R n g"

fun shuffle_down :: "'g rng \<Rightarrow> 'a list \<Rightarrow> nat \<Rightarrow> 'g \<Rightarrow> 'a list \<times> 'g" where
  "shuffle_down R v i g =
     (if i > 1 then
        let i = i - 1;
            (w, g) = next_u64 R g;
            j = unat w mod (i + 1)
        in shuffle_down R (v[i := v ! j, j := v ! i]) i g
      else (v, g))"

declare shuffle_down.simps [simp del]

definition shuffle :: "'g rng \<Rightarrow> 'a list \<Rightarrow> 'g \<Rightarrow> 'a list \<times> 'g" where
  "shuffle R v g = shuffle_down R v (length v) g"

definition version_information :: "'g rng \<Rightarrow> 'g \<Rightarrow> bytes \<times> 'g" where
  "version_information R g =
     (let (r, g) = next_u64 R g;
          grease = (\<lambda>shift. or (and (ucast (drop_bit shift r)) 0xf0) 0x0a)
      in ([0, 0, 0, 1, grease 0, grease 8, grease 16, grease 24, 0, 0, 0, 1], g))"

definition grease_tp_id :: "'g rng \<Rightarrow> 'g \<Rightarrow> u64 \<times> 'g" where
  "grease_tp_id R g =
     (let (w, g) = next_u64 R g;
          i = or (and w 0x03ffffffffffffff) (push_bit 61 1);
          rem = i mod 31;
          i = (if rem \<noteq> 27 then i + (27 + 31 - rem) mod 31 else i);
          i = (if i \<ge> push_bit 62 1 then i - 31 else i)
      in (i, g))"

definition u16_len :: "bytes \<Rightarrow> bytes" where
  "u16_len bs = u16_to_be (of_nat (length bs))"

definition ext_server_name :: "bytes \<Rightarrow> bytes" where
  "ext_server_name sni =
     (let names = [0x00] @ u16_len sni @ sni;
          sni_all = u16_len names @ names
      in u16_to_be EXT_SERVER_NAME @ u16_len sni_all @ sni_all)"

definition ext_alpn :: "bytes list \<Rightarrow> bytes" where
  "ext_alpn protos =
     (let protos' = concat (map (\<lambda>s. if length s > 255 then [] else [of_nat (length s)] @ s) protos)
      in u16_to_be EXT_ALPN @ u16_to_be (of_nat (2 + length protos')) @ u16_len protos' @ protos')"

definition ext_u16_list :: "u16 \<Rightarrow> u16 list \<Rightarrow> bytes" where
  "ext_u16_list ext_type vals =
     (let vs = concat (map u16_to_be vals)
      in u16_to_be ext_type @ u16_to_be (of_nat (2 + length vs)) @ u16_len vs @ vs)"

definition ext_supported_versions :: "u16 list \<Rightarrow> bytes" where
  "ext_supported_versions vers =
     (let vs = concat (map u16_to_be vers)
      in u16_to_be EXT_SUPPORTED_VERSIONS @ u16_to_be (of_nat (1 + length vs)) @ [of_nat (length vs)] @ vs)"

definition ext_psk_ke_modes :: bytes where
  "ext_psk_ke_modes = u16_to_be EXT_PSK_KEY_EXCHANGE_MODES @ u16_to_be 0x0002 @ [0x01, 0x01]"

definition ext_delegated_credentials :: bytes where
  "ext_delegated_credentials =
     (let vs = concat (map u16_to_be [0x0403, 0x0503, 0x0603, 0x0203])
      in u16_to_be EXT_DELEGATED_CREDENTIALS @ u16_to_be (of_nat (2 + length vs)) @ u16_len vs @ vs)"

definition key_share_size :: "u16 \<Rightarrow> nat" where
  "key_share_size grp =
     (if grp = 0x001d then 32 else if grp = 0x0017 then 65
      else if grp = PQ_HYBRID_GROUP then 1216 else 32)"

fun key_share_entries :: "'g rng \<Rightarrow> u16 list \<Rightarrow> 'g \<Rightarrow> bytes \<times> 'g" where
  "key_share_entries R [] g = ([], g)"
| "key_share_entries R (grp # groups) g =
     (let sz = key_share_size grp;
          (key, g) =
            (if grp = 0x0017 then let (k, g) = rand_bytes R (sz - 1) g in ([0x04] @ k, g)
             else rand_bytes R sz g);
          (rest, g) = key_share_entries R groups g
      in (u16_to_be grp @ u16_to_be (of_nat sz) @ key @ rest, g))"

definition ext_key_share :: "'g rng \<Rightarrow> u16 list \<Rightarrow> 'g \<Rightarrow> bytes \<times> 'g" where
  "ext_key_share R groups g =
     (let (entries, g) = key_share_entries R groups g
      in (u16_to_be EXT_KEY_SHARE @ u16_to_be (of_nat (2 + length entries)) @ u16_len entries @ entries, g))"

definition ext_application_settings :: bytes where
  "ext_application_settings =
     u16_to_be EXT_APPLICATION_SETTINGS @ u16_to_be 5 @ [0x00, 0x03, 0x02, 0x68, 0x33]"

definition ext_encrypted_client_hello :: "'g rng \<Rightarrow> 'g \<Rightarrow> bytes \<times> 'g" where
  "ext_encrypted_client_hello R g =
     (let (c, g) = next_u64 R g;
          (enc, g) = rand_bytes R 32 g;
          (w, g) = next_u64 R g;
          payload_len = 150 + unat w mod 51;
          (payload, g) = rand_bytes R payload_len g;
          ech = [0x00] @ [0x00, 0x01, 0x00, 0x01] @ [ucast (and c 0xff)] @ u16_to_be 32 @ enc @
                u16_to_be (of_nat payload_len) @ payload
      in (u16_to_be EXT_ENCRYPTED_CLIENT_HELLO @ u16_len ech @ ech, g))"

definition ext_record_size_limit :: bytes where
  "ext_record_size_limit = u16_to_be EXT_RECORD_SIZE_LIMIT @ u16_to_be 2 @ u16_to_be 16385"

definition ext_reneg_info :: bytes where
  "ext_reneg_info = u16_to_be EXT_RENEGOTIATION_INFO @ u16_to_be 1 @ [0x00]"

definition ext_status_request :: bytes where
  "ext_status_request =
     u16_to_be EXT_STATUS_REQUEST @ u16_to_be 5 @ [0x01] @ u16_to_be 0x0000 @ u16_to_be 0x0000"

definition ext_extended_master_secret :: bytes where
  "ext_extended_master_secret = u16_to_be EXT_EXTENDED_MASTER_SECRET @ u16_to_be 0"

definition ext_compress_cert :: "bool \<Rightarrow> bytes" where
  "ext_compress_cert firefox_mode =
     u16_to_be EXT_COMPRESS_CERTIFICATE @
     (if firefox_mode then u16_to_be 7 @ [6] @ u16_to_be 1 @ u16_to_be 3 @ u16_to_be 2
      else u16_to_be 3 @ [2] @ u16_to_be 2)"

definition resolve_tp :: "'g rng \<Rightarrow> bytes \<Rightarrow> tp_entry \<Rightarrow> 'g \<Rightarrow> ((u64 \<times> bytes) \<times> 'g) option" where
  "resolve_tp R scid entry g =
     (case entry of
        TpVarint i v \<Rightarrow> do { vi \<leftarrow> varint_write v; Some ((i, vi), g) }
      | TpBytes i b \<Rightarrow> Some ((i, b), g)
      | TpVersionInfo i \<Rightarrow> (let (v, g) = version_information R g in Some ((i, v), g))
      | TpScidSource i \<Rightarrow> Some ((i, scid), g)
      | TpGrease \<Rightarrow> (let (i, g) = grease_tp_id R g; (b, g) = rand_bytes R 6 g in Some ((i, b), g)))"

fun resolve_tps :: "'g rng \<Rightarrow> bytes \<Rightarrow> tp_entry list \<Rightarrow> 'g \<Rightarrow> ((u64 \<times> bytes) list \<times> 'g) option" where
  "resolve_tps R scid [] g = Some ([], g)"
| "resolve_tps R scid (e # es) g = do {
     (p, g) \<leftarrow> resolve_tp R scid e g;
     (ps, g) \<leftarrow> resolve_tps R scid es g;
     Some (p # ps, g) }"

fun tp_body :: "(u64 \<times> bytes) list \<Rightarrow> bytes option" where
  "tp_body [] = Some []"
| "tp_body ((i, v) # ps) = do {
     ib \<leftarrow> varint_write i;
     lb \<leftarrow> varint_write (of_nat (length v));
     rest \<leftarrow> tp_body ps;
     Some (ib @ lb @ v @ rest) }"

definition ext_quic_tp :: "'g rng \<Rightarrow> tls_profile \<Rightarrow> bytes \<Rightarrow> 'g \<Rightarrow> (bytes \<times> 'g) option" where
  "ext_quic_tp R profile scid g = do {
     (params, g) \<leftarrow> resolve_tps R scid (quic_tp profile) g;
     let (params, g) = shuffle R params g in do {
       body \<leftarrow> tp_body params;
       Some (u16_to_be EXT_QUIC_TRANSPORT_PARAMS @ u16_len body @ body, g) } }"

definition build_extension ::
  "'g rng \<Rightarrow> u16 \<Rightarrow> tls_profile \<Rightarrow> bytes \<Rightarrow> bytes \<Rightarrow> 'g \<Rightarrow> (bytes \<times> 'g) option" where
  "build_extension R t profile sni scid g =
     (if t = EXT_SERVER_NAME then Some (ext_server_name sni, g)
      else if t = EXT_ALPN then Some (ext_alpn (pf_alpn profile), g)
      else if t = EXT_SUPPORTED_GROUPS then Some (ext_u16_list EXT_SUPPORTED_GROUPS (supported_groups profile), g)
      else if t = EXT_SIGNATURE_ALGORITHMS
        then Some (ext_u16_list EXT_SIGNATURE_ALGORITHMS (signature_algorithms profile), g)
      else if t = EXT_SUPPORTED_VERSIONS then Some (ext_supported_versions (supported_versions profile), g)
      else if t = EXT_PSK_KEY_EXCHANGE_MODES then Some (ext_psk_ke_modes, g)
      else if t = EXT_KEY_SHARE then Some (ext_key_share R (key_share_groups profile) g)
      else if t = EXT_QUIC_TRANSPORT_PARAMS then ext_quic_tp R profile scid g
      else if t = EXT_COMPRESS_CERTIFICATE then Some (ext_compress_cert (pf_name profile = BpFirefox), g)
      else if t = EXT_RECORD_SIZE_LIMIT then Some (ext_record_size_limit, g)
      else if t = EXT_RENEGOTIATION_INFO then Some (ext_reneg_info, g)
      else if t = EXT_STATUS_REQUEST then Some (ext_status_request, g)
      else if t = EXT_EXTENDED_MASTER_SECRET then Some (ext_extended_master_secret, g)
      else if t = EXT_DELEGATED_CREDENTIALS then Some (ext_delegated_credentials, g)
      else if t = EXT_APPLICATION_SETTINGS
        then Some (if include_unknown_17613 profile then ext_application_settings else [], g)
      else if t = EXT_ENCRYPTED_CLIENT_HELLO \<and> enable_ech profile
        then Some (ext_encrypted_client_hello R g)
      else Some ([], g))"

fun build_extensions ::
  "'g rng \<Rightarrow> u16 list \<Rightarrow> tls_profile \<Rightarrow> bytes \<Rightarrow> bytes \<Rightarrow> 'g \<Rightarrow> (bytes \<times> 'g) option" where
  "build_extensions R [] profile sni scid g = Some ([], g)"
| "build_extensions R (t # ts) profile sni scid g = do {
     (e, g) \<leftarrow> build_extension R t profile sni scid g;
     (es, g) \<leftarrow> build_extensions R ts profile sni scid g;
     Some (e @ es, g) }"

definition generate_client_hello ::
  "'g rng \<Rightarrow> tls_profile \<Rightarrow> bytes \<Rightarrow> bytes \<Rightarrow> 'g \<Rightarrow> (bytes \<times> 'g) option" where
  "generate_client_hello R profile sni scid g =
     (let (client_random, g) = rand_bytes R 32 g;
          (session_id, g) =
            (if use_empty_session_id profile then ([0x00], g)
             else let (sid, g) = rand_bytes R 32 g in ([0x20] @ sid, g));
          (order, g) =
            (if randomize_extensions_order profile then shuffle R (extensions_order profile) g
             else (extensions_order profile, g))
      in do {
        (exts, g) \<leftarrow> build_extensions R order profile sni scid g;
        let ch = u16_to_be 0x0303 @ client_random @ session_id @
          u16_to_be (of_nat (length (cipher_suites profile) * 2)) @
          concat (map u16_to_be (cipher_suites profile)) @ [0x01] @ [0x00] @ u16_len exts @ exts;
        Some ([0x01] @ w24 (of_nat (length ch)) @ ch, g) })"

section \<open>The datagrams of a connection\<close>

definition PACKET_OVERHEAD_HEADROOM :: nat where "PACKET_OVERHEAD_HEADROOM = 64"

definition resolve_browser :: "'g rng \<Rightarrow> browser_profile \<Rightarrow> 'g \<Rightarrow> browser_profile \<times> 'g" where
  "resolve_browser R browser g =
     (if browser = BpRandom then
        let (w, g) = next_u32 R g in
        ((if unat w mod 3 = 0 then BpChrome else if unat w mod 3 = 1 then BpFirefox else BpCurl), g)
      else (browser, g))"

definition generate_client_initials ::
  "'g rng \<Rightarrow> quic_crypto \<Rightarrow> browser_profile \<Rightarrow> bytes \<Rightarrow> 'g \<Rightarrow> (bytes list \<times> 'g) option" where
  "generate_client_initials R Q browser sni g =
     (let (resolved, g) = resolve_browser R browser g in do {
        profile \<leftarrow> for_browser resolved;
        let (scid, g) = (if resolved = BpFirefox then rand_bytes R 3 g else ([], g));
            (dcid, g) = rand_bytes R 8 g
        in do {
          (client_hello, g) \<leftarrow> generate_client_hello R profile sni scid g;
          let target = packet_target profile;
          let first_len = min (length client_hello) (target - PACKET_OVERHEAD_HEADROOM);
          first \<leftarrow> build_client_initial Q \<lparr> ip_dcid = dcid, ip_scid = scid, ip_packet_number = 0,
            ip_pn_len = 1, ip_crypto_offset = 0, ip_crypto_payload = take first_len client_hello,
            ip_target_size = target \<rparr>;
          (if first_len < length client_hello then do {
             second \<leftarrow> build_client_initial Q \<lparr> ip_dcid = dcid, ip_scid = scid, ip_packet_number = 1,
               ip_pn_len = 1, ip_crypto_offset = of_nat first_len,
               ip_crypto_payload = drop first_len client_hello, ip_target_size = target \<rparr>;
             Some ([first, second], g) }
           else Some ([first], g)) } })"

section \<open>Long headers and Version Negotiation\<close>

definition RFC9000_MAX_CID_LEN :: nat where "RFC9000_MAX_CID_LEN = 20"
definition MIN_INITIAL_DATAGRAM :: nat where "MIN_INITIAL_DATAGRAM = 1200"

definition REAL_SERVER_VERSIONS :: "u32 list" where
  "REAL_SERVER_VERSIONS = [0x00000001, 0x6b3343cf]"

definition VN_MAX_LEN :: nat where
  "VN_MAX_LEN = 1 + 4 + 1 + 255 + 1 + 255 + 4 * length REAL_SERVER_VERSIONS"

record long_header =
  lh_version :: u32
  lh_dcid :: bytes
  lh_scid :: bytes

definition is_supported_by_real_servers :: "u32 \<Rightarrow> bool" where
  "is_supported_by_real_servers version \<longleftrightarrow> version \<in> set REAL_SERVER_VERSIONS"

definition is_known_version :: "u32 \<Rightarrow> bool" where
  "is_known_version v \<longleftrightarrow>
     is_supported_by_real_servers v \<or>
     and v 0xffffff00 = 0xff000000 \<and> and v 0xff \<noteq> 0 \<or>
     and v 0x0f0f0f0f = 0x0a0a0a0a"

definition parse_long_header :: "bytes \<Rightarrow> long_header option" where
  "parse_long_header data =
     (if length data < 7 \<or> and (data ! 0) 0xC0 \<noteq> 0xC0 then None
      else
        let version = u32_from_be (slice 1 5 data) in
        if \<not> is_known_version version then None
        else
          let capped = is_supported_by_real_servers version;
              dcid_len = unat (data ! 5)
          in if capped \<and> dcid_len > RFC9000_MAX_CID_LEN then None
          else do {
            dcid_end \<leftarrow> checked_add 6 dcid_len;
            (if length data \<le> dcid_end then None
             else
               let scid_len = unat (data ! dcid_end) in
               if capped \<and> scid_len > RFC9000_MAX_CID_LEN then None
               else do {
                 scid_start \<leftarrow> checked_add dcid_end 1;
                 scid_end \<leftarrow> checked_add scid_start scid_len;
                 if length data < scid_end then None
                 else Some \<lparr> lh_version = version, lh_dcid = slice 6 dcid_end data,
                             lh_scid = slice scid_start scid_end data \<rparr> }) })"

definition version_negotiation :: "'g rng \<Rightarrow> bytes \<Rightarrow> 'g \<Rightarrow> bytes option \<times> 'g" where
  "version_negotiation R initial g =
     (if length initial < MIN_INITIAL_DATAGRAM then (None, g)
      else case parse_long_header initial of
        None \<Rightarrow> (None, g)
      | Some hdr \<Rightarrow>
          if is_supported_by_real_servers (lh_version hdr) then (None, g)
          else
            let (w, g) = next_u32 R g in
            (Some ([or 0xC0 (and (ucast w) 0x3F)] @ u32_to_be 0 @
                   [of_nat (length (lh_scid hdr))] @ lh_scid hdr @
                   [of_nat (length (lh_dcid hdr))] @ lh_dcid hdr @
                   concat (map u32_to_be REAL_SERVER_VERSIONS)), g))"


section \<open>Integers read back\<close>

lemma varint_write_size: "varint_write v = Some bs \<Longrightarrow> varint_size v = Some (length bs) \<and> length bs \<in> {1, 2, 4, 8}"
  using be16.enc_width be32.enc_width be64.enc_width
  by (auto simp: varint_write_def varint_size_def split: if_splits)

lemma varint_write_total: "v < push_bit 62 1 \<Longrightarrow> \<exists>bs. varint_write v = Some bs"
  by (simp add: varint_write_def)

lemma or_shift_nat:
  fixes m c :: nat
  assumes "m < 2 ^ k"
  shows "or m (c * 2 ^ k) = m + c * 2 ^ k"
proof -
  have "take_bit k m = m" using assms by (simp add: take_bit_nat_eq_self)
  moreover have "and (take_bit k m) (push_bit k c) = 0"
    by (rule bit_eqI) (auto simp: bit_simps)
  ultimately have "and m (push_bit k c) = 0" by simp
  then show ?thesis using disjunctive_add_eq_or [of m "push_bit k c"] by (simp add: push_bit_eq_mult)
qed

lemma le_bytes_snoc: "le_bytes (Suc n) x = le_bytes n x @ [of_nat (x div 256 ^ n mod 256)]"
proof (induction n arbitrary: x)
  case (Suc n)
  show ?case
    using Suc [of "x div 256"] by (simp add: div_mult2_eq)
qed simp

lemma be_bytes_Suc: "be_bytes (Suc n) x = of_nat (x div 256 ^ n mod 256) # be_bytes n x"
  unfolding be_bytes_def by (subst le_bytes_snoc) simp

lemma le_value_append: "le_value (xs @ ys) = le_value xs + 256 ^ length xs * le_value ys"
  by (induction xs) (simp_all add: algebra_simps)

lemma be_value_Cons: "be_value (b # bs) = unat b * 256 ^ length bs + be_value bs"
  by (simp add: be_value_def le_value_append)

lemma fold_bytes:
  "unat x * 256 ^ length bs + be_value bs < 2 ^ 64 \<Longrightarrow>
   unat (foldl (\<lambda>v b. or (push_bit 8 v) (ucast b)) (x :: u64) bs) = unat x * 256 ^ length bs + be_value bs"
proof (induction bs arbitrary: x)
  case (Cons b bs)
  let ?x = "or (push_bit 8 x) (ucast b) :: u64"
  have b: "unat b < 2 ^ 8" using unat_bound [of b] by simp
  have "unat x * 256 ^ length (b # bs) < 2 ^ 64" using Cons.prems by linarith
  moreover have "unat x * 256 \<le> unat x * 256 ^ length (b # bs)" by simp
  ultimately have x: "unat x * 256 < 2 ^ 64" by linarith
  have push: "unat (push_bit 8 x) = unat x * 2 ^ 8"
    using x by (simp add: push_bit_eq_mult unat_word_ariths)
  have "unat ?x = or (unat b) (unat x * 2 ^ 8)"
    unfolding unsigned_or_eq push by (simp add: or.commute)
  then have e: "unat ?x = unat x * 256 + unat b" using or_shift_nat [OF b, of "unat x"] by simp
  show ?case
    using Cons.IH [of ?x] Cons.prems unfolding e by (simp add: be_value_Cons algebra_simps)
qed (simp add: be_value_def)

lemma tagged_read:
  fixes x :: nat
  assumes x: "x < 64 * 256 ^ m" and t: "t < 4" "2 ^ t = Suc m" and small: "64 * 256 ^ m \<le> (2 :: nat) ^ 64"
  shows "varint_read (be_bytes (Suc m) (x + t * 64 * 256 ^ m) @ rest) = Some (of_nat x, Suc m)"
proof -
  let ?X = "x + t * 64 * 256 ^ m"
  define b where "b = (of_nat (x div 256 ^ m + t * 64) :: u8)"
  have q: "x div 256 ^ m < 64" using x by (simp add: less_mult_imp_div_less)
  have s: "x div 256 ^ m + t * 64 < 256" using q t by linarith
  have d: "?X div 256 ^ m mod 256 = x div 256 ^ m + t * 64" using s by simp
  have first: "unat b = x div 256 ^ m + t * 64" using s by (simp add: b_def unat_of_nat del: of_nat_add)
  have tag: "unat (drop_bit 6 b) = t"
    unfolding unsigned_drop_bit_eq first using q s by (simp add: drop_bit_eq_div take_bit_eq_mod)
  have low: "unat (ucast (and b 0x3f) :: u64) = x div 256 ^ m"
  proof -
    have m6: "(0x3f :: u8) = mask 6" by (simp add: mask_eq_exp_minus_1)
    have "unat (and b 0x3f) = (x div 256 ^ m + t * 64) mod 64"
      unfolding m6 take_bit_eq_mask [symmetric] unsigned_take_bit_eq first by (simp add: take_bit_eq_mod)
    then show ?thesis using q by simp
  qed
  have body: "slice 1 (Suc m) (be_bytes (Suc m) ?X @ rest) = be_bytes m ?X"
    by (simp add: be_bytes_Suc slice_def)
  have val: "be_value (be_bytes m ?X) = x mod 256 ^ m" by (simp add: be_value_be_bytes)
  have join: "x div 256 ^ m * 256 ^ m + x mod 256 ^ m = x" by (rule div_mult_mod_eq)
  let ?w = "foldl (\<lambda>v b. or (push_bit 8 v) (ucast b)) (ucast (and b 0x3f) :: u64) (be_bytes m ?X)"
  have "unat ?w = x"
    using fold_bytes [of "ucast (and b 0x3f)" "be_bytes m ?X"] x small
    unfolding low val length_be_bytes join by linarith
  then have "(of_nat (unat ?w) :: u64) = of_nat x" by (rule arg_cong)
  then have w: "?w = of_nat x" by simp
  have "length (be_bytes (Suc m) ?X @ rest) \<ge> Suc m" by simp
  moreover have "be_bytes (Suc m) ?X @ rest = b # be_bytes m ?X @ rest"
    unfolding be_bytes_Suc d b_def by simp
  ultimately show ?thesis
    unfolding varint_read_def using tag t(2) w body by (simp add: Let_def)
qed

lemma varint_round_trip:
  assumes "varint_write v = Some bs"
  shows "varint_read (bs @ rest) = Some (v, length bs)"
proof -
  have two: "unat (or (ucast v :: u16) 0x4000) = unat v + 1 * 64 * 256 ^ 1" if "unat v < 2 ^ 14"
    using that or_shift_nat [OF that, of 1] by (simp add: unsigned_or_eq unat_ucast_down)
  have four: "unat (or (ucast v :: u32) 0x80000000) = unat v + 2 * 64 * 256 ^ 3" if "unat v < 2 ^ 30"
    using that or_shift_nat [OF that, of 2] by (simp add: unsigned_or_eq unat_ucast_down)
  have eight: "unat (or v 0xc000000000000000) = unat v + 3 * 64 * 256 ^ 7" if "unat v < 2 ^ 62"
    using that or_shift_nat [OF that, of 3] by (simp add: unsigned_or_eq)
  consider "unat v < 2 ^ 6" "bs = [ucast v]" | "unat v < 2 ^ 14" "bs = u16_to_be (or (ucast v) 0x4000)"
    | "unat v < 2 ^ 30" "bs = u32_to_be (or (ucast v) 0x80000000)"
    | "unat v < 2 ^ 62" "bs = u64_to_be (or v 0xc000000000000000)"
    using assms by (auto simp: varint_write_def word_less_nat_alt split: if_splits)
  then show ?thesis
  proof cases
    case 1
    have "unat (ucast v :: u8) = unat v mod 256" using 1 by (simp add: unat_ucast_down)
    then have "(of_nat (unat (ucast v :: u8)) :: u8) = of_nat (unat v mod 256)" by (rule arg_cong)
    then have u: "(ucast v :: u8) = of_nat (unat v mod 256)" by (simp only: of_nat_unat ucast_id)
    have "bs = be_bytes (Suc 0) (unat v + 0 * 64 * 256 ^ 0)"
      unfolding 1(2) u be_bytes_Suc by (simp add: be_bytes_def)
    then show ?thesis using tagged_read [of "unat v" 0 0 rest] 1 by simp
  next
    case 2
    have "bs = be_bytes (Suc 1) (unat v + 1 * 64 * 256 ^ 1)" using 2 two by (simp add: u16_to_be_def numeral_2_eq_2)
    then show ?thesis using tagged_read [of "unat v" 1 1 rest] 2 by simp
  next
    case 3
    have "bs = be_bytes (Suc 3) (unat v + 2 * 64 * 256 ^ 3)" using 3 four by (simp add: u32_to_be_def)
    then show ?thesis using tagged_read [of "unat v" 3 2 rest] 3 by simp
  next
    case 4
    have "bs = be_bytes (Suc 7) (unat v + 3 * 64 * 256 ^ 7)" using 4 eight by (simp add: u64_to_be_def)
    then show ?thesis using tagged_read [of "unat v" 7 3 rest] 4 by simp
  qed
qed


section \<open>Padding reaches its target\<close>

lemma varint_size_of_nat:
  "n < 64 \<Longrightarrow> varint_size (of_nat n) = Some 1"
  "64 \<le> n \<Longrightarrow> n < 16384 \<Longrightarrow> varint_size (of_nat n) = Some 2"
  by (simp_all add: varint_size_def word_less_nat_alt unat_of_nat_u64)

lemma padding_rounds_Suc:
  "padding_rounds (Suc n) d s pn b t p =
     (case header_len d s pn (b + p) of
        None \<Rightarrow> None
      | Some h \<Rightarrow>
          (if h + (b + p) + 16 = t then Some p
           else if h + (b + p) + 16 < t then padding_rounds n d s pn b t (p + (t - (h + (b + p) + 16)))
           else if p - (h + (b + p) + 16 - t) = p then Some p
           else padding_rounds n d s pn b t (p - (h + (b + p) + 16 - t))))"
  by (simp add: AES_GCM_TAG_LEN_def Let_def split: option.split)

lemma padding_for_target_exact:
  assumes room: "b + (8 + d + s + pn + 16) + 2 \<le> t" and t: "t < 16384" "200 + d + s \<le> t" and pn: "pn \<le> 4"
  shows "padding_for_target d s pn b t = Some (t - (8 + d + s + pn + 16) - 2 - b)"
proof -
  define F where "F = 8 + d + s + pn"
  have h2: "header_len d s pn q = Some (F + 2)" if "64 \<le> pn + q + 16" "q \<le> t" "pn + q + 16 < 16384" for q
    using that by (simp add: header_len_def varint_size_of_nat AES_GCM_TAG_LEN_def fixed_header_len_def F_def
        del: of_nat_add)
  have h1: "header_len d s pn q = Some (F + 1)" if "pn + q + 16 < 64" for q
    using that by (simp add: header_len_def varint_size_of_nat AES_GCM_TAG_LEN_def fixed_header_len_def F_def
        del: of_nat_add)
  have R: "b + F + 18 \<le> t" using room by (simp add: F_def)
  have fin: "padding_rounds (Suc n) d s pn b t (t - F - 18 - b) = Some (t - F - 18 - b)" for n
  proof -
    have hd: "header_len d s pn (b + (t - F - 18 - b)) = Some (F + 2)"
      using R t pn by (intro h2) (simp_all add: F_def)
    have "F + 2 + (b + (t - F - 18 - b)) + 16 = t" using R by linarith
    then show ?thesis unfolding padding_rounds_Suc hd option.case by (rule if_P)
  qed
  have eight: "(8 :: nat) = Suc (Suc (Suc 5))" by simp
  show ?thesis
  proof (cases "pn + b + 16 < 64")
    case True
    have a: "header_len d s pn (b + 0) = Some (F + 1)" using h1 True by simp
    have p1: "padding_for_target d s pn b t = padding_rounds (Suc (Suc 5)) d s pn b t (t - F - 17 - b)"
      unfolding padding_for_target_def eight padding_rounds_Suc [of _ _ _ _ _ _ 0] a using R by (simp add: add_ac)
    have c: "header_len d s pn (b + (t - F - 17 - b)) = Some (F + 2)"
      using R t pn by (intro h2) (simp_all add: F_def)
    have "padding_rounds (Suc (Suc 5)) d s pn b t (t - F - 17 - b) = padding_rounds (Suc 5) d s pn b t (t - F - 18 - b)"
    proof -
      have "F + 2 + (b + (t - F - 17 - b)) + 16 = t + 1" using R by linarith
      moreover have "t - F - 17 - b - (t + 1 - t) = t - F - 18 - b" using R by linarith
      moreover have "t - F - 18 - b \<noteq> t - F - 17 - b" using R by linarith
      ultimately show ?thesis unfolding padding_rounds_Suc [of "Suc 5"] c option.case by simp
    qed
    then show ?thesis using p1 fin [of 5] by (simp add: F_def add_ac)
  next
    case False
    have a: "header_len d s pn (b + 0) = Some (F + 2)" using h2 False R t pn by (simp add: F_def)
    have "padding_for_target d s pn b t = Some (t - F - 18 - b)"
    proof (cases "F + 2 + b + 16 = t")
      case True
      then show ?thesis unfolding padding_for_target_def eight padding_rounds_Suc [of _ _ _ _ _ _ 0] a by simp
    next
      case ne: False
      then have "padding_for_target d s pn b t = padding_rounds (Suc (Suc 5)) d s pn b t (t - F - 18 - b)"
        unfolding padding_for_target_def eight padding_rounds_Suc [of _ _ _ _ _ _ 0] a using R by (simp add: add_ac)
      then show ?thesis unfolding fin .
    qed
    then show ?thesis by (simp add: F_def add_ac)
  qed
qed


section \<open>Initial packets\<close>

text \<open>The result sizes the documentation of the three primitives fixes.\<close>

definition quic_sizes :: "quic_crypto \<Rightarrow> bool" where
  "quic_sizes Q \<longleftrightarrow>
     (\<forall>key data. length (q_hmac_sha256 Q key data) = 32) \<and>
     (\<forall>key nonce aad pt. length (q_gcm_seal Q key nonce aad pt) = length pt + AES_GCM_TAG_LEN) \<and>
     (\<forall>key block. length (q_aes_block Q key block) = 16)"

lemma hkdf_expand_loop_total:
  "quic_sizes Q \<Longrightarrow> \<exists>bs. hkdf_expand_loop Q prk info len out prev counter = Some bs \<and> length bs = len"
proof (induction Q prk info len out prev counter rule: hkdf_expand_loop.induct)
  case (1 Q prk info len out prev counter)
  show ?case
  proof (cases "length out < len")
    case True
    let ?block = "q_hmac_sha256 Q prk (prev @ info @ [counter])"
    have "hmac_sha256 Q prk (prev @ info @ [counter]) = Some ?block"
      using 1(2) by (simp add: quic_sizes_def hmac_sha256_def)
    then show ?thesis
      using 1 True by (subst hkdf_expand_loop.simps) simp
  next
    case False
    then show ?thesis by (subst hkdf_expand_loop.simps) simp
  qed
qed

lemma derive_initial_keys_total:
  assumes "quic_sizes Q"
  shows "\<exists>keys. derive_initial_keys Q salt dcid = Some keys"
proof -
  have e: "\<exists>bs. hkdf_expand_label Q secret label len = Some bs" for secret label len
    unfolding hkdf_expand_label_def hkdf_expand_def Let_def
    using hkdf_expand_loop_total [OF assms] by blast
  let ?s = "q_hmac_sha256 Q salt dcid"
  have s: "hkdf_extract Q salt dcid = Some ?s"
    using assms by (simp add: hkdf_extract_def hmac_sha256_def quic_sizes_def)
  obtain c where c: "hkdf_expand_label Q ?s ''client in'' 32 = Some c" using e by blast
  obtain k where k: "hkdf_expand_label Q c ''quic key'' AES_KEY_LEN = Some k" using e by blast
  obtain iv where iv: "hkdf_expand_label Q c ''quic iv'' AES_GCM_IV_LEN = Some iv" using e by blast
  obtain hp where hp: "hkdf_expand_label Q c ''quic hp'' AES_KEY_LEN = Some hp" using e by blast
  from s c k iv hp show ?thesis unfolding derive_initial_keys_def by simp
qed

lemma protect_fold:
  "length (foldl (\<lambda>p i. p[off + i := f p i]) p is) = length p \<and>
   (\<forall>k < off. foldl (\<lambda>p i. p[off + i := f p i]) p is ! k = p ! k)"
  by (induction "is" arbitrary: p) auto

lemma apply_header_protection_ok:
  assumes "pn_offset + 20 \<le> length packet" "0 < pn_offset"
  shows "\<exists>b rest. apply_header_protection Q packet hp pn_offset n =
      Some (b # slice 1 pn_offset packet @ rest) \<and>
    length rest = length packet - pn_offset \<and> and b 0xC0 = and (packet ! 0) 0xC0"
proof -
  define mk where "mk = aes_ecb_block Q hp (slice (pn_offset + 4) (pn_offset + 4 + 16) packet)"
  define p0 where "p0 = packet[0 := xor (packet ! 0) (and (mk ! 0) 0x0f)]"
  define p where "p = foldl (\<lambda>p i. p[pn_offset + i := xor (p ! (pn_offset + i)) (mk ! (1 + i))]) p0 [0..<n]"
  have run: "apply_header_protection Q packet hp pn_offset n = Some p"
    using assms(1) by (simp add: apply_header_protection_def Let_def p_def p0_def mk_def)
  have len: "length p = length packet" and nth: "\<forall>k < pn_offset. p ! k = p0 ! k"
    using protect_fold [of pn_offset "\<lambda>p i. xor (p ! (pn_offset + i)) (mk ! (1 + i))" p0 "[0..<n]"]
    by (simp_all add: p_def p0_def)
  have "p = p ! 0 # slice 1 pn_offset packet @ drop pn_offset p"
  proof (rule nth_equalityI)
    show "length p = length (p ! 0 # slice 1 pn_offset packet @ drop pn_offset p)"
      using len assms by simp
    fix k assume k: "k < length p"
    consider "k = 0" | "0 < k" "k < pn_offset" | "pn_offset \<le> k" by linarith
    then show "p ! k = (p ! 0 # slice 1 pn_offset packet @ drop pn_offset p) ! k"
    proof cases
      case 2
      then have "p ! k = packet ! k" using nth by (simp add: p0_def)
      with 2 assms show ?thesis by (cases k) (auto simp: nth_append slice_def)
    next
      case 3
      with k len assms show ?thesis by (cases k) (auto simp: nth_append slice_def)
    qed simp
  qed
  moreover have "and (p ! 0) 0xC0 = and (packet ! 0) 0xC0"
  proof -
    have "p ! 0 = xor (packet ! 0) (and (mk ! 0) 0x0f)"
      using nth assms by (cases packet) (simp_all add: p0_def)
    moreover have "and (xor a (and c 0x0f)) 0xC0 = and a (0xC0 :: u8)" for a c
    proof -
      have "and 0x0f 0xC0 = (0 :: u8)" by simp
      then have "\<not> (bit (0x0f :: u8) n \<and> bit (0xC0 :: u8) n)" for n by (metis bit_0_eq bit_and_iff bot_apply bot_bool_def)
      then show ?thesis by (intro bit_eqI) (auto simp: bit_simps)
    qed
    ultimately show ?thesis by simp
  qed
  ultimately show ?thesis using run len by (intro exI [of _ "p ! 0"] exI [of _ "drop pn_offset p"]) simp
qed

lemma parse_long_header_fields:
  assumes b: "and b 0xC0 = 0xC0" and v: "is_known_version v"
    and len: "length d \<le> 255" "length s \<le> 255"
    and cap: "is_supported_by_real_servers v \<longrightarrow> length d \<le> 20 \<and> length s \<le> 20"
  shows "parse_long_header (b # u32_to_be v @ [of_nat (length d)] @ d @ [of_nat (length s)] @ s @ rest) =
    Some \<lparr> lh_version = v, lh_dcid = d, lh_scid = s \<rparr>" (is "parse_long_header ?m = _")
proof -
  have w: "length (u32_to_be v) = 4" by (rule be32.enc_width)
  have un: "unat (of_nat (length d) :: u8) = length d" "unat (of_nat (length s) :: u8) = length s"
    using len by (simp_all add: unat_of_nat)
  have ver: "u32_from_be (slice 1 5 ?m) = v"
    using w be32.dec_enc [of v] by (simp add: slice_def)
  have d5: "?m ! 5 = of_nat (length d)" using w by (simp add: nth_append nth_Cons')
  have dn: "?m ! (6 + length d) = of_nat (length s)" using w by (simp add: nth_append nth_Cons')
  have sl: "slice 6 (6 + length d) ?m = d" "slice (6 + length d + 1) (6 + length d + 1 + length s) ?m = s"
    using w by (simp_all add: slice_def drop_Cons' take_Cons')
  have big: "7 + length d + length s \<le> length ?m" using w by simp
  show ?thesis
    unfolding parse_long_header_def ver Let_def d5 un
    using b v cap big len un dn sl
    by (auto simp: checked_add_def usize_max_def RFC9000_MAX_CID_LEN_def)
qed

lemma build_client_initial_ok:
  assumes Q: "quic_sizes Q"
    and cids: "length (ip_dcid p) \<le> 20" "length (ip_scid p) \<le> 20"
    and pn: "ip_pn_len p = 1" and off: "unat (ip_crypto_offset p) < 16384"
    and room: "length (ip_crypto_payload p) + length (ip_dcid p) + length (ip_scid p) + 32 \<le> ip_target_size p"
    and t: "ip_target_size p < 16384" "300 \<le> ip_target_size p"
  shows "\<exists>pkt. build_client_initial Q p = Some pkt \<and> length pkt = ip_target_size p \<and>
    parse_long_header pkt = Some \<lparr> lh_version = VERSION_V1, lh_dcid = ip_dcid p, lh_scid = ip_scid p \<rparr>"
proof -
  let ?d = "length (ip_dcid p)" and ?s = "length (ip_scid p)" and ?t = "ip_target_size p"
  obtain keys where keys: "derive_initial_keys Q INITIAL_SALT_V1 (ip_dcid p) = Some keys"
    using derive_initial_keys_total [OF Q] by blast
  have small: "\<exists>bs. varint_write v = Some bs \<and> length bs \<le> 2" if "unat v < 16384" for v
    using that be16.enc_width by (auto simp: varint_write_def word_less_nat_alt)
  obtain ob where ob: "varint_write (ip_crypto_offset p) = Some ob" "length ob \<le> 2" using small [OF off] by blast
  have "unat (of_nat (length (ip_crypto_payload p)) :: u64) < 16384" using room t by (simp add: unat_of_nat_u64)
  then obtain lb where lb: "varint_write (of_nat (length (ip_crypto_payload p))) = Some lb" "length lb \<le> 2"
    using small by blast
  define frame where "frame = [FRAME_CRYPTO] @ ob @ lb @ ip_crypto_payload p"
  have fl: "length frame \<le> length (ip_crypto_payload p) + 5" using ob lb by (simp add: frame_def)
  define pad where "pad = ?t - (8 + ?d + ?s + 1 + 16) - 2 - length frame"
  have padding: "padding_for_target ?d ?s 1 (length frame) ?t = Some pad"
    unfolding pad_def using fl room t cids by (intro padding_for_target_exact) simp_all
  define payload where "payload = frame @ replicate pad 0"
  have pl: "length payload = ?t - (8 + ?d + ?s + 1 + 16) - 2"
    using fl room by (simp add: payload_def pad_def)
  obtain vb where vb: "varint_write (of_nat (1 + length payload + AES_GCM_TAG_LEN)) = Some vb" "length vb = 2"
  proof -
    define n where "n = 1 + length payload + AES_GCM_TAG_LEN"
    have "64 \<le> n" "n < 16384" using pl t cids by (simp_all add: AES_GCM_TAG_LEN_def n_def)
    then have "unat (of_nat n :: u64) < 16384" and sz: "varint_size (of_nat n) = Some 2"
      by (simp_all add: unat_of_nat_u64 varint_size_of_nat)
    then obtain bs where bs: "varint_write (of_nat n) = Some bs" using small by blast
    then show ?thesis using that sz varint_write_size [OF bs] unfolding n_def by simp
  qed
  define tail where "tail = u32_to_be VERSION_V1 @ [of_nat ?d] @ ip_dcid p @ [of_nat ?s] @ ip_scid p @ [0] @ vb"
  define pn_bytes where "pn_bytes = encode_pn (ip_packet_number p) 1"
  define header where "header = (or 0xc0 (of_nat 1 - 1)) # tail"
  define cipher where "cipher = aes_128_gcm_seal Q (ik_key keys) (ik_iv keys) pn_bytes (header @ pn_bytes) payload"
  have tl: "length tail = 9 + ?d + ?s" using vb be32.enc_width by (simp add: tail_def)
  have pnl: "length pn_bytes = 1" by (simp add: pn_bytes_def encode_pn_def)
  have cl: "length cipher = length payload + 16"
    using Q by (simp add: cipher_def aes_128_gcm_seal_def quic_sizes_def AES_GCM_TAG_LEN_def Let_def)
  let ?packet = "(header @ pn_bytes) @ cipher"
  have len: "length ?packet = ?t" "length header = 10 + ?d + ?s"
    using tl pnl cl pl room t cids by (simp_all add: header_def)
  have pn1: "max 1 (min (ip_pn_len p) 4) = 1" using pn by simp
  have run: "build_client_initial Q p = apply_header_protection Q ?packet (ik_hp keys) (length header) 1"
    unfolding build_client_initial_def Let_def pn1 keys ob(1) lb(1) bind.bind_lunit frame_def [symmetric]
      padding payload_def [symmetric] vb(1) header_def tail_def cipher_def pn_bytes_def
    by simp
  obtain b rest where prot: "apply_header_protection Q ?packet (ik_hp keys) (length header) 1 =
      Some (b # slice 1 (length header) ?packet @ rest)"
      and rl: "length rest = length ?packet - length header" and b: "and b 0xC0 = and (?packet ! 0) 0xC0"
    using apply_header_protection_ok [of "length header" ?packet Q "ik_hp keys" 1] len t cids by auto
  have sl: "slice 1 (length header) ?packet = tail" by (simp add: header_def slice_def)
  have b': "and b 0xC0 = 0xC0" using b by (simp add: header_def)
  have "parse_long_header (b # tail @ rest) =
      Some \<lparr> lh_version = VERSION_V1, lh_dcid = ip_dcid p, lh_scid = ip_scid p \<rparr>"
    using parse_long_header_fields [OF b', of VERSION_V1 "ip_dcid p" "ip_scid p" "[0] @ vb @ rest"] cids
    by (simp add: tail_def is_known_version_def is_supported_by_real_servers_def REAL_SERVER_VERSIONS_def VERSION_V1_def)
  moreover have "length (b # tail @ rest) = ?t" using rl len tl by (simp add: header_def)
  ultimately show ?thesis using run prot sl by simp
qed


section \<open>The size of a ClientHello\<close>

lemma shuffle_down_mset: "i \<le> length v \<Longrightarrow> mset (fst (shuffle_down R v i g)) = mset v"
proof (induction i arbitrary: v g rule: less_induct)
  case (less i)
  show ?case
  proof (cases "i > 1")
    case True
    let ?w = "next_u64 R g"
    let ?j = "unat (fst ?w) mod i"
    let ?v = "v[i - 1 := v ! ?j, ?j := v ! (i - 1)]"
    have ij: "i - 1 < length v" "?j < length v"
      using True less.prems mod_less_divisor [of i "unat (fst ?w)"] by linarith+
    have m: "mset ?v = mset v" using mset_swap [OF ij(2,1)] by simp
    have "mset (fst (shuffle_down R ?v (i - 1) (snd ?w))) = mset ?v"
      using True less.prems by (intro less.IH) simp_all
    then show ?thesis
      using True m by (subst shuffle_down.simps) (simp add: Let_def case_prod_beta)
  next
    case False
    then show ?thesis by (subst shuffle_down.simps) simp
  qed
qed

lemma shuffle_mset: "mset (fst (shuffle R v g)) = mset v"
  by (simp add: shuffle_def shuffle_down_mset)

lemma sum_list_mset_eq: "mset xs = mset ys \<Longrightarrow> sum_list (map f xs) = (sum_list (map f ys) :: nat)"
  by (metis mset_map sum_mset_sum_list)

lemma length_concat_u16 [simp]: "length (concat (map u16_to_be vs)) = 2 * length vs"
  using be16.enc_width by (induction vs) simp_all

lemma length_u16_to_be [simp]: "length (u16_to_be w) = 2"
  by (rule be16.enc_width)

lemma length_u16_len [simp]: "length (u16_len bs) = 2"
  by (simp add: u16_len_def)

lemma length_rand_bytes: "fills_exactly R \<Longrightarrow> length (fst (rand_bytes R n g)) = n"
  by (simp add: rand_bytes_def fills_exactly_def)

definition tp_ok :: "tp_entry \<Rightarrow> bool" where
  "tp_ok e = (case e of
      TpVarint i v \<Rightarrow> i < push_bit 62 1 \<and> v < push_bit 62 1
    | TpBytes i b \<Rightarrow> i < push_bit 62 1 \<and> length b \<le> 12
    | TpVersionInfo i \<Rightarrow> i < push_bit 62 1
    | TpScidSource i \<Rightarrow> i < push_bit 62 1
    | TpGrease \<Rightarrow> True)"

abbreviation param_ok :: "u64 \<times> bytes \<Rightarrow> bool" where
  "param_ok p \<equiv> fst p < push_bit 62 1 \<and> length (snd p) \<le> 12"

lemma grease_tp_id_small: "fst (grease_tp_id R g) < push_bit 62 1"
proof -
  let ?w = "fst (next_u64 R g)"
  let ?m = "and ?w 0x03ffffffffffffff"
  define i where "i = or ?m (push_bit 61 1)"
  define j where "j = (if i mod 31 \<noteq> 27 then i + (27 + 31 - i mod 31) mod 31 else i)"
  have "?m \<le> 0x03ffffffffffffff" by (rule word_and_le1)
  then have m: "unat ?m \<le> 0x03ffffffffffffff" by (simp add: word_le_nat_alt)
  then have "unat i = unat ?m + 1 * 2 ^ 61"
    using or_shift_nat [of "unat ?m" 61 1] by (simp add: i_def unsigned_or_eq)
  with m have i: "unat i \<le> 0x23ffffffffffffff" by simp
  have r: "unat (x mod 31) < 31" for x :: u64 by (simp add: unat_mod)
  have "unat j \<le> unat i + 31"
    using i r [of "27 + 31 - i mod 31"] by (auto simp: j_def unat_add_nowrap)
  then have j: "j < push_bit 62 1" using i by (simp add: word_less_nat_alt)
  have "fst (grease_tp_id R g) = (if j \<ge> push_bit 62 1 then j - 31 else j)"
    by (simp add: grease_tp_id_def Let_def case_prod_beta j_def i_def)
  then show ?thesis using j by (auto dest: leD)
qed

lemma resolve_tp_ok:
  assumes "fills_exactly R" "length scid \<le> 12" "tp_ok e"
  shows "\<exists>p g'. resolve_tp R scid e g = Some (p, g') \<and> param_ok p"
proof (cases e)
  case (TpVarint i v)
  then obtain bs where "varint_write v = Some bs" using assms(3) varint_write_total by (auto simp: tp_ok_def)
  with TpVarint assms(3) varint_write_size [of v bs] show ?thesis by (auto simp: resolve_tp_def tp_ok_def)
next
  case TpGrease
  then show ?thesis
    using grease_tp_id_small [of R g] length_rand_bytes [OF assms(1), of 6 "snd (grease_tp_id R g)"]
    by (simp add: resolve_tp_def Let_def case_prod_beta)
qed (use assms in \<open>auto simp: resolve_tp_def tp_ok_def version_information_def Let_def case_prod_beta\<close>)

lemma resolve_tps_ok:
  assumes "fills_exactly R" "length scid \<le> 12"
  shows "list_all tp_ok es \<Longrightarrow>
    \<exists>ps g'. resolve_tps R scid es g = Some (ps, g') \<and> length ps = length es \<and> list_all param_ok ps"
proof (induction es arbitrary: g)
  case (Cons e es)
  then obtain p g1 where p: "resolve_tp R scid e g = Some (p, g1)" "param_ok p"
    using resolve_tp_ok [OF assms, of e g] by auto
  then obtain ps g2 where "resolve_tps R scid es g1 = Some (ps, g2)" "length ps = length es" "list_all param_ok ps"
    using Cons by fastforce
  with p show ?case by simp
qed simp

lemma tp_body_ok: "list_all param_ok ps \<Longrightarrow> \<exists>b. tp_body ps = Some b \<and> length b \<le> 28 * length ps"
proof (induction ps)
  case (Cons p ps)
  obtain i v where p: "p = (i, v)" by (cases p)
  obtain ib where ib: "varint_write i = Some ib" using varint_write_total [of i] Cons.prems p by auto
  have "(of_nat (length v) :: u64) < push_bit 62 1"
    using Cons.prems p by (simp add: word_less_nat_alt unat_of_nat_u64)
  then obtain lb where lb: "varint_write (of_nat (length v)) = Some lb" using varint_write_total by blast
  obtain b where b: "tp_body ps = Some b" "length b \<le> 28 * length ps" using Cons by auto
  have "length ib \<le> 8" "length lb \<le> 8" using varint_write_size [OF ib] varint_write_size [OF lb] by auto
  then show ?case using p ib lb b Cons.prems by simp
qed simp

text \<open>The most bytes each extension takes in any of the profiles.\<close>

definition ext_room :: "u16 \<Rightarrow> nat" where
  "ext_room t =
     (if t = EXT_SERVER_NAME then 262 else if t = EXT_ALPN then 9 else if t = EXT_SUPPORTED_GROUPS then 16
      else if t = EXT_SIGNATURE_ALGORITHMS then 28 else if t = EXT_SUPPORTED_VERSIONS then 7
      else if t = EXT_PSK_KEY_EXCHANGE_MODES then 6 else if t = EXT_KEY_SHARE then 1331
      else if t = EXT_QUIC_TRANSPORT_PARAMS then 368 else if t = EXT_COMPRESS_CERTIFICATE then 11
      else if t = EXT_RECORD_SIZE_LIMIT then 6 else if t = EXT_RENEGOTIATION_INFO then 5
      else if t = EXT_STATUS_REQUEST then 9 else if t = EXT_EXTENDED_MASTER_SECRET then 4
      else if t = EXT_DELEGATED_CREDENTIALS then 14 else if t = EXT_APPLICATION_SETTINGS then 9
      else if t = EXT_ENCRYPTED_CLIENT_HELLO then 246 else 0)"

definition profile_ok :: "tls_profile \<Rightarrow> bool" where
  "profile_ok p \<longleftrightarrow>
     pf_alpn p = [ascii ''h3''] \<and> length (supported_groups p) \<le> 5 \<and> length (signature_algorithms p) \<le> 11 \<and>
     length (supported_versions p) = 1 \<and>
     sum_list (map (\<lambda>k. 4 + key_share_size k) (key_share_groups p)) \<le> 1325 \<and>
     length (quic_tp p) \<le> 13 \<and> list_all tp_ok (quic_tp p) \<and> length (cipher_suites p) = 3 \<and>
     sum_list (map ext_room (extensions_order p)) + (if use_empty_session_id p then 0 else 32) + 51 \<le>
       2 * (packet_target p - 64) \<and>
     1250 \<le> packet_target p \<and> packet_target p \<le> 1252"

lemma key_share_entries_length:
  "fills_exactly R \<Longrightarrow> length (fst (key_share_entries R gs g)) = sum_list (map (\<lambda>k. 4 + key_share_size k) gs)"
proof (induction gs arbitrary: g)
  case (Cons k gs)
  have "0 < key_share_size 0x0017" by (simp add: key_share_size_def)
  then show ?case
    using Cons length_rand_bytes [OF Cons.prems] by (simp add: Let_def case_prod_beta)
qed simp

lemma ext_quic_tp_ok:
  assumes R: "fills_exactly R" and scid: "length scid \<le> 12"
    and tp: "length (quic_tp p) \<le> 13" "list_all tp_ok (quic_tp p)"
  shows "\<exists>e g'. ext_quic_tp R p scid g = Some (e, g') \<and> length e \<le> 368"
proof -
  obtain ps g1 where ps: "resolve_tps R scid (quic_tp p) g = Some (ps, g1)" "length ps = length (quic_tp p)"
      "list_all param_ok ps"
    using resolve_tps_ok [OF R scid tp(2)] by blast
  define ps' where "ps' = fst (shuffle R ps g1)"
  have m: "mset ps' = mset ps" by (simp add: ps'_def shuffle_mset)
  have "length ps' = length ps" "set ps' = set ps" using m by (metis size_mset, metis set_mset_mset)
  then have "length ps' \<le> 13" "list_all param_ok ps'" using ps tp(1) by (simp_all add: list_all_iff)
  then obtain b where b: "tp_body ps' = Some b" "length b \<le> 28 * 13"
    using tp_body_ok [of ps'] by fastforce
  then show ?thesis using ps(1) by (simp add: ext_quic_tp_def case_prod_beta ps'_def)
qed

lemma build_extension_ok:
  assumes R: "fills_exactly R" and scid: "length scid \<le> 12" and sni: "length sni \<le> 253" and p: "profile_ok p"
  shows "\<exists>e g'. build_extension R t p sni scid g = Some (e, g') \<and> length e \<le> ext_room t"
proof (cases "t = EXT_QUIC_TRANSPORT_PARAMS")
  case True
  then show ?thesis
    using ext_quic_tp_ok [OF R scid, of p g] p
    by (simp add: build_extension_def ext_room_def ext_codes profile_ok_def)
next
  case False
  have ks: "length (fst (key_share_entries R (key_share_groups p) g)) \<le> 1325"
    using p by (simp add: key_share_entries_length [OF R] profile_ok_def)
  have ech: "length (fst (ext_encrypted_client_hello R g)) \<le> 246"
  proof -
    have "unat w mod 51 \<le> 50" for w :: u64 using mod_less_divisor [of 51 "unat w"] by linarith
    then show ?thesis
      using length_rand_bytes [OF R]
      by (simp add: ext_encrypted_client_hello_def Let_def case_prod_beta)
  qed
  obtain e' g' where e': "ext_encrypted_client_hello R g = (e', g')" by (cases "ext_encrypted_client_hello R g")
  show ?thesis
    using False ks ech [unfolded e'] e' sni p length_rand_bytes [OF R]
    by (auto simp: build_extension_def ext_room_def profile_ok_def Let_def case_prod_beta
      ext_server_name_def ext_alpn_def ext_u16_list_def ext_supported_versions_def ext_psk_ke_modes_def
      ext_key_share_def ext_compress_cert_def ext_record_size_limit_def ext_reneg_info_def
      ext_status_request_def ext_extended_master_secret_def ext_delegated_credentials_def
      ext_application_settings_def)
qed

lemma build_extensions_ok:
  assumes R: "fills_exactly R" and scid: "length scid \<le> 12" and sni: "length sni \<le> 253" and p: "profile_ok p"
  shows "\<exists>es g'. build_extensions R ts p sni scid g = Some (es, g') \<and> length es \<le> sum_list (map ext_room ts)"
proof (induction ts arbitrary: g)
  case (Cons t ts)
  obtain e g1 where e: "build_extension R t p sni scid g = Some (e, g1)" "length e \<le> ext_room t"
    using build_extension_ok [OF assms] by blast
  obtain es g2 where "build_extensions R ts p sni scid g1 = Some (es, g2)" "length es \<le> sum_list (map ext_room ts)"
    using Cons by blast
  with e show ?case by simp
qed simp

lemma client_hello_ok:
  assumes R: "fills_exactly R" and scid: "length scid \<le> 12" and sni: "length sni \<le> 253" and p: "profile_ok p"
  shows "\<exists>ch g'. generate_client_hello R p sni scid g = Some (ch, g') \<and> length ch \<le> 2 * (packet_target p - 64) \<and> ch \<noteq> []"
proof -
  define g1 where "g1 = snd (rand_bytes R 32 g)"
  define sid where "sid = (if use_empty_session_id p then ([0x00], g1)
      else ([0x20] @ fst (rand_bytes R 32 g1), snd (rand_bytes R 32 g1)))"
  define order where "order = (if randomize_extensions_order p then shuffle R (extensions_order p) (snd sid)
      else (extensions_order p, snd sid))"
  obtain es g2 where es: "build_extensions R (fst order) p sni scid (snd order) = Some (es, g2)"
      "length es \<le> sum_list (map ext_room (fst order))"
    using build_extensions_ok [OF assms] by blast
  have "mset (fst order) = mset (extensions_order p)" by (simp add: order_def shuffle_mset)
  then have "sum_list (map ext_room (fst order)) = sum_list (map ext_room (extensions_order p))"
    by (rule sum_list_mset_eq)
  moreover have "length (fst sid) = (if use_empty_session_id p then 1 else 33)"
    using length_rand_bytes [OF R] by (simp add: sid_def)
  moreover define ch where "ch = u16_to_be 0x0303 @ fst (rand_bytes R 32 g) @ fst sid @
      u16_to_be (of_nat (length (cipher_suites p) * 2)) @ concat (map u16_to_be (cipher_suites p)) @
      [0x01] @ [0x00] @ u16_len es @ es"
  ultimately have "length ch + 4 \<le> 2 * (packet_target p - 64)"
    using es(2) p length_rand_bytes [OF R] by (auto simp: profile_ok_def split: if_splits)
  moreover have "generate_client_hello R p sni scid g = Some ([0x01] @ w24 (of_nat (length ch)) @ ch, g2)"
    unfolding generate_client_hello_def Let_def case_prod_beta g1_def [symmetric] sid_def [symmetric]
      order_def [symmetric] es(1) ch_def
    by simp
  ultimately show ?thesis by (simp add: w24_def)
qed

lemma profiles_ok: "profile_ok chrome_profile" "profile_ok firefox_profile" "profile_ok curl_profile"
  by (simp_all add: profile_ok_def chrome_profile_def firefox_profile_def curl_profile_def ext_room_def
      ext_codes key_share_size_def PQ_HYBRID_GROUP_def tp_ok_def CHROME_PACKET_SIZE_def FIREFOX_PACKET_SIZE_def)

lemma browser_profile_ok:
  "\<exists>p. for_browser (fst (resolve_browser R browser g)) = Some p \<and> profile_ok p"
  using profiles_ok by (cases browser) (auto simp: resolve_browser_def case_prod_beta)

lemma initials_of_hello:
  assumes Q: "quic_sizes Q" and p: "profile_ok p" and ids: "length dcid = 8" "length scid \<le> 3"
    and off: "off \<le> packet_target p" and len: "length payload \<le> packet_target p - 64"
  shows "\<exists>pkt. build_client_initial Q \<lparr> ip_dcid = dcid, ip_scid = scid, ip_packet_number = n, ip_pn_len = 1,
      ip_crypto_offset = of_nat off, ip_crypto_payload = payload, ip_target_size = packet_target p \<rparr> = Some pkt \<and>
    length pkt = packet_target p \<and>
    parse_long_header pkt = Some \<lparr> lh_version = VERSION_V1, lh_dcid = dcid, lh_scid = scid \<rparr>"
proof -
  have t: "1250 \<le> packet_target p" "packet_target p \<le> 1252" using p by (simp_all add: profile_ok_def)
  then have "length payload + length dcid + length scid + 32 \<le> packet_target p" using ids len by linarith
  then show ?thesis
    using build_client_initial_ok [OF Q, of "\<lparr> ip_dcid = dcid, ip_scid = scid, ip_packet_number = n, ip_pn_len = 1,
      ip_crypto_offset = of_nat off, ip_crypto_payload = payload, ip_target_size = packet_target p \<rparr>"] t ids off
    by (simp add: unat_of_nat_u64)
qed

lemma generate_client_initials_ok:
  assumes R: "fills_exactly R" and Q: "quic_sizes Q" and sni: "length sni \<le> 253"
  shows "\<exists>p ds g'. for_browser (fst (resolve_browser R browser g)) = Some p \<and>
    generate_client_initials R Q browser sni g = Some (ds, g') \<and> ds \<noteq> [] \<and>
    (\<forall>d \<in> set ds. length d = packet_target p \<and> (\<exists>hdr. parse_long_header d = Some hdr \<and>
       lh_version hdr = VERSION_V1))"
proof -
  define b where "b = resolve_browser R browser g"
  obtain p where p: "for_browser (fst b) = Some p" "profile_ok p"
    using browser_profile_ok [of R browser g] unfolding b_def by blast
  define sc where "sc = (if fst b = BpFirefox then rand_bytes R 3 (snd b) else ([], snd b))"
  define dc where "dc = rand_bytes R 8 (snd sc)"
  have ids: "length (fst dc) = 8" "length (fst sc) \<le> 3"
    using length_rand_bytes [OF R] by (simp_all add: dc_def sc_def)
  then obtain ch g' where ch: "generate_client_hello R p sni (fst sc) (snd dc) = Some (ch, g')"
      "length ch \<le> 2 * (packet_target p - 64)"
    using client_hello_ok [OF R _ sni p(2), of "fst sc" "snd dc"] by auto
  define k where "k = min (length ch) (packet_target p - 64)"
  have k: "k \<le> packet_target p - 64" "length ch - k \<le> packet_target p - 64" "k \<le> packet_target p"
    using ch(2) by (auto simp: k_def)
  have kt: "length (take k ch) \<le> packet_target p - 64" using k(1) by simp
  have kd: "length (drop k ch) \<le> packet_target p - 64" using k(2) by simp
  note init = initials_of_hello [OF Q p(2) ids]
  obtain d1 where d1: "build_client_initial Q \<lparr> ip_dcid = fst dc, ip_scid = fst sc, ip_packet_number = 0,
      ip_pn_len = 1, ip_crypto_offset = 0, ip_crypto_payload = take k ch, ip_target_size = packet_target p \<rparr> = Some d1"
      "length d1 = packet_target p"
      "parse_long_header d1 = Some \<lparr> lh_version = VERSION_V1, lh_dcid = fst dc, lh_scid = fst sc \<rparr>"
    using init [of 0 "take k ch" 0, OF _ kt] by auto
  obtain d2 where d2: "build_client_initial Q \<lparr> ip_dcid = fst dc, ip_scid = fst sc, ip_packet_number = 1,
      ip_pn_len = 1, ip_crypto_offset = of_nat k, ip_crypto_payload = drop k ch, ip_target_size = packet_target p \<rparr> = Some d2"
      "length d2 = packet_target p"
      "parse_long_header d2 = Some \<lparr> lh_version = VERSION_V1, lh_dcid = fst dc, lh_scid = fst sc \<rparr>"
    using init [of k "drop k ch" 1, OF k(3) kd] by auto
  have run: "generate_client_initials R Q browser sni g =
      Some (if k < length ch then [d1, d2] else [d1], g')"
    unfolding generate_client_initials_def Let_def case_prod_beta b_def [symmetric] p(1) sc_def [symmetric]
      dc_def [symmetric] bind.bind_lunit ch(1) PACKET_OVERHEAD_HEADROOM_def fst_conv snd_conv k_def [symmetric] d1(1) d2(1)
    by simp
  show ?thesis
    unfolding b_def [symmetric] run using p(1) d1 d2
    by (intro exI [of _ p] exI [of _ "if k < length ch then [d1, d2] else [d1]"] exI [of _ g']) auto
qed

text \<open>
  C38. For every browser, every server name a configuration accepts, and whatever is drawn, the QUIC
  imitation produces its datagrams: no assertion, index or unreachable arm is hit, the ClientHello
  always fits one or two packets, every datagram has exactly the size the profile gives, and the
  long-header parser reads each as a QUIC version 1 packet.
\<close>

theorem initials_have_exact_size:
  assumes "fills_exactly R" "quic_sizes Q" "length sni \<le> 253"
  shows "\<exists>p ds g'. for_browser (fst (resolve_browser R browser g)) = Some p \<and>
    generate_client_initials R Q browser sni g = Some (ds, g') \<and> ds \<noteq> [] \<and>
    (\<forall>d \<in> set ds. length d = packet_target p \<and>
       (\<exists>hdr. parse_long_header d = Some hdr \<and> lh_version hdr = VERSION_V1))"
  by (rule generate_client_initials_ok [OF assms])

definition sample_quic :: quic_crypto where
  "sample_quic = \<lparr> q_hmac_sha256 = (\<lambda>key data. replicate 32 0),
     q_gcm_seal = (\<lambda>key nonce aad pt. pt @ replicate 16 0), q_aes_block = (\<lambda>key block. replicate 16 0) \<rparr>"

lemma sample_quic_sizes: "quic_sizes sample_quic"
  by (simp add: quic_sizes_def sample_quic_def AES_GCM_TAG_LEN_def)

theorem initials_have_exact_size_witness:
  "fills_exactly zero_rng \<and> quic_sizes sample_quic \<and>
   (\<exists>ds g'. generate_client_initials zero_rng sample_quic BpFirefox (ascii ''example.net'') () = Some (ds, g') \<and>
     ds \<noteq> [] \<and> (\<forall>d \<in> set ds. length d = 1252))"
proof -
  have n: "length (ascii ''example.net'') \<le> 253" by simp
  show ?thesis
    using initials_have_exact_size [OF zero_rng_fills sample_quic_sizes n, of BpFirefox "()"]
      zero_rng_fills sample_quic_sizes
    by (auto simp: resolve_browser_def firefox_profile_def FIREFOX_PACKET_SIZE_def)
qed

section \<open>Version Negotiation\<close>

lemma parse_long_header_cids:
  assumes "parse_long_header data = Some hdr"
  shows "length (lh_dcid hdr) \<le> 255 \<and> length (lh_scid hdr) \<le> 255"
proof -
  have "unat b \<le> 255" for b :: u8 using unat_bound [of b] by simp
  then show ?thesis
    using assms
    by (auto simp: parse_long_header_def Let_def checked_add_def split: if_splits Option.bind_splits)
qed

lemma version_negotiation_facts:
  assumes "fst (version_negotiation R initial g) = Some reply"
  shows "\<exists>hdr b. parse_long_header initial = Some hdr \<and> \<not> is_supported_by_real_servers (lh_version hdr) \<and>
    reply = [b] @ u32_to_be 0 @ [of_nat (length (lh_scid hdr))] @ lh_scid hdr @
            [of_nat (length (lh_dcid hdr))] @ lh_dcid hdr @ concat (map u32_to_be REAL_SERVER_VERSIONS) \<and>
    bit b 7 \<and> bit b 6 \<and> length reply \<le> VN_MAX_LEN \<and> length reply < length initial \<and>
    parse_long_header reply = None"
proof -
  obtain hdr where hdr: "parse_long_header initial = Some hdr" "\<not> is_supported_by_real_servers (lh_version hdr)"
      and big: "MIN_INITIAL_DATAGRAM \<le> length initial"
      and r: "reply = [or 0xC0 (and (ucast (fst (next_u32 R g))) 0x3F)] @ u32_to_be 0 @
         [of_nat (length (lh_scid hdr))] @ lh_scid hdr @
         [of_nat (length (lh_dcid hdr))] @ lh_dcid hdr @ concat (map u32_to_be REAL_SERVER_VERSIONS)"
    using assms by (auto simp: version_negotiation_def Let_def case_prod_beta split: if_splits option.splits)
  let ?b = "or 0xC0 (and (ucast (fst (next_u32 R g))) 0x3F) :: u8"
  have w: "length (u32_to_be x) = 4" for x by (rule be32.enc_width)
  have len: "length reply \<le> VN_MAX_LEN"
    using parse_long_header_cids [OF hdr(1)] w by (simp add: r VN_MAX_LEN_def REAL_SERVER_VERSIONS_def)
  have "slice 1 5 reply = u32_to_be 0" using w by (simp add: r slice_def)
  then have "u32_from_be (slice 1 5 reply) = 0" by (simp add: be32.dec_enc)
  moreover have "\<not> is_known_version 0"
    by (simp add: is_known_version_def is_supported_by_real_servers_def REAL_SERVER_VERSIONS_def)
  ultimately have "parse_long_header reply = None" by (simp add: parse_long_header_def)
  moreover have "bit ?b 7" "bit ?b 6" by (simp_all add: bit_or_iff)
  moreover have "length reply < length initial"
    using len big by (simp add: VN_MAX_LEN_def REAL_SERVER_VERSIONS_def MIN_INITIAL_DATAGRAM_def)
  ultimately show ?thesis using hdr r len by blast
qed

text \<open>
  C39. A Version Negotiation reply is sent only for a version that real servers do not speak, and only
  to a datagram of at least 1200 bytes; it is always shorter. It names version 0, carries the
  connection ids of the request swapped, and lists exactly the versions the responder stays silent
  on. The parser does not take it for a request, so it is never answered itself.
\<close>

theorem version_negotiation_attenuates:
  assumes "fst (version_negotiation R initial g) = Some reply"
  shows "\<exists>hdr b. parse_long_header initial = Some hdr \<and> \<not> is_supported_by_real_servers (lh_version hdr) \<and>
    reply = [b] @ u32_to_be 0 @ [of_nat (length (lh_scid hdr))] @ lh_scid hdr @
            [of_nat (length (lh_dcid hdr))] @ lh_dcid hdr @ concat (map u32_to_be REAL_SERVER_VERSIONS) \<and>
    bit b 7 \<and> bit b 6 \<and> length reply \<le> VN_MAX_LEN \<and> length reply < length initial \<and>
    parse_long_header reply = None"
  by (rule version_negotiation_facts [OF assms])

definition sample_initial :: bytes where
  "sample_initial = 0xC0 # u32_to_be 0x0a0a0a0a @ [of_nat (length [1 :: u8])] @ [1] @
     [of_nat (length [2 :: u8])] @ [2] @ replicate 1191 0"

theorem version_negotiation_attenuates_witness:
  "\<exists>reply. fst (version_negotiation zero_rng sample_initial ()) = Some reply \<and> length reply < length sample_initial"
proof -
  have p: "parse_long_header sample_initial = Some \<lparr> lh_version = 0x0a0a0a0a, lh_dcid = [1], lh_scid = [2] \<rparr>"
    unfolding sample_initial_def
    by (rule parse_long_header_fields)
      (simp_all add: is_known_version_def is_supported_by_real_servers_def REAL_SERVER_VERSIONS_def)
  have "length sample_initial \<ge> MIN_INITIAL_DATAGRAM"
    using be32.enc_width by (simp add: sample_initial_def MIN_INITIAL_DATAGRAM_def)
  then obtain reply where "fst (version_negotiation zero_rng sample_initial ()) = Some reply"
    using p by (simp add: version_negotiation_def zero_rng_def is_supported_by_real_servers_def REAL_SERVER_VERSIONS_def)
  then show ?thesis using version_negotiation_attenuates [of zero_rng sample_initial "()" reply] by blast
qed

end
