(* ===== verification/Detect.thy ===== *)
theory Detect
  imports Quic Amnezia_Config
begin

text \<open>
  Recognising other protocols (\<open>noise/imitation/detect.rs\<close>), the evidence an endpoint in automatic
  mode keeps about them (\<open>noise/imitation/auto.rs\<close>), and the sequence of imitation datagrams a
  configuration sends before a handshake (\<open>pre_handshake_imitation_datagrams\<close> of \<open>amnezia.rs\<close>).

  The functions that read the clock take the reading as an argument, once per call. The main lemma
  ties the two halves together: whatever a configuration sends is recognised as the protocol it is
  configured for, so an endpoint in automatic mode learns what its peer imitates. Evidence is only
  replaced when it is absent, of another source or stale, and never while a protocol is learned.
\<close>

section \<open>Detection\<close>

datatype probe = ProbeDns | ProbeQuic | ProbeSip | ProbeStun

fun probe_protocol :: "probe \<Rightarrow> imitation_protocol" where
  "probe_protocol ProbeDns = ImDns"
| "probe_protocol ProbeQuic = ImQuic"
| "probe_protocol ProbeSip = ImSip"
| "probe_protocol ProbeStun = ImStun"

definition probe_is :: "probe \<Rightarrow> imitation_protocol \<Rightarrow> bool" where
  "probe_is probe configured \<longleftrightarrow>
     (probe, configured) \<in> {(ProbeDns, ImDns), (ProbeQuic, ImQuic), (ProbeSip, ImSip), (ProbeStun, ImStun)}"

definition SIP_PREFIXES :: "bytes list" where
  "SIP_PREFIXES = map ascii
     [''SUBSCRIBE '', ''REGISTER '', ''OPTIONS '', ''MESSAGE '', ''INVITE '', ''CANCEL '', ''NOTIFY '',
      ''INFO '', ''ACK '', ''BYE '', ''SIP/'']"

definition eq_ignore_ascii_case :: "bytes \<Rightarrow> bytes \<Rightarrow> bool" where
  "eq_ignore_ascii_case a b \<longleftrightarrow> map to_ascii_uppercase a = map to_ascii_uppercase b"

definition has_stun_cookie :: "bytes \<Rightarrow> bool" where
  "has_stun_cookie data \<longleftrightarrow>
     length data \<ge> 8 \<and> u32_from_be [data ! 4, data ! 5, data ! 6, data ! 7] = stun_cookie"

definition detect :: "bytes \<Rightarrow> probe option" where
  "detect data =
     (if data = [] then None
      else if parse_long_header data \<noteq> None then Some ProbeQuic
      else if binding_request_len data \<noteq> None then Some ProbeStun
      else if \<not> has_stun_cookie data \<and> question_end data \<noteq> None then Some ProbeDns
      else
        let head = take (min (length data) 10) data in
        if list_ex (\<lambda>p. length p \<le> length head \<and> eq_ignore_ascii_case (take (length p) head) p) SIP_PREFIXES
        then Some ProbeSip
        else None)"

section \<open>Evidence\<close>

definition HINT_LIFETIME :: duration where "HINT_LIFETIME = from_secs 30"

definition allows_imitation_hint :: "wg_error \<Rightarrow> bool" where
  "allows_imitation_hint e \<longleftrightarrow>
     e \<in> {InvalidMac, WrongKey, WrongIndex, NoCurrentSession, UnexpectedPacket, InvalidAeadTag}"

record hint =
  hint_protocol :: imitation_protocol
  hint_received :: instant

definition hint_new :: "instant \<Rightarrow> imitation_protocol \<Rightarrow> hint" where
  "hint_new now protocol = \<lparr> hint_protocol = protocol, hint_received = now \<rparr>"

definition hint_detect :: "instant \<Rightarrow> bytes \<Rightarrow> hint option" where
  "hint_detect now datagram = do { p \<leftarrow> detect datagram; Some (hint_new now (probe_protocol p)) }"

definition hint_is_live :: "instant \<Rightarrow> hint \<Rightarrow> bool" where
  "hint_is_live now h \<longleftrightarrow> duration_since now (hint_received h) < HINT_LIFETIME"

record auto_imitation =
  ai_learned :: "imitation_protocol option"
  ai_pending :: "(ip_addr option \<times> hint) option"
  ai_warned :: bool

definition auto_default :: auto_imitation where
  "auto_default = \<lparr> ai_learned = None, ai_pending = None, ai_warned = False \<rparr>"

definition auto_observe :: "instant \<Rightarrow> ip_addr option \<Rightarrow> bytes \<Rightarrow> auto_imitation \<Rightarrow> bool \<times> auto_imitation" where
  "auto_observe now source datagram a =
     (case hint_detect now datagram of
        None \<Rightarrow> (False, a)
      | Some hint \<Rightarrow>
          (True,
           if ai_learned a = None \<and>
              \<not> (case ai_pending a of
                   Some (src0, old) \<Rightarrow> src0 = source \<and> hint_is_live now old
                 | None \<Rightarrow> False)
           then a\<lparr> ai_pending := Some (source, hint) \<rparr>
           else a))"

definition auto_hint :: "instant \<Rightarrow> ip_addr option \<Rightarrow> auto_imitation \<Rightarrow> imitation_protocol option" where
  "auto_hint now source a =
     (case option_filter (\<lambda>(src0, h). src0 = source \<and> hint_is_live now h) (ai_pending a) of
        Some (_, h) \<Rightarrow> Some (hint_protocol h)
      | None \<Rightarrow> None)"

definition clear_pending :: "auto_imitation \<Rightarrow> auto_imitation" where
  "clear_pending a = a\<lparr> ai_pending := None \<rparr>"

section \<open>The imitation sequence\<close>

fun to_quic :: "imitation_browser \<Rightarrow> browser_profile" where
  "to_quic BrDefault = BpCurl"
| "to_quic BrCurl = BpCurl"
| "to_quic BrChrome = BpChrome"
| "to_quic BrFirefox = BpFirefox"
| "to_quic BrRandom = BpRandom"

text \<open>
  What the generators take from other crates and from the process: HMAC-SHA1, the primitives of QUIC
  and the STUN software name of this host.
\<close>

record cover =
  cv_hmac_sha1 :: hmac_sign
  cv_quic :: quic_crypto
  cv_software :: bytes

definition with_delays :: "nat list \<Rightarrow> bytes list \<Rightarrow> (duration \<times> bytes) list" where
  "with_delays delays_ms datagrams =
     map (\<lambda>(i, d). (from_millis (if i < length delays_ms then delays_ms ! i else 0), d)) (enumerate 0 datagrams)"

definition pre_handshake_imitation_datagrams ::
  "'g rng \<Rightarrow> cover \<Rightarrow> amnezia_config \<Rightarrow> 'g \<Rightarrow> ((duration \<times> bytes) list \<times> 'g) option" where
  "pre_handshake_imitation_datagrams R V c g =
     (case im_protocol (cfg_imitation c) of
        ImDns \<Rightarrow>
          (let (host, g) = imitation_host R c g; (ds, g) = dns_generate R host g
           in Some (with_delays [0, 0, 15] ds, g))
      | ImSip \<Rightarrow>
          (let (host, g) = imitation_host R c g; (ds, g) = sip_generate R host g
           in Some (with_delays [0, 20] ds, g))
      | ImStun \<Rightarrow> do {
          (ds, g) \<leftarrow> stun_generate R (cv_hmac_sha1 V) (cv_software V) g;
          Some (with_delays [0, 15] ds, g) }
      | ImQuic \<Rightarrow>
          (let (host, g) = imitation_host R c g in do {
             (ds, g) \<leftarrow> generate_client_initials R (cv_quic V) (to_quic (im_browser (cfg_imitation c))) host g;
             Some (with_delays [] ds, g) })
      | ImNone \<Rightarrow> Some ([], g)
      | ImAuto \<Rightarrow> Some ([], g))"

section \<open>A sequence is recognised\<close>

lemma set_with_delays: "snd ` set (with_delays ms ds) = set ds"
proof -
  have "map snd (with_delays ms ds) = map snd (enumerate 0 ds)"
    by (simp add: with_delays_def case_prod_beta comp_def)
  then show ?thesis by (metis list.set_map map_snd_enumerate)
qed

lemma length_with_delays [simp]: "length (with_delays ms ds) = length ds"
  by (simp add: with_delays_def)

lemma known_version_low:
  assumes "is_known_version v"
  shows "and v 0xff \<noteq> 0"
proof
  assume z: "and v 0xff = 0"
  have "and (and v 0x0f0f0f0f) 0xf = and (and v 0xff) 0xf" by (simp add: and.assoc)
  then have "and v 0x0f0f0f0f \<noteq> 0x0a0a0a0a" using z by auto
  then show False
    using assms z
    by (auto simp: is_known_version_def is_supported_by_real_servers_def REAL_SERVER_VERSIONS_def)
qed

lemma detect_dns:
  assumes "is_valid_imitation_host host"
  shows "detect (fst (build_query R host qtype g)) = Some ProbeDns"
proof -
  let ?q = "fst (build_query R host qtype g)"
  obtain a b rest where q: "?q = a # b # 1 # 0 # 0 # 1 # 0 # 0 # 0 # 0 # 0 # 0 # rest"
    using build_query_shape [of R host qtype g] by auto
  have v: "u32_from_be (slice 1 5 ?q) = push_bit 8 (of_nat (unat b * 65536 + 256))"
    by (simp add: q slice_def u32_from_be_def be_value_def push_bit_eq_mult)
  have "and (push_bit 8 w) (0xff :: u32) = 0" for w
    using take_bit_push_bit [of 8 8 w] by (simp add: take_bit_eq_mask mask_eq_decr_exp)
  then have "\<not> is_known_version (u32_from_be (slice 1 5 ?q))"
    using known_version_low unfolding v by blast
  then have "parse_long_header ?q = None" by (simp add: parse_long_header_def)
  moreover have "binding_request_len ?q = None"
    by (simp add: binding_request_len_def q slice_def STUN_MAGIC_COOKIE_def)
  moreover have "\<not> has_stun_cookie ?q"
    by (simp add: has_stun_cookie_def q stun_cookie_def STUN_MAGIC_COOKIE_def u32_from_be_def be_value_def)
  ultimately show ?thesis
    using build_query_question [OF assms, of R qtype g] by (simp add: detect_def q)
qed

lemma detect_sip:
  "detect (sip_invite c) = Some ProbeSip" "detect (sip_cancel c) = Some ProbeSip"
proof -
  obtain rest where i: "sip_invite c = [73, 78, 86, 73, 84, 69, 32, 115, 105, 112] @ rest"
    by (simp add: sip_invite_def ascii_def)
  obtain rest' where k: "sip_cancel c = [67, 65, 78, 67, 69, 76, 32, 115, 105, 112] @ rest'"
    by (simp add: sip_cancel_def ascii_def)
  have "parse_long_header (sip_invite c) = None" "parse_long_header (sip_cancel c) = None"
    by (simp_all add: parse_long_header_def i k)
  moreover have "binding_request_len (sip_invite c) = None" "binding_request_len (sip_cancel c) = None"
    by (simp_all add: binding_request_len_def i k slice_def STUN_MAGIC_COOKIE_def)
  moreover have "question_end (sip_invite c) = None" "question_end (sip_cancel c) = None"
    by (simp_all add: question_end_def i k)
  ultimately show "detect (sip_invite c) = Some ProbeSip" "detect (sip_cancel c) = Some ProbeSip"
    by (simp_all add: detect_def i k SIP_PREFIXES_def ascii_def eq_ignore_ascii_case_def to_ascii_uppercase_def)
qed

lemma detect_stun:
  assumes "binding_request_len m = Some n"
  shows "detect m = Some ProbeStun"
proof -
  have l: "20 \<le> length m" and k: "u16_at m 0 = 1"
    using assms by (auto simp: binding_request_len_def STUN_HEADER_LEN_def BINDING_REQUEST_def split: if_splits)
  have "u16_to_be (u16_at m 0) = [m ! 0, m ! 1]"
    unfolding u16_at_def by (simp add: be16.enc_dec)
  then have "m ! 0 = 0" by (simp add: k u16_to_be_def be_bytes_def numeral_2_eq_2)
  then have "parse_long_header m = None" by (simp add: parse_long_header_def)
  then show ?thesis using assms l by (auto simp: detect_def)
qed

lemma detect_quic: "parse_long_header d = Some hdr \<Longrightarrow> detect d = Some ProbeQuic"
  by (auto simp: detect_def parse_long_header_def)

lemma imitation_host_valid:
  assumes "cfg_imitation c = imitation_new protocol domain browser"
  shows "protocol = ImDns \<or> protocol = ImSip \<Longrightarrow> is_valid_imitation_host (fst (imitation_host R c g))"
    "length (fst (imitation_host R c g)) \<le> 253"
proof -
  have r: "is_valid_imitation_host (fst (random_imitation_domain R g))"
    "length (fst (random_imitation_domain R g)) \<le> 253"
    using random_host_valid [of R g] labels_of_host(2) by blast+
  have "im_domain (cfg_imitation c) = Some h \<Longrightarrow> length h \<le> 253 \<and>
      (protocol = ImDns \<or> protocol = ImSip \<longrightarrow> is_valid_imitation_host h)" for h
    using labels_of_host(2) [of h]
    by (auto simp: assms imitation_new_def option_filter_def is_valid_quic_sni_def
        split: imitation_protocol.splits option.splits if_splits)
  then show "protocol = ImDns \<or> protocol = ImSip \<Longrightarrow> is_valid_imitation_host (fst (imitation_host R c g))"
    "length (fst (imitation_host R c g)) \<le> 253"
    using r by (auto simp: imitation_host_def split: option.splits)
qed

text \<open>The datagrams of a sequence, whatever their delays, once each is known to be detected.\<close>

lemma detected_burst:
  assumes "\<forall>d \<in> set ds. detect d = Some p" "ds \<noteq> []"
  shows "with_delays ms ds \<noteq> [] \<and>
    (\<forall>x \<in> set (with_delays ms ds). \<exists>q. detect (snd x) = Some q \<and> probe_protocol q = probe_protocol p)"
proof -
  have "detect (snd x) = Some p" if "x \<in> set (with_delays ms ds)" for x
    using assms(1) set_with_delays [of ms ds] that by auto
  moreover have "with_delays ms ds \<noteq> []" using assms(2) length_with_delays [of ms ds] by (metis length_0_conv)
  ultimately show ?thesis by fastforce
qed

lemma burst_detected:
  assumes "fills_exactly R" "quic_sizes (cv_quic V)" "\<And>k d. length (cv_hmac_sha1 V k d) = 20"
    "length (cv_software V) \<le> 127" "cfg_imitation c = imitation_new protocol domain browser"
  shows "\<exists>burst g'. pre_handshake_imitation_datagrams R V c g = Some (burst, g') \<and>
    (burst = [] \<longleftrightarrow> protocol \<in> {ImNone, ImAuto}) \<and>
    (\<forall>(delay, datagram) \<in> set burst. \<exists>p. detect datagram = Some p \<and> probe_protocol p = protocol)"
proof -
  note c = assms(5)
  have p: "im_protocol (cfg_imitation c) = protocol" by (simp add: c imitation_new_def)
  have "\<exists>burst g'. pre_handshake_imitation_datagrams R V c g = Some (burst, g') \<and> burst \<noteq> [] \<and>
    (\<forall>(delay, datagram) \<in> set burst. \<exists>q. detect datagram = Some q \<and> probe_protocol q = probe_protocol pr)"
    if "protocol = probe_protocol pr" for pr
  proof (cases pr)
    case ProbeDns
    then have v: "is_valid_imitation_host (fst (imitation_host R c g))"
      using imitation_host_valid(1) [OF c] that by simp
    show ?thesis
      unfolding pre_handshake_imitation_datagrams_def p that ProbeDns dns_generate_def
      by (simp add: case_prod_beta Let_def)
        (rule detected_burst [where p = ProbeDns, simplified], auto simp: detect_dns [OF v])
  next
    case ProbeSip
    show ?thesis
      unfolding pre_handshake_imitation_datagrams_def p that ProbeSip sip_generate_def
      by (simp add: case_prod_beta Let_def)
        (rule detected_burst [where p = ProbeSip, simplified], auto simp: detect_sip)
  next
    case ProbeStun
    obtain ds g' where ds: "stun_generate R (cv_hmac_sha1 V) (cv_software V) g = Some (ds, g')" "length ds = 2"
        "\<forall>m \<in> set ds. binding_request_len m = Some (length m - 20)"
      using stun_generate_requests [OF assms(1), of "cv_hmac_sha1 V", OF assms(3,4), of g] by blast
    then have "\<forall>d \<in> set ds. detect d = Some ProbeStun" "ds \<noteq> []" using detect_stun by auto
    then show ?thesis
      unfolding pre_handshake_imitation_datagrams_def p that ProbeStun
      using detected_burst [of ds ProbeStun "[0, 15]"] by (simp add: ds(1) case_prod_beta)
  next
    case ProbeQuic
    define h where "h = imitation_host R c g"
    have "length (fst h) \<le> 253" using imitation_host_valid(2) [OF c] by (simp add: h_def)
    then obtain ds g' where ds: "generate_client_initials R (cv_quic V) (to_quic (im_browser (cfg_imitation c)))
        (fst h) (snd h) = Some (ds, g')" "ds \<noteq> []" "\<forall>d \<in> set ds. \<exists>hdr. parse_long_header d = Some hdr"
      using generate_client_initials_ok [OF assms(1,2), of "fst h" "to_quic (im_browser (cfg_imitation c))" "snd h"]
      by metis
    then have "\<forall>d \<in> set ds. detect d = Some ProbeQuic" using detect_quic by blast
    then show ?thesis
      unfolding pre_handshake_imitation_datagrams_def p that ProbeQuic
      using detected_burst [of ds ProbeQuic "[]"] ds(1,2) by (simp add: h_def [symmetric] case_prod_beta)
  qed
  note configured = this
  show ?thesis
  proof (cases protocol)
    case ImNone then show ?thesis by (simp add: pre_handshake_imitation_datagrams_def p)
  next
    case ImAuto then show ?thesis by (simp add: pre_handshake_imitation_datagrams_def p)
  next
    case ImDns then show ?thesis using configured [of ProbeDns] by simp
  next
    case ImSip then show ?thesis using configured [of ProbeSip] by simp
  next
    case ImStun then show ?thesis using configured [of ProbeStun] by simp
  next
    case ImQuic then show ?thesis using configured [of ProbeQuic] by simp
  qed
qed

text \<open>
  C40. Whatever imitation an endpoint is configured for, with any domain and browser, and whatever is
  drawn, the sequence sent before a handshake is produced without a panic, and a receiver's detector
  classifies every datagram of it as exactly the configured protocol. So a responder in automatic mode
  can learn the protocol from any one datagram of the burst.
\<close>

theorem burst_is_detected:
  assumes "fills_exactly R" "quic_sizes (cv_quic V)" "\<And>k d. length (cv_hmac_sha1 V k d) = 20"
    "length (cv_software V) \<le> 127" "cfg_imitation c = imitation_new protocol domain browser"
  shows "\<exists>burst g'. pre_handshake_imitation_datagrams R V c g = Some (burst, g') \<and>
    (burst = [] \<longleftrightarrow> protocol \<in> {ImNone, ImAuto}) \<and>
    (\<forall>(delay, datagram) \<in> set burst. \<exists>p. detect datagram = Some p \<and> probe_protocol p = protocol)"
  by (rule burst_detected [OF assms])

definition sample_cover :: cover where
  "sample_cover = \<lparr> cv_hmac_sha1 = (\<lambda>key data. replicate 20 0), cv_quic = sample_quic,
     cv_software = ascii ''Chromium'' \<rparr>"

theorem burst_is_detected_witness:
  "fills_exactly zero_rng \<and> quic_sizes (cv_quic sample_cover) \<and>
   (\<exists>burst g'. pre_handshake_imitation_datagrams zero_rng sample_cover
       (with_protocol_imitation ImQuic (Some (ascii ''example.net'')) (config_new 0 0 0 0)) () = Some (burst, g') \<and>
     burst \<noteq> [] \<and> (\<forall>(delay, datagram) \<in> set burst. \<exists>p. detect datagram = Some p \<and> probe_protocol p = ImQuic))"
proof -
  let ?c = "with_protocol_imitation ImQuic (Some (ascii ''example.net'')) (config_new 0 0 0 0)"
  have q: "quic_sizes (cv_quic sample_cover)" using sample_quic_sizes by (simp add: sample_cover_def)
  have h: "length (cv_hmac_sha1 sample_cover k d) = 20" for k d by (simp add: sample_cover_def)
  have w: "length (cv_software sample_cover) \<le> 127" by (simp add: sample_cover_def)
  have c: "\<exists>b. cfg_imitation ?c = imitation_new ImQuic (Some (ascii ''example.net'')) b"
    by (auto simp: with_protocol_imitation_def)
  then obtain b where "cfg_imitation ?c = imitation_new ImQuic (Some (ascii ''example.net'')) b" by blast
  from burst_is_detected [OF zero_rng_fills q h w this, of "()"]
  show ?thesis using zero_rng_fills q by simp
qed

text \<open>
  Evidence of a protocol, once recorded for a source, stands for its whole lifetime: further
  datagrams of that source neither replace it nor prolong it, so what it names and when it expires
  are those of the first datagram, and it is no evidence for another source. Once a protocol is
  learned no datagram changes anything.
\<close>

lemma observe_records:
  assumes "hint_detect t0 first = Some h" "auto_hint t0 source a = None" "ai_learned a = None"
  shows "snd (auto_observe t0 source first a) = a\<lparr> ai_pending := Some (source, h) \<rparr>" "hint_received h = t0"
  using assms
  by (auto simp: auto_observe_def auto_hint_def option_filter_def hint_detect_def hint_new_def
      split: option.splits if_splits bind_splits)

lemma evidence_is_not_prolonged:
  assumes "ai_pending a = Some (source, h)"
  shows "auto_hint t source a = (if duration_since t (hint_received h) < HINT_LIFETIME then Some (hint_protocol h) else None)"
    "duration_since t (hint_received h) < HINT_LIFETIME \<Longrightarrow> snd (auto_observe t source later a) = a"
    "other \<noteq> source \<Longrightarrow> auto_hint t other a = None"
  using assms by (auto simp: auto_observe_def auto_hint_def option_filter_def hint_is_live_def split: option.splits)

lemma learned_is_final: "ai_learned a = Some p \<Longrightarrow> snd (auto_observe t source datagram a) = a"
  by (simp add: auto_observe_def split: option.splits)

end
