(* ===== verification/Inbound.thy ===== *)
theory Inbound
  imports Framing Detect
begin

text \<open>
  Receiving a datagram that could be more than one packet kind (\<open>noise/inbound.rs\<close>). The candidate
  readings of a datagram are tried in order; a reading is recovered from the untouched datagram,
  parsed strictly, gated when it is a handshake message, and handed to a trial. The first one the
  trial accepts wins; a reading that only earns a cookie or a load refusal is held back.

  A trial is an operation on the receiver's state \<open>'s\<close>, a parameter of \<open>receive\<close> as it is in the
  source. The locale \<open>inbound_trial\<close> states what the source asks of it, that a refusal leaves the
  state alone, and carries the facts of \<open>receive\<close> that rest on it.
\<close>

datatype 'a inbound =
    NotOurs
  | Accepted 'a
  | InCookie cookie_demand
  | Refused wg_error bool

text \<open>\<open>Refused e hint\<close> is a refusal with its error and its \<open>allows_imitation_hint\<close>.\<close>

record receive_state =
  rs_load :: load_decision
  rs_cookie :: "cookie_demand option"
  rs_under_load :: bool
  rs_refusal :: "wg_error option"
  rs_hint_allowed :: bool

definition receive_start :: receive_state where
  "receive_start = \<lparr> rs_load = load_decision_default, rs_cookie = None, rs_under_load = False,
     rs_refusal = None, rs_hint_allowed = True \<rparr>"

definition refuse :: "wg_error \<Rightarrow> receive_state \<Rightarrow> receive_state" where
  "refuse e a = a\<lparr> rs_hint_allowed := rs_hint_allowed a \<and> allows_imitation_hint e,
     rs_refusal := (case rs_refusal a of None \<Rightarrow> Some e | Some first \<Rightarrow> Some first) \<rparr>"

definition insert_cookie :: "cookie_demand \<Rightarrow> receive_state \<Rightarrow> receive_state" where
  "insert_cookie demand a =
     a\<lparr> rs_cookie := (case rs_cookie a of None \<Rightarrow> Some demand | Some first \<Rightarrow> Some first) \<rparr>"

fun handshake_sender :: "packet \<Rightarrow> u32 option" where
  "handshake_sender (PHandshakeInit p) = Some (hi_sender_idx p)"
| "handshake_sender (PHandshakeResponse p) = Some (hr_sender_idx p)"
| "handshake_sender (PPacketCookieReply p) = None"
| "handshake_sender (PPacketData p) = None"

definition gate_reading ::
  "crypto \<Rightarrow> amnezia_config \<Rightarrow> gate_clock \<Rightarrow> source option \<Rightarrow> bytes \<Rightarrow> packet \<Rightarrow> load_decision \<Rightarrow> rate_limiter
    \<Rightarrow> handshake_gate \<times> load_decision \<times> rate_limiter" where
  "gate_reading C c now src_addr message packet ld l =
     (case handshake_sender packet of
        Some sender_idx \<Rightarrow> gate_handshake C now src_addr message sender_idx (config_cookie_defense c) ld l
      | None \<Rightarrow> (GatePass, ld, l))"

definition receive_end :: "receive_state \<Rightarrow> 'a inbound" where
  "receive_end a =
     (case rs_cookie a of
        Some demand \<Rightarrow> InCookie demand
      | None \<Rightarrow>
          if rs_under_load a then Refused UnderLoad False
          else case rs_refusal a of
            Some e \<Rightarrow> Refused e (rs_hint_allowed a)
          | None \<Rightarrow> NotOurs)"

type_synonym ('s, 'a) trial = "packet \<Rightarrow> 's \<Rightarrow> (wg_error + 'a) \<times> 's"

fun receive_loop ::
  "crypto \<Rightarrow> stream_cipher \<Rightarrow> gate_clock \<Rightarrow> amnezia_config \<Rightarrow> obfuscation_ranges \<Rightarrow> source option \<Rightarrow> bytes
    \<Rightarrow> ('s, 'a) trial \<Rightarrow> inbound_candidate list \<Rightarrow> receive_state \<Rightarrow> rate_limiter \<Rightarrow> 's
    \<Rightarrow> 'a inbound \<times> rate_limiter \<times> 's" where
  "receive_loop C SC now c obf src_addr datagram trial [] a l s = (receive_end a, l, s)"
| "receive_loop C SC now c obf src_addr datagram trial (candidate # rest) a l s =
     (case candidate_message SC c datagram candidate of
        None \<Rightarrow> receive_loop C SC now c obf src_addr datagram trial rest (refuse InvalidPacket a) l s
      | Some message \<Rightarrow>
          (case parse_incoming_packet obf message of
             Inl e \<Rightarrow> receive_loop C SC now c obf src_addr datagram trial rest (refuse e a) l s
           | Inr packet \<Rightarrow>
               (case gate_reading C c now src_addr message packet (rs_load a) l of (gate, ld, l) \<Rightarrow>
                  let a = a\<lparr> rs_load := ld \<rparr> in
                  (case gate of
                     GateBadMac \<Rightarrow>
                       receive_loop C SC now c obf src_addr datagram trial rest (refuse InvalidMac a) l s
                   | GateUnderLoad \<Rightarrow>
                       receive_loop C SC now c obf src_addr datagram trial rest (a\<lparr> rs_under_load := True \<rparr>) l s
                   | GateCookieDemanded demand \<Rightarrow>
                       receive_loop C SC now c obf src_addr datagram trial rest (insert_cookie demand a) l s
                   | GatePass \<Rightarrow>
                       (case trial packet s of
                          (Inr accepted, s) \<Rightarrow> (Accepted accepted, l, s)
                        | (Inl e, s) \<Rightarrow>
                            receive_loop C SC now c obf src_addr datagram trial rest (refuse e a) l s)))))"

definition receive ::
  "crypto \<Rightarrow> stream_cipher \<Rightarrow> gate_clock \<Rightarrow> amnezia_config \<Rightarrow> obfuscation_ranges \<Rightarrow> source option
    \<Rightarrow> inbound_candidates \<Rightarrow> bytes \<Rightarrow> ('s, 'a) trial \<Rightarrow> rate_limiter \<Rightarrow> 's \<Rightarrow> 'a inbound \<times> rate_limiter \<times> 's" where
  "receive C SC now c obf src_addr candidates datagram trial l s =
     receive_loop C SC now c obf src_addr datagram trial (candidates_iter candidates) receive_start l s"

section \<open>The gate along a datagram\<close>

text \<open>The packet a candidate reads as, once recovered and parsed.\<close>

definition reading_of ::
  "stream_cipher \<Rightarrow> amnezia_config \<Rightarrow> obfuscation_ranges \<Rightarrow> bytes \<Rightarrow> inbound_candidate \<Rightarrow> (bytes \<times> packet) option" where
  "reading_of SC c obf datagram candidate =
     (case candidate_message SC c datagram candidate of
        None \<Rightarrow> None
      | Some message \<Rightarrow>
          (case parse_incoming_packet obf message of Inl e \<Rightarrow> None | Inr packet \<Rightarrow> Some (message, packet)))"

lemma receive_loop_unread:
  "reading_of SC c obf datagram cand = None \<Longrightarrow>
   \<exists>e. receive_loop C SC now c obf src datagram trial (cand # rest) a l s =
     receive_loop C SC now c obf src datagram trial rest (refuse e a) l s"
  by (auto simp: reading_of_def split: option.splits sum.splits)

lemma receive_loop_read:
  assumes "reading_of SC c obf datagram cand = Some (m, p)"
    and "gate_reading C c now src m p (rs_load a) l = (gate, ld, l')"
  shows "receive_loop C SC now c obf src datagram trial (cand # rest) a l s =
    (let a = a\<lparr> rs_load := ld \<rparr>; k = (\<lambda>a. receive_loop C SC now c obf src datagram trial rest a l') in
     case gate of
       GateBadMac \<Rightarrow> k (refuse InvalidMac a) s
     | GateUnderLoad \<Rightarrow> k (a\<lparr> rs_under_load := True \<rparr>) s
     | GateCookieDemanded demand \<Rightarrow> k (insert_cookie demand a) s
     | GatePass \<Rightarrow> (case trial p s of
          (Inr accepted, s) \<Rightarrow> (Accepted accepted, l', s)
        | (Inl e, s) \<Rightarrow> k (refuse e a) s))"
  using assms by (auto simp: reading_of_def Let_def split: option.splits sum.splits prod.splits handshake_gate.splits)

declare receive_loop.simps(2) [simp del]

text \<open>
  What the load decisions taken so far for a datagram have charged to the shared count, which was \<open>n\<close>
  when the datagram arrived: nothing before the first decision, nothing more than one afterwards.
\<close>

definition charged :: "load_decision \<Rightarrow> u64 \<Rightarrow> rate_limiter \<Rightarrow> bool" where
  "charged ld n l \<longleftrightarrow>
     (case ld_load ld of
        None \<Rightarrow> ld_proven ld = None \<and> rl_count l = n
      | Some u \<Rightarrow> rl_count l = (if u = LoadSourceShare \<and> ld_proven ld = None then n else n + 1))"

lemma gate_handshake_charged:
  assumes g: "gate_handshake C now src m idx defense ld l = (r, ld', l')" and c: "charged ld n l"
  shows "charged ld' n l'" "rl_mac1_key l' = rl_mac1_key l" "r \<noteq> GateBadMac \<Longrightarrow> mac1_valid C l m"
proof -
  obtain u l1 where u: "(case ld_load ld of Some u \<Rightarrow> (u, l) | None \<Rightarrow> is_under_load (gc_load now) src l) = (u, l1)"
    by fastforce
  have l1: "rl_mac1_key l1 = rl_mac1_key l"
    "charged (ld\<lparr> ld_load := Some u \<rparr>) n l1"
    using u c is_under_load_frame [of "gc_load now" src l]
    by (auto simp: charged_def split: option.splits)
  have p: "rl_mac1_key l2 = rl_mac1_key l1 \<and> charged (ld\<lparr> ld_load := Some u, ld_proven := Some ok \<rparr>) n l2"
    if "(case ld_proven ld of Some b \<Rightarrow> (b, l1) | None \<Rightarrow> admit_proven (gc_proven now) u s l1) = (ok, l2)" for ok l2 s
    using that l1 admit_proven_frame [of "gc_proven now" u s l1]
    by (auto simp: charged_def split: option.splits if_splits)
  show "charged ld' n l'" "rl_mac1_key l' = rl_mac1_key l"
    using g c l1 p
    by (auto simp: gate_handshake_def Let_def u split: if_splits option.splits prod.splits)
  show "r \<noteq> GateBadMac \<Longrightarrow> mac1_valid C l m"
    using g by (auto simp: gate_handshake_def Let_def mac1_valid_def constant_time_eq_def split: if_splits)
qed

lemma gate_reading_charged:
  assumes "gate_reading C c now src m p ld l = (r, ld', l')" "charged ld n l"
  shows "charged ld' n l'" "rl_mac1_key l' = rl_mac1_key l"
    "r \<noteq> GateBadMac \<Longrightarrow> handshake_sender p \<noteq> None \<Longrightarrow> mac1_valid C l m"
    "handshake_sender p = None \<Longrightarrow> r = GatePass"
  using assms gate_handshake_charged
  by (auto simp: gate_reading_def split: option.splits intro: gate_handshake_charged)

lemma charged_start: "charged load_decision_default (rl_count l) l"
  by (simp add: charged_def load_decision_default_def)

lemma charged_count: "charged ld n l \<Longrightarrow> rl_count l = n \<or> rl_count l = n + 1"
  by (auto simp: charged_def split: option.splits if_splits)

lemma rs_load_simps [simp]:
  "rs_load (refuse e a) = rs_load a" "rs_load (insert_cookie d a) = rs_load a" "rs_load receive_start = load_decision_default"
  by (simp_all add: refuse_def insert_cookie_def receive_start_def)

section \<open>What a receive decides\<close>

lemma receive_end_not_accepted [simp]: "receive_end a \<noteq> Accepted x"
  by (simp add: receive_end_def split: option.splits)

text \<open>
  One candidate either wins, or is passed over for the rest with the receiver's state as the trial
  left it.
\<close>

lemma receive_loop_cases:
  assumes "charged (rs_load a) n l"
  obtains
    (won) m p x s' ld l' where "reading_of SC c obf datagram cand = Some (m, p)" "trial p s = (Inr x, s')"
      "handshake_sender p \<noteq> None \<Longrightarrow> mac1_valid C l m" "charged ld n l'"
      "receive_loop C SC now c obf src datagram trial (cand # rest) a l s = (Accepted x, l', s')"
  | (passed) a' l' s' where "charged (rs_load a') n l'" "rl_mac1_key l' = rl_mac1_key l"
      "s' = s \<or> (\<exists>p e. trial p s = (Inl e, s'))"
      "\<And>m p y s2. reading_of SC c obf datagram cand = Some (m, p) \<Longrightarrow> handshake_sender p = None \<Longrightarrow>
         trial p s \<noteq> (Inr y, s2)"
      "rs_cookie a' \<noteq> None \<or> rs_under_load a' \<or> rs_refusal a' \<noteq> None"
      "receive_loop C SC now c obf src datagram trial (cand # rest) a l s =
        receive_loop C SC now c obf src datagram trial rest a' l' s'"
proof (cases "reading_of SC c obf datagram cand")
  case None
  then obtain e where e: "receive_loop C SC now c obf src datagram trial (cand # rest) a l s =
      receive_loop C SC now c obf src datagram trial rest (refuse e a) l s"
    using receive_loop_unread [OF None, of C now src trial rest a l s] by auto
  show thesis
    by (rule passed [of "refuse e a" l s]) (use assms None e in \<open>auto simp: refuse_def split: option.splits\<close>)
next
  case (Some mp)
  obtain m p where mp: "mp = (m, p)" by fastforce
  obtain gate ld l' where g: "gate_reading C c now src m p (rs_load a) l = (gate, ld, l')" by (metis surj_pair)
  note ch = gate_reading_charged [OF g assms]
  note run = receive_loop_read [OF Some [unfolded mp] g, of trial rest s]
  show thesis
  proof (cases gate)
    case GatePass
    show thesis
    proof (cases "trial p s")
      case (Pair r s')
      show thesis
      proof (cases r)
        case (Inr x)
        show thesis
          by (rule won [of m p x s' ld l']) (use Some mp Pair Inr GatePass ch run in \<open>auto simp: Let_def\<close>)
      next
        case (Inl e)
        show thesis
          by (rule passed [of "refuse e (a\<lparr>rs_load := ld\<rparr>)" l' s'])
            (use Some mp Pair Inl GatePass ch run in \<open>auto simp: Let_def refuse_def split: option.splits\<close>)
      qed
    qed
  next
    case GateBadMac
    show thesis
      by (rule passed [of "refuse InvalidMac (a\<lparr>rs_load := ld\<rparr>)" l' s])
        (use Some mp GateBadMac ch run in \<open>auto simp: Let_def refuse_def split: option.splits\<close>)
  next
    case GateUnderLoad
    show thesis
      by (rule passed [of "a\<lparr>rs_load := ld, rs_under_load := True\<rparr>" l' s])
        (use Some mp GateUnderLoad ch run in \<open>auto simp: Let_def\<close>)
  next
    case (GateCookieDemanded d)
    show thesis
      by (rule passed [of "insert_cookie d (a\<lparr>rs_load := ld\<rparr>)" l' s])
        (use Some mp GateCookieDemanded ch run in \<open>auto simp: Let_def insert_cookie_def split: option.splits\<close>)
  qed
qed

text \<open>No reading of these candidates that needs no gate is one the trial accepts.\<close>

definition refused_all ::
  "stream_cipher \<Rightarrow> amnezia_config \<Rightarrow> obfuscation_ranges \<Rightarrow> bytes \<Rightarrow> ('s, 'a) trial \<Rightarrow> 's \<Rightarrow> inbound_candidate list \<Rightarrow> bool" where
  "refused_all SC c obf datagram trial s cands \<longleftrightarrow>
     (\<forall>cand \<in> set cands. \<forall>m p. reading_of SC c obf datagram cand = Some (m, p) \<and> handshake_sender p = None \<longrightarrow>
        \<not> is_ok (fst (trial p s)))"

text \<open>
  The contract of a trial, which \<open>Tunn::authenticate\<close> has because it borrows the tunnel immutably:
  a refusal leaves the receiver's state as it was.
\<close>

locale inbound_trial =
  fixes trial :: "packet \<Rightarrow> 's \<Rightarrow> (wg_error + 'a) \<times> 's"
  assumes refusal_transparent: "trial p s = (Inl e, s') \<Longrightarrow> s' = s"
begin

lemma refused_iff: "\<not> is_ok (fst (trial p s)) \<longleftrightarrow> (\<forall>y s'. trial p s \<noteq> (Inr y, s'))"
  by (cases "trial p s"; cases "fst (trial p s)") auto

lemma loop_decides:
  assumes "charged (rs_load a) n l"
    and "receive_loop C SC now c obf src datagram trial cands a l s = (out, l', s')"
  shows "(rl_count l' = n \<or> rl_count l' = n + 1) \<and>
    (case out of
       Accepted x \<Rightarrow> \<exists>pre cand post m p. cands = pre @ cand # post \<and>
         reading_of SC c obf datagram cand = Some (m, p) \<and> trial p s = (Inr x, s') \<and>
         (handshake_sender p \<noteq> None \<longrightarrow> mac1_valid C l m) \<and> refused_all SC c obf datagram trial s pre
     | _ \<Rightarrow> s' = s \<and> refused_all SC c obf datagram trial s cands)"
  using assms
proof (induction cands arbitrary: a l)
  case Nil
  then show ?case using charged_count [OF Nil(1)] by (auto simp: refused_all_def split: inbound.splits)
next
  case (Cons c0 cs)
  from Cons.prems(1) show ?case
  proof (cases rule: receive_loop_cases [where SC = SC and c = c and obf = obf and
        datagram = datagram and cand = c0 and trial = trial and s = s and C = C and now = now and src = src and rest = cs])
    case (won m p x s1 ld l1)
    then have "c0 # cs = [] @ c0 # cs" "out = Accepted x" "s1 = s'" "l1 = l'" using Cons.prems(2) by auto
    then show ?thesis using won charged_count [OF won(4)] by (fastforce simp: refused_all_def)
  next
    case (passed a' l1 s1)
    then have s1: "s1 = s" using refusal_transparent by blast
    have k: "mac1_valid C l1 = mac1_valid C l" using passed(2) by (auto simp: mac1_valid_def)
    have r: "refused_all SC c obf datagram trial s (c0 # ds) = refused_all SC c obf datagram trial s ds" for ds
      unfolding refused_all_def refused_iff using passed(4) by (simp only: list.set ball_simps) blast
    have "receive_loop C SC now c obf src datagram trial cs a' l1 s = (out, l', s')"
      using passed(6) Cons.prems(2) s1 by simp
    note IH = Cons.IH [OF passed(1) this, unfolded k]
    show ?thesis
    proof (cases out)
      case (Accepted x)
      with IH obtain pre cand post m p where "cs = pre @ cand # post" and
        rest: "reading_of SC c obf datagram cand = Some (m, p)" "trial p s = (Inr x, s')"
          "handshake_sender p \<noteq> None \<longrightarrow> mac1_valid C l m" "refused_all SC c obf datagram trial s pre"
        by auto
      then have "c0 # cs = (c0 # pre) @ cand # post" "refused_all SC c obf datagram trial s (c0 # pre)"
        using r by simp_all
      then show ?thesis using rest IH Accepted by (simp only: inbound.case) blast
    qed (use IH r in simp_all)
  qed
qed

lemma receive_decides:
  assumes "receive C SC now c obf src candidates datagram trial l s = (out, l', s')"
  shows "(rl_count l' = rl_count l \<or> rl_count l' = rl_count l + 1) \<and>
    (case out of
       Accepted x \<Rightarrow> \<exists>pre cand post m p. candidates_iter candidates = pre @ cand # post \<and>
         reading_of SC c obf datagram cand = Some (m, p) \<and> trial p s = (Inr x, s') \<and>
         (handshake_sender p \<noteq> None \<longrightarrow> mac1_valid C l m) \<and> refused_all SC c obf datagram trial s pre
     | _ \<Rightarrow> s' = s \<and> refused_all SC c obf datagram trial s (candidates_iter candidates))"
  using loop_decides [of receive_start "rl_count l" l, OF _ assms [unfolded receive_def]] charged_start by simp

end

text \<open>
  An empty list of candidates is the only way to the verdict that the datagram is not ours, since
  every candidate that does not win leaves a refusal, a load refusal or a cookie behind.
\<close>

lemma receive_loop_ours:
  assumes "charged (rs_load a) n l" "cands \<noteq> [] \<or> rs_cookie a \<noteq> None \<or> rs_under_load a \<or> rs_refusal a \<noteq> None"
  shows "fst (receive_loop C SC now c obf src datagram trial cands a l s) \<noteq> NotOurs"
  using assms
proof (induction cands arbitrary: a l s)
  case Nil
  then show ?case by (auto simp: receive_end_def split: option.splits)
next
  case (Cons c0 cs)
  from Cons.prems(1) show ?case
  proof (cases rule: receive_loop_cases [where SC = SC and c = c and obf = obf and
        datagram = datagram and cand = c0 and trial = trial and s = s and C = C and now = now and src = src and rest = cs])
    case won
    then show ?thesis by simp
  next
    case (passed a' l1 s1)
    then show ?thesis using Cons.IH [OF passed(1), of s1] by simp
  qed
qed

lemma receive_not_ours:
  "fst (receive C SC now c obf src candidates datagram trial l s) = NotOurs \<longleftrightarrow> candidates_iter candidates = []"
  using receive_loop_ours [of receive_start "rl_count l" l "candidates_iter candidates" C SC now c obf src datagram trial s]
    charged_start [of l]
  by (cases "candidates_iter candidates") (auto simp: receive_def receive_end_def receive_start_def)

end
