(* ===== verification/Op_Report.thy ===== *)
theory Op_Report
  imports Handshake
begin

text \<open>
  What one tunnel operation did (\<open>noise/op_report.rs\<close>): the vocabulary of kinds, events and state bits,
  and the bookkeeping \<open>OpState\<close> that the tunnel's operations write at the sites where things happen.
  The report itself reads the whole tunnel and is in \<open>Tunn_Report\<close>.

  Session serials are the identity of a stored session; that no two slots share one and that an empty
  slot has none is part of the invariant of a tunnel (\<open>Tunn_Frame\<close>).
\<close>

datatype op_packet_kind =
    OpNone | OpHandshakeInitiation | OpHandshakeResponse | OpCookieReply
  | OpTransportData | OpTransportKeepalive | OpJunk | OpImitation

fun op_packet_kind_value :: "op_packet_kind \<Rightarrow> u32" where
  "op_packet_kind_value OpNone = 0"
| "op_packet_kind_value OpHandshakeInitiation = 1"
| "op_packet_kind_value OpHandshakeResponse = 2"
| "op_packet_kind_value OpCookieReply = 3"
| "op_packet_kind_value OpTransportData = 4"
| "op_packet_kind_value OpTransportKeepalive = 5"
| "op_packet_kind_value OpJunk = 6"
| "op_packet_kind_value OpImitation = 7"

text \<open>What a received datagram was accepted as (\<open>AuthenticatedPacketKind\<close> of \<open>noise/mod.rs\<close>).\<close>

datatype authenticated_kind = AkInitiation | AkResponse | AkTransport | AkCookieReply

fun moves_endpoint :: "authenticated_kind \<Rightarrow> bool" where
  "moves_endpoint AkInitiation = True"
| "moves_endpoint AkResponse = True"
| "moves_endpoint AkTransport = True"
| "moves_endpoint AkCookieReply = False"

definition EV_INPUT_ACCEPTED :: u32 where "EV_INPUT_ACCEPTED = 0x00000001"
definition EV_PEER_AUTHENTICATED :: u32 where "EV_PEER_AUTHENTICATED = 0x00000002"
definition EV_SESSION_STORED :: u32 where "EV_SESSION_STORED = 0x00000004"
definition EV_CURRENT_SESSION_CHANGED :: u32 where "EV_CURRENT_SESSION_CHANGED = 0x00000008"
definition EV_INITIATION_PRODUCED :: u32 where "EV_INITIATION_PRODUCED = 0x00000010"
definition EV_QUEUE_ADMITTED :: u32 where "EV_QUEUE_ADMITTED = 0x00000020"
definition EV_HANDSHAKE_EXPIRED :: u32 where "EV_HANDSHAKE_EXPIRED = 0x00000040"
definition EV_SESSIONS_AGED_OUT :: u32 where "EV_SESSIONS_AGED_OUT = 0x00000080"
definition EV_BURST_PREPARED :: u32 where "EV_BURST_PREPARED = 0x00000100"
definition EV_TICK_DEMAND_REFUSED :: u32 where "EV_TICK_DEMAND_REFUSED = 0x00000200"
definition EV_QUEUE_HEAD_DROPPED :: u32 where "EV_QUEUE_HEAD_DROPPED = 0x00010000"

definition ST_SESSION_CURRENT :: u32 where "ST_SESSION_CURRENT = 0x00000001"
definition ST_INITIATION_PENDING :: u32 where "ST_INITIATION_PENDING = 0x00000002"
definition ST_HANDSHAKE_EXPIRED :: u32 where "ST_HANDSHAKE_EXPIRED = 0x00000004"
definition ST_QUEUE_NONEMPTY :: u32 where "ST_QUEUE_NONEMPTY = 0x00000008"
definition ST_BURST_PENDING :: u32 where "ST_BURST_PENDING = 0x00000010"
definition ST_COOKIE_HELD :: u32 where "ST_COOKIE_HELD = 0x00000020"

definition BURST_DUE_NONE :: nat where "BURST_DUE_NONE = 2 ^ 32 - 1"
definition BURST_DUE_MAX :: nat where "BURST_DUE_MAX = 2 ^ 32 - 1 - 1"

record op_state =
  os_op_seq :: u64
  os_slot_serial :: "u64 list"
  os_next_session_serial :: u64
  os_events :: u32
  os_input_kind :: op_packet_kind
  os_output_kind :: op_packet_kind
  os_receive_input :: "authenticated_kind option"

definition op_state_default :: op_state where
  "op_state_default = \<lparr> os_op_seq = 0, os_slot_serial = replicate N_SESSIONS 0, os_next_session_serial = 1,
     os_events = 0, os_input_kind = OpNone, os_output_kind = OpNone, os_receive_input = None \<rparr>"

definition os_note :: "u32 \<Rightarrow> op_state \<Rightarrow> op_state" where
  "os_note events m = m\<lparr> os_events := os_events m OR events \<rparr>"

definition note_input :: "op_packet_kind \<Rightarrow> authenticated_kind \<Rightarrow> op_state \<Rightarrow> op_state" where
  "note_input kind accepted m =
     (let m = m\<lparr> os_input_kind := kind, os_events := os_events m OR EV_INPUT_ACCEPTED \<rparr>;
          m = (if moves_endpoint accepted then os_note EV_PEER_AUTHENTICATED m else m)
      in m\<lparr> os_receive_input := Some accepted \<rparr>)"

definition begin_receive :: "op_state \<Rightarrow> op_state" where
  "begin_receive m = m\<lparr> os_receive_input := None \<rparr>"

definition take_receive_input :: "op_state \<Rightarrow> authenticated_kind option \<times> op_state" where
  "take_receive_input m = (os_receive_input m, m\<lparr> os_receive_input := None \<rparr>)"

text \<open>\<open>produced\<close> says whether the result is network output.\<close>

definition os_note_output :: "op_packet_kind \<Rightarrow> bool \<Rightarrow> op_state \<Rightarrow> op_state" where
  "os_note_output kind produced m = (if produced then m\<lparr> os_output_kind := kind \<rparr> else m)"

definition session_stored :: "nat \<Rightarrow> op_state \<Rightarrow> op_state option" where
  "session_stored slot m =
     (if slot < length (os_slot_serial m) then
        Some (os_note EV_SESSION_STORED
          (m\<lparr> os_slot_serial := (os_slot_serial m)[slot := os_next_session_serial m],
              os_next_session_serial := (if os_next_session_serial m = - 1 then - 1 else os_next_session_serial m + 1) \<rparr>))
      else None)"

definition session_removed :: "nat \<Rightarrow> op_state \<Rightarrow> op_state option" where
  "session_removed slot m =
     (if slot < length (os_slot_serial m) then Some (m\<lparr> os_slot_serial := (os_slot_serial m)[slot := 0] \<rparr>)
      else None)"

definition all_sessions_removed :: "op_state \<Rightarrow> op_state" where
  "all_sessions_removed m = m\<lparr> os_slot_serial := replicate N_SESSIONS 0 \<rparr>"

end
