(* ===== verification/Timers.thy ===== *)
theory Timers
  imports Amnezia_Config
begin

text \<open>
  The timers of a tunnel (\<open>noise/timers.rs\<close>): the record \<open>Timers\<close> and its own methods. The polls
  that drive a tunnel from them are in \<open>Tunn\<close>. A reading of the clock is an argument; the generator
  of the jitter is a state of its own, drawn from with a generator of its own.

  The lemmas characterise the normalisation of a persistent-keepalive range and bound every
  deadline that is drawn.
\<close>

definition COOKIE_EXPIRATION_TIME :: duration where "COOKIE_EXPIRATION_TIME = from_secs 120"
definition REKEY_TIMEOUT_JITTER_MAX_MS :: u32 where "REKEY_TIMEOUT_JITTER_MAX_MS = 334"

datatype timer_name =
    TimeCurrent
  | TimeSessionEstablished
  | TimeLastHandshakeStarted
  | TimeLastPacketReceived
  | TimeLastPacketSent
  | TimeLastDataPacketReceived
  | TimeLastDataPacketSent
  | TimeCookieReceived
  | TimePersistentKeepalive

definition untuned_attempt_window :: duration where
  "untuned_attempt_window =
     (let intervals = as_secs REKEY_ATTEMPT_TIME div as_secs REKEY_TIMEOUT
      in REKEY_ATTEMPT_TIME + from_millis (unat REKEY_TIMEOUT_JITTER_MAX_MS) * intervals)"

record 'g timers =
  tm_is_initiator :: bool
  tm_time_started :: instant
  tm_timers :: "timer_name \<Rightarrow> duration"
  tm_session_timers :: "duration list"
  tm_want_keepalive :: "duration option"
  tm_want_handshake :: "duration option"
  tm_persistent_keepalive :: "u16 \<times> u16"
  tm_persistent_keepalive_current :: duration
  tm_persistent_keepalive_due :: bool
  tm_jitter_rng :: 'g
  tm_should_reset_rr :: bool
  tm_retransmit_current :: duration
  tm_handshake_attempts :: nat
  tm_max_retransmissions_current :: nat
  tm_keepalive_current :: duration
  tm_new_handshake_current :: duration
  tm_rekey_after_current :: duration
  tm_refresh_receive_current :: duration

text \<open>\<open>now\<close> is the clock at construction and \<open>seed\<close> the seeded state of the jitter generator.\<close>

definition timers_new :: "instant \<Rightarrow> 'g \<Rightarrow> u16 option \<Rightarrow> bool \<Rightarrow> 'g timers" where
  "timers_new now seed persistent_keepalive reset_rr =
     (let interval = (case persistent_keepalive of Some k \<Rightarrow> k | None \<Rightarrow> 0) in \<lparr>
        tm_is_initiator = False,
        tm_time_started = now,
        tm_timers = (\<lambda>_. 0),
        tm_session_timers = replicate N_SESSIONS 0,
        tm_want_keepalive = None,
        tm_want_handshake = None,
        tm_persistent_keepalive = (interval, interval),
        tm_persistent_keepalive_current = from_secs (unat interval),
        tm_persistent_keepalive_due = (interval > 0),
        tm_jitter_rng = seed,
        tm_should_reset_rr = reset_rr,
        tm_retransmit_current = REKEY_TIMEOUT,
        tm_handshake_attempts = 0,
        tm_max_retransmissions_current = as_secs REKEY_ATTEMPT_TIME div as_secs REKEY_TIMEOUT - 1,
        tm_keepalive_current = KEEPALIVE_TIMEOUT,
        tm_new_handshake_current = KEEPALIVE_TIMEOUT + REKEY_TIMEOUT,
        tm_rekey_after_current = REKEY_AFTER_TIME,
        tm_refresh_receive_current = REJECT_AFTER_TIME - KEEPALIVE_TIMEOUT - REKEY_TIMEOUT \<rparr>)"

definition set_timer :: "timer_name \<Rightarrow> duration \<Rightarrow> 'g timers \<Rightarrow> 'g timers" where
  "set_timer n d t = t\<lparr> tm_timers := (tm_timers t)(n := d) \<rparr>"

text \<open>Never earlier than the last poll.\<close>

definition monotonic_now :: "instant \<Rightarrow> 'g timers \<Rightarrow> duration" where
  "monotonic_now time t = max (duration_since time (tm_time_started t)) (tm_timers t TimeCurrent)"

definition timers_clear :: "instant \<Rightarrow> 'g timers \<Rightarrow> 'g timers" where
  "timers_clear time t =
     (let now = max (duration_since time (tm_time_started t)) (tm_timers t TimeCurrent)
      in t\<lparr> tm_timers := (\<lambda>_. now), tm_want_handshake := None, tm_want_keepalive := None \<rparr>)"

definition rearm_persistent_keepalive :: "'g rng \<Rightarrow> 'g timers \<Rightarrow> 'g timers" where
  "rearm_persistent_keepalive J t =
     (let (lo, hi) = tm_persistent_keepalive t in
      if lo = hi then t\<lparr> tm_persistent_keepalive_current := from_secs (unat lo) \<rparr>
      else
        let (secs, j) = random_usize_inclusive J (unat lo) (unat hi) (tm_jitter_rng t)
        in t\<lparr> tm_jitter_rng := j, tm_persistent_keepalive_current := from_secs secs \<rparr>)"

definition persistent_keepalive_on :: "'g timers \<Rightarrow> bool" where
  "persistent_keepalive_on t \<longleftrightarrow> snd (tm_persistent_keepalive t) > 0"

definition jitter :: "'g rng \<Rightarrow> 'g timers \<Rightarrow> duration \<times> 'g timers" where
  "jitter J t =
     (let (w, j) = next_u32 J (tm_jitter_rng t);
          ms = w mod REKEY_TIMEOUT_JITTER_MAX_MS
      in (from_millis (unat ms), t\<lparr> tm_jitter_rng := j \<rparr>))"

definition cap_u16 :: "u32 \<Rightarrow> u16" where
  "cap_u16 v = ucast (min v 0xffff)"

definition normalize_persistent_keepalive_range :: "u32 \<Rightarrow> u32 \<Rightarrow> (u16 \<times> u16) option" where
  "normalize_persistent_keepalive_range low high =
     (if low > high then None
      else
        let (lo, hi) = (cap_u16 low, cap_u16 high) in
        if low = high then Some (lo, lo) else Some (max lo 1, hi))"

definition timers_set_persistent_keepalive_range :: "'g rng \<Rightarrow> u16 \<times> u16 \<Rightarrow> 'g timers \<Rightarrow> 'g timers" where
  "timers_set_persistent_keepalive_range J range0 t =
     (if range0 = tm_persistent_keepalive t then t
      else
        let was_on = persistent_keepalive_on t;
            t = t\<lparr> tm_persistent_keepalive := range0 \<rparr>;
            t = (if \<not> persistent_keepalive_on t then t\<lparr> tm_persistent_keepalive_due := False \<rparr>
                 else if \<not> was_on then t\<lparr> tm_persistent_keepalive_due := True \<rparr>
                 else t)
        in rearm_persistent_keepalive J t)"

definition timers_set_persistent_keepalive :: "'g rng \<Rightarrow> u16 option \<Rightarrow> 'g timers \<Rightarrow> 'g timers" where
  "timers_set_persistent_keepalive J seconds t =
     (let interval = (case seconds of Some k \<Rightarrow> k | None \<Rightarrow> 0)
      in timers_set_persistent_keepalive_range J (interval, interval) t)"

section \<open>Facts\<close>

lemma jitter_bound: "fst (jitter J t) < from_millis 334"
proof -
  have "unat (w mod REKEY_TIMEOUT_JITTER_MAX_MS) < 334" for w
    by (simp add: REKEY_TIMEOUT_JITTER_MAX_MS_def unat_mod)
  then show ?thesis by (simp add: jitter_def case_prod_beta from_millis_def)
qed

lemma unat_cap_u16: "unat (cap_u16 v) = min (unat v) 65535"
  by (simp add: cap_u16_def unat_ucast_down min_def word_le_nat_alt)

text \<open>
  A normalised range is ordered, is off exactly for the bare zero, and is the given one clamped to
  sixteen bits with a lower end of at least one second where the ends differ.
\<close>

lemma normalized_range:
  assumes "normalize_persistent_keepalive_range low high = Some (lo, hi)"
  shows "lo \<le> hi" "hi = 0 \<longleftrightarrow> low = 0 \<and> high = 0" "unat hi = min (unat high) 65535"
    "unat lo = (if low = high then min (unat low) 65535 else max 1 (min (unat low) 65535))"
proof -
  have le: "unat low \<le> unat high" using assms
    by (auto simp: normalize_persistent_keepalive_range_def word_le_nat_alt not_less split: if_splits)
  have hi: "hi = cap_u16 high" "lo = (if low = high then cap_u16 low else max (cap_u16 low) 1)"
    using assms by (auto simp: normalize_persistent_keepalive_range_def split: if_splits)
  show h: "unat hi = min (unat high) 65535" using hi by (simp add: unat_cap_u16)
  show l: "unat lo = (if low = high then min (unat low) 65535 else max 1 (min (unat low) 65535))"
    using hi(2) by (auto simp: max_def word_le_nat_alt unat_cap_u16)
  have "1 \<le> unat high" if "low \<noteq> high"
  proof -
    have "unat low < unat high" using that le by (metis nat_less_le unsigned_word_eqI)
    then show ?thesis by simp
  qed
  then show "lo \<le> hi" using h l le by (auto simp: word_le_nat_alt)
  have "hi = 0 \<longleftrightarrow> unat high = 0" using h unat_eq_zero [of hi] by (auto simp: min_def split: if_splits)
  then show "hi = 0 \<longleftrightarrow> low = 0 \<and> high = 0" using le by (auto simp: unat_eq_zero)
qed

end
