(* ===== verification/Tunn.thy ===== *)
theory Tunn
  imports Inbound Op_Report Timers
begin

text \<open>
  The tunnel (\<open>Tunn\<close> of \<open>noise/mod.rs\<close>, and its methods in \<open>noise/timers.rs\<close>): the handshake in
  progress, the ring of sessions, the queue of packets that wait for one, the timers, the AmneziaWG
  configuration with the burst in flight, the observed window and the operation metadata, with one
  definition per method.

  An operation takes the tunnel and returns its result with the tunnel after it; \<open>None\<close> is a panic
  (an assertion, an index out of range, an underflow of a duration). What the tunnel takes from
  outside is a parameter: the primitives, generators and ciphers in \<open>world\<close>, and in \<open>call\<close> the clock
  and the fresh ephemeral secret of one call. All clock readings within one call are the one of
  \<open>call\<close>. A destination buffer is the bytes it holds on entry, and what a result borrows from it is
  the bytes themselves; the plaintext an authenticated frame leaves in the buffer is carried by the
  token instead. Log messages have no part in the model.
\<close>

section \<open>State\<close>

record 'g world =
  w_crypto :: crypto
  w_rng :: "'g rng"
  w_jitter :: "'g rng"
  w_cipher :: stream_cipher
  w_cover :: cover

record call =
  at_now :: instant
  at_eph :: bytes

definition PEER_HANDSHAKE_RATE_LIMIT :: u64 where "PEER_HANDSHAKE_RATE_LIMIT = 10"
definition MAX_QUEUE_DEPTH :: nat where "MAX_QUEUE_DEPTH = 256"

datatype tunn_result =
    TrDone
  | TrErr wg_error
  | TrWriteToNetwork bytes
  | TrWriteToTunnelV4 bytes bytes
  | TrWriteToTunnelV6 bytes bytes

definition is_err :: "tunn_result \<Rightarrow> bool" where
  "is_err r = (case r of TrErr _ \<Rightarrow> True | _ \<Rightarrow> False)"

definition is_network :: "tunn_result \<Rightarrow> bool" where
  "is_network r = (case r of TrWriteToNetwork _ \<Rightarrow> True | _ \<Rightarrow> False)"

definition is_capacity_refusal :: "tunn_result \<Rightarrow> bool" where
  "is_capacity_refusal r \<longleftrightarrow> r = TrErr DestinationBufferTooSmall \<or> r = TrErr OutputBudgetExceeded"

record pending_junk =
  pj_imitation_datagrams :: "(duration \<times> bytes) list"
  pj_remaining :: u16
  pj_last_packet_at :: "instant option"
  pj_reset_expired_timers :: bool

record 'g tunn =
  tn_handshake :: "'g handshake"
  tn_sessions :: "session option list"
  tn_current :: nat
  tn_packet_queue :: "bytes list"
  tn_timers :: "'g timers"
  tn_tx_bytes :: nat
  tn_rx_bytes :: nat
  tn_amnezia :: amnezia_config
  tn_auto_imitation :: auto_imitation
  tn_pending :: "pending_junk option"
  tn_rate_limiter :: rate_limiter
  tn_udp_window :: u32
  tn_meta :: op_state

datatype authenticated =
    AuthInit authenticated_init
  | AuthResponse authenticated_response
  | AuthCookie bytes
  | AuthData u32 bytes

fun authenticated_kind_of :: "authenticated \<Rightarrow> authenticated_kind" where
  "authenticated_kind_of (AuthInit _) = AkInitiation"
| "authenticated_kind_of (AuthResponse _) = AkResponse"
| "authenticated_kind_of (AuthCookie _) = AkCookieReply"
| "authenticated_kind_of (AuthData _ _) = AkTransport"

definition grown_window :: "u32 \<Rightarrow> nat \<Rightarrow> u32" where
  "grown_window window sz = max window (if sz < 2 ^ 32 then of_nat sz else - 1)"

text \<open>Fields of fields.\<close>

definition tn_rng :: "'g tunn \<Rightarrow> 'g" where
  "tn_rng t = hs_rng (tn_handshake t)"

definition set_rng :: "'g \<Rightarrow> 'g tunn \<Rightarrow> 'g tunn" where
  "set_rng g t = t\<lparr> tn_handshake := (tn_handshake t)\<lparr> hs_rng := g \<rparr> \<rparr>"

definition note_event :: "u32 \<Rightarrow> 'g tunn \<Rightarrow> 'g tunn" where
  "note_event e t = t\<lparr> tn_meta := os_note e (tn_meta t) \<rparr>"

definition note_output :: "op_packet_kind \<Rightarrow> tunn_result \<Rightarrow> 'g tunn \<Rightarrow> 'g tunn" where
  "note_output kind result t = t\<lparr> tn_meta := os_note_output kind (is_network result) (tn_meta t) \<rparr>"

definition selected_slot :: "'g tunn \<Rightarrow> nat" where
  "selected_slot t = tn_current t mod N_SESSIONS"

text \<open>\<open>dst[..n].copy_from_slice(packet)\<close>: the buffer with the packet at its start.\<close>

definition into_dst :: "bytes \<Rightarrow> bytes \<Rightarrow> bytes" where
  "into_dst packet dst = packet @ drop (length packet) dst"

section \<open>Timers of the tunnel\<close>

definition timer_tick :: "'g world \<Rightarrow> timer_name \<Rightarrow> 'g tunn \<Rightarrow> 'g tunn" where
  "timer_tick W name t =
     (let tm = tn_timers t;
          time = tm_timers tm TimeCurrent;
          t = (case name of
                 TimeLastPacketReceived \<Rightarrow>
                   t\<lparr> tn_timers := rearm_persistent_keepalive (w_jitter W)
                        (set_timer TimePersistentKeepalive time (tm\<lparr> tm_want_handshake := None \<rparr>)) \<rparr>
               | TimeLastPacketSent \<Rightarrow>
                   t\<lparr> tn_timers := (rearm_persistent_keepalive (w_jitter W)
                        (set_timer TimePersistentKeepalive time (tm\<lparr> tm_want_keepalive := None \<rparr>)))
                        \<lparr> tm_persistent_keepalive_due := False \<rparr> \<rparr>
               | TimeLastDataPacketReceived \<Rightarrow>
                   if tm_want_keepalive tm = None then
                     let (d, g) = keepalive (w_rng W) (cfg_timers (tn_amnezia t)) (tn_rng t)
                     in (set_rng g t)\<lparr> tn_timers := tm\<lparr> tm_keepalive_current := d, tm_want_keepalive := Some time \<rparr> \<rparr>
                   else t
               | TimeLastDataPacketSent \<Rightarrow>
                   if tm_want_handshake tm = None then
                     let (d, g) = new_handshake_timeout (w_rng W) (cfg_timers (tn_amnezia t)) (tn_rng t);
                         (j, tm) = jitter (w_jitter W) tm
                     in (set_rng g t)\<lparr> tn_timers := tm\<lparr> tm_new_handshake_current := d + j, tm_want_handshake := Some time \<rparr> \<rparr>
                   else t
               | _ \<Rightarrow> t)
      in t\<lparr> tn_timers := set_timer name time (tn_timers t) \<rparr>)"

definition timer_tick_session_established :: "'g world \<Rightarrow> bool \<Rightarrow> nat \<Rightarrow> 'g tunn \<Rightarrow> 'g tunn" where
  "timer_tick_session_established W is_initiator session_idx t =
     (let t = timer_tick W TimeSessionEstablished t;
          tm = tn_timers t;
          t = t\<lparr> tn_timers := tm\<lparr> tm_session_timers :=
                   (tm_session_timers tm)[session_idx mod N_SESSIONS := tm_timers tm TimeCurrent],
                   tm_is_initiator := is_initiator \<rparr>,
                 tn_pending := None \<rparr>;
          (rekey, g) = key_refresh_sending (w_rng W) (cfg_timers (tn_amnezia t)) (tn_rng t);
          (refresh, g) = key_refresh_receiving (w_rng W) (cfg_timers (tn_amnezia t)) g;
          t = set_rng g t
      in t\<lparr> tn_timers := (tn_timers t)\<lparr> tm_rekey_after_current := rekey, tm_refresh_receive_current := refresh \<rparr> \<rparr>)"

definition redraw_tunable_timers :: "'g world \<Rightarrow> 'g tunn \<Rightarrow> 'g tunn" where
  "redraw_tunable_timers W t =
     (let a = cfg_timers (tn_amnezia t); R = w_rng W;
          (retransmit, g) = retransmit_timeout R a (tn_rng t);
          (ka, g) = keepalive R a g;
          (nh, g) = new_handshake_timeout R a g;
          (j1, tm) = jitter (w_jitter W) (tn_timers t);
          (rekey, g) = key_refresh_sending R a g;
          (refresh, g) = key_refresh_receiving R a g;
          (limit, g) = max_retransmissions R a g;
          (j2, tm) = jitter (w_jitter W) tm;
          t = set_rng g t
      in t\<lparr> tn_timers := tm\<lparr> tm_retransmit_current := retransmit + j2,
              tm_max_retransmissions_current := limit, tm_keepalive_current := ka,
              tm_new_handshake_current := nh + j1, tm_rekey_after_current := rekey,
              tm_refresh_receive_current := refresh \<rparr> \<rparr>)"

definition clear_all :: "call \<Rightarrow> 'g tunn \<Rightarrow> 'g tunn" where
  "clear_all k t =
     t\<lparr> tn_sessions := replicate N_SESSIONS None,
        tn_meta := all_sessions_removed (tn_meta t),
        tn_packet_queue := [],
        tn_pending := None,
        tn_timers := timers_clear (at_now k) (tn_timers t) \<rparr>"

text \<open>One turn of the loop over the session timers, at slot \<open>i\<close>.\<close>

definition age_session :: "duration \<Rightarrow> duration \<Rightarrow> nat \<Rightarrow> 'g tunn \<Rightarrow> 'g tunn option" where
  "age_session expire_after time_now i t =
     (let tm = tn_timers t in
      if time_now - tm_session_timers tm ! i > expire_after then do {
        t \<leftarrow> (if tn_sessions t ! i \<noteq> None then do {
               m \<leftarrow> session_removed i (tn_meta t);
               Some (note_event EV_SESSIONS_AGED_OUT (t\<lparr> tn_sessions := (tn_sessions t)[i := None], tn_meta := m \<rparr>)) }
             else Some t);
        Some (t\<lparr> tn_timers := tm\<lparr> tm_session_timers := (tm_session_timers tm)[i := time_now] \<rparr> \<rparr>) }
      else Some t)"

fun age_sessions :: "duration \<Rightarrow> duration \<Rightarrow> nat list \<Rightarrow> 'g tunn \<Rightarrow> 'g tunn option" where
  "age_sessions expire_after time_now [] t = Some t"
| "age_sessions expire_after time_now (i # is) t = do {
     t \<leftarrow> age_session expire_after time_now i t;
     age_sessions expire_after time_now is t }"

definition update_session_timers :: "duration \<Rightarrow> 'g tunn \<Rightarrow> 'g tunn option" where
  "update_session_timers time_now t =
     age_sessions (keychain_expire (cfg_timers (tn_amnezia t))) time_now
       [0..<length (tm_session_timers (tn_timers t))] t"

section \<open>Framing and the queue\<close>

definition imitation_protocol_of :: "'g tunn \<Rightarrow> imitation_protocol" where
  "imitation_protocol_of t =
     (if im_protocol (cfg_imitation (tn_amnezia t)) = ImAuto
      then (case ai_learned (tn_auto_imitation t) of Some p \<Rightarrow> p | None \<Rightarrow> ImNone)
      else im_protocol (cfg_imitation (tn_amnezia t)))"

definition write_to_network_with_imitation ::
  "'g world \<Rightarrow> bytes \<Rightarrow> nat \<Rightarrow> trailer_room \<Rightarrow> imitation_protocol \<Rightarrow> 'g tunn \<Rightarrow> (tunn_result \<times> 'g tunn) option" where
  "write_to_network_with_imitation W dst packet_size room protocol t = do {
     (r, g) \<leftarrow> prepend_outbound_with_trailer (w_rng W) (w_cipher W) (resolve_imitation (tn_amnezia t) protocol)
       (hs_obf (tn_handshake t)) dst packet_size (Some room) (tn_rng t);
     Some (case r of Inr packet \<Rightarrow> TrWriteToNetwork packet | Inl e \<Rightarrow> TrErr e, set_rng g t) }"

definition write_to_network_with ::
  "'g world \<Rightarrow> bytes \<Rightarrow> nat \<Rightarrow> trailer_room \<Rightarrow> 'g tunn \<Rightarrow> (tunn_result \<times> 'g tunn) option" where
  "write_to_network_with W dst packet_size room t =
     write_to_network_with_imitation W dst packet_size room (imitation_protocol_of t) t"

definition write_to_network :: "'g world \<Rightarrow> bytes \<Rightarrow> nat \<Rightarrow> 'g tunn \<Rightarrow> (tunn_result \<times> 'g tunn) option" where
  "write_to_network W dst packet_size t =
     write_to_network_with W dst packet_size (trailer_room_window (tn_udp_window t)) t"

definition write_handshake_to_network ::
  "'g world \<Rightarrow> bytes \<Rightarrow> nat \<Rightarrow> nat \<Rightarrow> 'g tunn \<Rightarrow> (tunn_result \<times> 'g tunn) option" where
  "write_handshake_to_network W dst packet_size ceil t =
     write_to_network_with W dst packet_size (trailer_room_within ceil (trailer_room_window (tn_udp_window t))) t"

definition queue_has_room :: "'g tunn \<Rightarrow> bool" where
  "queue_has_room t \<longleftrightarrow> length (tn_packet_queue t) < MAX_QUEUE_DEPTH"

definition queue_packet :: "bytes \<Rightarrow> 'g tunn \<Rightarrow> (wg_error + unit) \<times> 'g tunn" where
  "queue_packet packet t =
     (if \<not> queue_has_room t then (Err PacketQueueFull, t)
      else (Ok (), note_event EV_QUEUE_ADMITTED (t\<lparr> tn_packet_queue := tn_packet_queue t @ [packet] \<rparr>)))"

definition requeue_packet :: "bytes \<Rightarrow> 'g tunn \<Rightarrow> 'g tunn" where
  "requeue_packet packet t = t\<lparr> tn_packet_queue := packet # tn_packet_queue t \<rparr>"

definition dequeue_packet :: "'g tunn \<Rightarrow> bytes option \<times> 'g tunn" where
  "dequeue_packet t =
     (case tn_packet_queue t of
        [] \<Rightarrow> (None, t)
      | p # ps \<Rightarrow> (Some p, t\<lparr> tn_packet_queue := ps \<rparr>))"

section \<open>Bursts and initiations\<close>

definition new_pre_handshake_burst ::
  "'g world \<Rightarrow> instant option \<Rightarrow> bool \<Rightarrow> 'g tunn \<Rightarrow> (pending_junk \<times> 'g tunn) option" where
  "new_pre_handshake_burst W last_packet_at reset_expired_timers t =
     (if \<not> emits_pre_handshake (tn_amnezia t) then
        Some (\<lparr> pj_imitation_datagrams = [], pj_remaining = 0, pj_last_packet_at = last_packet_at,
                pj_reset_expired_timers = reset_expired_timers \<rparr>, t)
      else do {
        (datagrams, g) \<leftarrow> pre_handshake_imitation_datagrams (w_rng W) (w_cover W) (tn_amnezia t) (tn_rng t);
        Some (\<lparr> pj_imitation_datagrams = datagrams,
                pj_remaining = packet_count (cfg_pre_handshake_junk (tn_amnezia t)),
                pj_last_packet_at = last_packet_at,
                pj_reset_expired_timers = reset_expired_timers \<rparr>, set_rng g t) })"

definition initiation_wire_floor :: "'g tunn \<Rightarrow> nat" where
  "initiation_wire_floor t = HANDSHAKE_INIT_SZ + handshake_init_junk_size (tn_amnezia t)"

definition burst_owes_expired_reset :: "'g tunn \<Rightarrow> bool" where
  "burst_owes_expired_reset t \<longleftrightarrow>
     hs_is_expired (tn_handshake t) \<and>
     (case tn_pending t of Some p \<Rightarrow> pj_reset_expired_timers p | None \<Rightarrow> False)"

definition reset_expired_timers_on_first_emit :: "call \<Rightarrow> 'g tunn \<Rightarrow> 'g tunn" where
  "reset_expired_timers_on_first_emit k t =
     (case tn_pending t of
        None \<Rightarrow> t
      | Some p \<Rightarrow>
          let t' = t\<lparr> tn_pending := Some (p\<lparr> pj_reset_expired_timers := False \<rparr>) \<rparr> in
          if pj_reset_expired_timers p \<and> hs_is_expired (tn_handshake t)
          then t'\<lparr> tn_timers := timers_clear (at_now k) (tn_timers t') \<rparr>
          else t')"

text \<open>The timers an initiation arms, once it is formatted.\<close>

definition arm_initiation :: "'g world \<Rightarrow> bool \<Rightarrow> 'g tunn \<Rightarrow> 'g tunn" where
  "arm_initiation W starting_new_handshake t =
     (let (retransmit, g) = retransmit_timeout (w_rng W) (cfg_timers (tn_amnezia t)) (tn_rng t);
          (j, tm) = jitter (w_jitter W) (tn_timers t);
          t = (set_rng g t)\<lparr> tn_timers := tm\<lparr> tm_retransmit_current := retransmit + j \<rparr> \<rparr>;
          t = (if starting_new_handshake then
                 let (limit, g) = max_retransmissions (w_rng W) (cfg_timers (tn_amnezia t)) (tn_rng t);
                     t = set_rng g t
                 in timer_tick W TimeLastHandshakeStarted
                      (t\<lparr> tn_timers := (tn_timers t)\<lparr> tm_handshake_attempts := 0,
                            tm_max_retransmissions_current := limit \<rparr> \<rparr>)
               else t\<lparr> tn_timers := (tn_timers t)\<lparr> tm_handshake_attempts :=
                        min (tm_handshake_attempts (tn_timers t) + 1) (2 ^ 32 - 1) \<rparr> \<rparr>)
      in timer_tick W TimeLastPacketSent t)"

definition format_handshake_initiation_now_with_budget ::
  "'g world \<Rightarrow> call \<Rightarrow> bytes \<Rightarrow> bool \<Rightarrow> bool \<Rightarrow> output_budget \<Rightarrow> 'g tunn \<Rightarrow> (tunn_result \<times> 'g tunn) option" where
  "format_handshake_initiation_now_with_budget W k dst force_resend reset_expired_timers budget t =
     (if is_in_progress (tn_handshake t) \<and> \<not> force_resend then Some (TrDone, t)
      else
        case admit (Some (initiation_wire_floor t)) (length dst) (control_for budget OtherControl) of
          Inl e \<Rightarrow> Some (TrErr e, t)
        | Inr ceil \<Rightarrow>
            let t = (if reset_expired_timers \<and> hs_is_expired (tn_handshake t)
                     then t\<lparr> tn_timers := timers_clear (at_now k) (tn_timers t) \<rparr> else t);
                starting_new_handshake = (\<not> is_in_progress (tn_handshake t));
                (r, h) = format_handshake_initiation (w_crypto W) (w_rng W) (at_eph k) (at_now k) (at_now k)
                  (length dst) (tn_handshake t);
                t = t\<lparr> tn_handshake := h \<rparr>
            in (case r of
                  Inl e \<Rightarrow> Some (TrErr e, t)
                | Inr packet \<Rightarrow> do {
                    let t = arm_initiation W starting_new_handshake t;
                    (result, t) \<leftarrow> write_handshake_to_network W (into_dst packet dst) (length packet) ceil t;
                    let t = (if is_network result then note_event EV_INITIATION_PRODUCED t else t);
                    Some (result, note_output OpHandshakeInitiation result t) }))"

definition burst_delay :: "'g tunn \<Rightarrow> pending_junk \<Rightarrow> duration" where
  "burst_delay t p =
     (case pj_imitation_datagrams p of
        (d, _) # _ \<Rightarrow> d
      | [] \<Rightarrow> junk_delay (cfg_pre_handshake_junk (tn_amnezia t)))"

definition advance_amnezia_junk ::
  "'g world \<Rightarrow> call \<Rightarrow> bytes \<Rightarrow> output_budget \<Rightarrow> 'g tunn \<Rightarrow> (tunn_result \<times> 'g tunn) option" where
  "advance_amnezia_junk W k dst budget t =
     (case tn_pending t of
        None \<Rightarrow> Some (TrDone, t)
      | Some pending \<Rightarrow>
          let delay_elapsed = (case pj_last_packet_at pending of
                 Some last0 \<Rightarrow> duration_since (at_now k) last0 \<ge> burst_delay t pending
               | None \<Rightarrow> True)
          in if \<not> delay_elapsed then Some (TrDone, t)
             else case pj_imitation_datagrams pending of
               (_, datagram) # rest \<Rightarrow>
                 (case admit (Some (length datagram)) (length dst) (control_for budget OtherControl) of
                    Inl e \<Rightarrow> Some (TrErr e, t)
                  | Inr _ \<Rightarrow>
                      let pending = pending\<lparr> pj_imitation_datagrams := rest,
                            pj_last_packet_at := (if rest = [] then None else Some (at_now k)) \<rparr>;
                          t = reset_expired_timers_on_first_emit k (t\<lparr> tn_pending := Some pending \<rparr>);
                          result = TrWriteToNetwork datagram
                      in Some (result, note_output OpImitation result t))
             | [] \<Rightarrow>
                 if pj_remaining pending = 0 then do {
                   (result, t) \<leftarrow> format_handshake_initiation_now_with_budget W k dst True
                     (pj_reset_expired_timers pending) budget t;
                   Some (result, if is_network result then t\<lparr> tn_pending := None \<rparr> else t) }
                 else
                   (case pre_handshake_junk_range_within (tn_amnezia t) budget of
                      Inl e \<Rightarrow> Some (TrErr e, t)
                    | Inr range0 \<Rightarrow>
                        if length dst < pre_handshake_junk_max_size_in (tn_amnezia t) range0
                        then Some (TrErr DestinationBufferTooSmall, t)
                        else do {
                          let t = reset_expired_timers_on_first_emit k t;
                          (r, g) \<leftarrow> fill_pre_handshake_junk_in (w_rng W) (tn_amnezia t) dst range0 (tn_rng t);
                          let t = set_rng g t;
                          (case r of
                             Inl e \<Rightarrow> Some (TrErr e, t)
                           | Inr packet \<Rightarrow>
                               let t = (case tn_pending t of
                                      Some p \<Rightarrow> t\<lparr> tn_pending := Some (p\<lparr> pj_remaining := pj_remaining p - 1,
                                                   pj_last_packet_at := Some (at_now k) \<rparr>) \<rparr>
                                    | None \<Rightarrow> t);
                                   result = TrWriteToNetwork packet
                               in Some (result, note_output OpJunk result t)) }))"

definition format_handshake_initiation_with_budget ::
  "'g world \<Rightarrow> call \<Rightarrow> bytes \<Rightarrow> bool \<Rightarrow> output_budget \<Rightarrow> 'g tunn \<Rightarrow> (tunn_result \<times> 'g tunn) option" where
  "format_handshake_initiation_with_budget W k dst force_resend budget t =
     (if tn_pending t \<noteq> None then advance_amnezia_junk W k dst budget t
      else if is_in_progress (tn_handshake t) \<and> \<not> force_resend then Some (TrDone, t)
      else
        let reset_expired_timers = hs_is_expired (tn_handshake t) in
        if emits_pre_handshake (tn_amnezia t) then do {
          (burst, t) \<leftarrow> new_pre_handshake_burst W None reset_expired_timers t;
          advance_amnezia_junk W k dst budget
            (note_event EV_BURST_PREPARED (t\<lparr> tn_pending := Some burst \<rparr>)) }
        else format_handshake_initiation_now_with_budget W k dst force_resend reset_expired_timers budget t)"

definition tunn_format_handshake_initiation ::
  "'g world \<Rightarrow> call \<Rightarrow> bytes \<Rightarrow> bool \<Rightarrow> 'g tunn \<Rightarrow> (tunn_result \<times> 'g tunn) option" where
  "tunn_format_handshake_initiation W k dst force_resend t =
     format_handshake_initiation_with_budget W k dst force_resend budget_UNBOUNDED t"

section \<open>Sending\<close>

definition has_current_session :: "'g tunn \<Rightarrow> bool" where
  "has_current_session t =
     (case tn_sessions t ! selected_slot t of Some s \<Rightarrow> \<not> sending_exhausted s | None \<Rightarrow> False)"

definition encapsulate_on_session ::
  "'g world \<Rightarrow> bytes \<Rightarrow> bytes \<Rightarrow> output_budget \<Rightarrow> 'g tunn \<Rightarrow> (tunn_result \<times> 'g tunn) option" where
  "encapsulate_on_session W src dst budget t =
     (let transport_junk = transport_junk_size (tn_amnezia t) in
      case tn_sessions t ! selected_slot t of
        None \<Rightarrow> Some (TrErr NoCurrentSession, t)
      | Some session \<Rightarrow>
          (case admit (transport_frame (length src) transport_junk) (length dst) (ob_transport budget) of
             Inl e \<Rightarrow> Some (TrErr e, t)
           | Inr ceil \<Rightarrow>
               let t = t\<lparr> tn_udp_window := grown_window (tn_udp_window t)
                            (transport_window_observation (tn_amnezia t) (length src)) \<rparr>;
                   (pad, g) = content_padding_for_frame (w_rng W) (tn_amnezia t) (length src) ceil transport_junk
                     (tn_udp_window t) (tn_rng t);
                   (r, session, g) = format_packet_data (w_crypto W) (w_rng W) (hs_obf (tn_handshake t)) g session
                     src pad (length dst);
                   t = (set_rng g t)\<lparr> tn_sessions := (tn_sessions t)[selected_slot t := Some session] \<rparr>
               in (case r of
                     Inl e \<Rightarrow> Some (TrErr e, t)
                   | Inr packet \<Rightarrow> do {
                       let t = timer_tick W TimeLastPacketSent t;
                       let t = (if src \<noteq> [] then timer_tick W TimeLastDataPacketSent t else t);
                       let t = t\<lparr> tn_tx_bytes := tn_tx_bytes t + length src \<rparr>;
                       (result, t) \<leftarrow> write_to_network W (into_dst packet dst) (length packet) t;
                       Some (result, note_output (if src = [] then OpTransportKeepalive else OpTransportData)
                                       result t) })))"

definition admit_without_session ::
  "'g world \<Rightarrow> call \<Rightarrow> bytes \<Rightarrow> bytes \<Rightarrow> output_budget \<Rightarrow> 'g tunn \<Rightarrow> (tunn_result \<times> 'g tunn) option" where
  "admit_without_session W k src dst budget t =
     (if \<not> queue_has_room t then Some (TrErr PacketQueueFull, t)
      else do {
        (result, t) \<leftarrow> format_handshake_initiation_with_budget W k dst False budget t;
        if is_err result then Some (result, t)
        else (case queue_packet src t of
                (Inl e, t) \<Rightarrow> Some (TrErr e, t)
              | (Inr _, t) \<Rightarrow> Some (result, t)) })"

definition encapsulate_with_budget ::
  "'g world \<Rightarrow> call \<Rightarrow> bytes \<Rightarrow> bytes \<Rightarrow> output_budget \<Rightarrow> 'g tunn \<Rightarrow> (tunn_result \<times> 'g tunn) option" where
  "encapsulate_with_budget W k src dst budget t =
     (if has_current_session t then encapsulate_on_session W src dst budget t
      else admit_without_session W k src dst budget t)"

definition encapsulate ::
  "'g world \<Rightarrow> call \<Rightarrow> bytes \<Rightarrow> bytes \<Rightarrow> 'g tunn \<Rightarrow> (tunn_result \<times> 'g tunn) option" where
  "encapsulate W k src dst t = encapsulate_with_budget W k src dst budget_UNBOUNDED t"

text \<open>
  The loop of \<open>send_queued_packet\<close>, with the number of head operations left. An error of the head's
  own formatting puts the head back.
\<close>

fun drain_queue ::
  "nat \<Rightarrow> 'g world \<Rightarrow> bytes \<Rightarrow> output_budget \<Rightarrow> 'g tunn \<Rightarrow> (tunn_result \<times> 'g tunn) option" where
  "drain_queue 0 W dst budget t = Some (TrDone, t)"
| "drain_queue (Suc n) W dst budget t =
     (case tn_packet_queue t of
        [] \<Rightarrow> Some (TrDone, t)
      | head0 # _ \<Rightarrow>
          if exceeds (transport_frame (length head0) (transport_junk_size (tn_amnezia t))) (ob_transport budget)
          then drain_queue n W dst budget (note_event EV_QUEUE_HEAD_DROPPED (snd (dequeue_packet t)))
          else do {
            (result, t) \<leftarrow> encapsulate_on_session W head0 dst budget (snd (dequeue_packet t));
            (case result of
               TrErr e \<Rightarrow>
                 Some (if e = DestinationBufferTooSmall \<or> e = OutputBudgetExceeded then TrErr e else TrDone,
                       requeue_packet head0 t)
             | r \<Rightarrow> Some (r, t)) })"

definition send_queued_packet ::
  "'g world \<Rightarrow> call \<Rightarrow> bytes \<Rightarrow> output_budget \<Rightarrow> 'g tunn \<Rightarrow> (tunn_result \<times> 'g tunn) option" where
  "send_queued_packet W k dst budget t =
     (if tn_packet_queue t = [] then Some (TrDone, t)
      else if \<not> has_current_session t then format_handshake_initiation_with_budget W k dst False budget t
      else drain_queue (length (tn_packet_queue t)) W dst budget t)"


section \<open>Receiving\<close>

definition gate_clock_of :: "call \<Rightarrow> gate_clock" where
  "gate_clock_of k = \<lparr> gc_load = at_now k, gc_cookie = at_now k, gc_proven = at_now k \<rparr>"

text \<open>
  The tunnel is returned with the one thing an accepted frame changes, the replay window of its
  session.
\<close>

definition authenticate_with_budget ::
  "'g world \<Rightarrow> call \<Rightarrow> nat \<Rightarrow> output_budget \<Rightarrow> packet \<Rightarrow> 'g tunn \<Rightarrow> (wg_error + authenticated) \<times> 'g tunn" where
  "authenticate_with_budget W k dst_len budget packet t =
     (case packet of
        PHandshakeInit p \<Rightarrow>
          (and_then (admit (Some (HANDSHAKE_RESP_SZ + handshake_response_junk_size (tn_amnezia t))) dst_len
                       (control_for budget OtherControl))
             (\<lambda>_. and_then (authenticate_initiation (w_crypto W) (tn_handshake t) p) (\<lambda>a. Ok (AuthInit a))), t)
      | PHandshakeResponse p \<Rightarrow>
          (and_then (admit (transport_frame 0 (transport_junk_size (tn_amnezia t))) dst_len (ob_transport budget))
             (\<lambda>_. and_then (authenticate_response (w_crypto W) (at_now k) (tn_handshake t) p)
                    (\<lambda>a. Ok (AuthResponse a))), t)
      | PPacketCookieReply p \<Rightarrow>
          (and_then (authenticate_cookie_reply (w_crypto W) (tn_handshake t) p) (\<lambda>a. Ok (AuthCookie a)), t)
      | PPacketData p \<Rightarrow>
          let r_idx = pd_receiver_idx p; slot = unat r_idx mod N_SESSIONS in
          (case tn_sessions t ! slot of
             None \<Rightarrow> (Err NoCurrentSession, t)
           | Some session \<Rightarrow>
               let (r, session) = receive_packet_data (w_crypto W) session p dst_len
               in (and_then r (\<lambda>plaintext. Ok (AuthData r_idx plaintext)),
                   t\<lparr> tn_sessions := (tn_sessions t)[slot := Some session] \<rparr>)))"

definition set_current_session :: "nat \<Rightarrow> 'g tunn \<Rightarrow> 'g tunn" where
  "set_current_session new_idx t =
     (let cur_idx = tn_current t; times = tm_session_timers (tn_timers t) in
      if cur_idx = new_idx then t
      else if tn_sessions t ! (cur_idx mod N_SESSIONS) = None \<or>
              times ! (new_idx mod N_SESSIONS) \<ge> times ! (cur_idx mod N_SESSIONS)
      then t\<lparr> tn_current := new_idx \<rparr>
      else t)"

definition validate_decapsulated_packet :: "'g world \<Rightarrow> bytes \<Rightarrow> 'g tunn \<Rightarrow> tunn_result \<times> 'g tunn" where
  "validate_decapsulated_packet W packet t =
     (case packet of
        [] \<Rightarrow> (TrDone, t)
      | first # _ \<Rightarrow>
          if first = 0 then (TrDone, t)
          else
            let parsed =
              (if drop_bit 4 first = 4 \<and> length packet \<ge> IPV4_MIN_HEADER_SIZE then
                 let computed_len = unat (u16_from_be (slice IPV4_LEN_OFF (IPV4_LEN_OFF + IP_LEN_SZ) packet));
                     addr = slice IPV4_SRC_IP_OFF (IPV4_SRC_IP_OFF + IPV4_IP_SZ) packet;
                     header_len = unat (first AND 0x0f) * 4
                 in if header_len < IPV4_MIN_HEADER_SIZE \<or> computed_len < header_len then None
                    else Some (computed_len, IpV4 addr)
               else if drop_bit 4 first = 6 \<and> length packet \<ge> IPV6_MIN_HEADER_SIZE then
                 Some (unat (u16_from_be (slice IPV6_LEN_OFF (IPV6_LEN_OFF + IP_LEN_SZ) packet)) + IPV6_MIN_HEADER_SIZE,
                       IpV6 (slice IPV6_SRC_IP_OFF (IPV6_SRC_IP_OFF + IPV6_IP_SZ) packet))
               else None)
            in (case parsed of
                  None \<Rightarrow> (TrErr InvalidPacket, t)
                | Some (computed_len, src_ip_address) \<Rightarrow>
                    if computed_len > length packet then (TrErr InvalidPacket, t)
                    else
                      let t = timer_tick W TimeLastDataPacketReceived t;
                          t = t\<lparr> tn_rx_bytes := tn_rx_bytes t + computed_len \<rparr>
                      in (case src_ip_address of
                            IpV4 addr \<Rightarrow> (TrWriteToTunnelV4 (take computed_len packet) addr, t)
                          | IpV6 addr \<Rightarrow> (TrWriteToTunnelV6 (take computed_len packet) addr, t))))"

definition commit_handshake_init ::
  "'g world \<Rightarrow> call \<Rightarrow> authenticated_init \<Rightarrow> bytes \<Rightarrow> output_budget \<Rightarrow> 'g tunn \<Rightarrow> (tunn_result \<times> 'g tunn) option" where
  "commit_handshake_init W k ini dst budget t =
     (let ceil = budget_ceiling (length dst) (control_for budget OtherControl) in do {
        (r, h) \<leftarrow> commit_initiation (w_crypto W) (w_rng W) (at_eph k) ini (length dst) (selected_slot t) (tn_handshake t);
        let t = t\<lparr> tn_handshake := h \<rparr>;
        (case r of
           Inl e \<Rightarrow> Some (TrErr e, t)
         | Inr (packet, session) \<Rightarrow>
             let index = session_local_index session; slot = index mod N_SESSIONS in do {
               m \<leftarrow> session_stored slot (tn_meta t);
               let t = t\<lparr> tn_sessions := (tn_sessions t)[slot := Some session], tn_meta := m \<rparr>;
               let t = timer_tick W TimeLastPacketReceived t;
               let t = timer_tick W TimeLastPacketSent t;
               let t = timer_tick_session_established W False index t;
               (result, t) \<leftarrow> write_handshake_to_network W (into_dst packet dst) (length packet) ceil t;
               Some (result, note_output OpHandshakeResponse result t) }) })"

definition commit_handshake_response ::
  "'g world \<Rightarrow> authenticated_response \<Rightarrow> bytes \<Rightarrow> output_budget \<Rightarrow> 'g tunn \<Rightarrow> (tunn_result \<times> 'g tunn) option" where
  "commit_handshake_response W response dst budget t =
     (let transport_junk = transport_junk_size (tn_amnezia t);
          (session, h) = commit_response response (tn_handshake t);
          t = t\<lparr> tn_handshake := h,
                 tn_udp_window := grown_window (tn_udp_window t) (transport_window_observation (tn_amnezia t) 0) \<rparr>;
          (pad, g) = content_padding_for_frame (w_rng W) (tn_amnezia t) 0
            (budget_ceiling (length dst) (ob_transport budget)) transport_junk (tn_udp_window t) (tn_rng t);
          (r, session, g) = format_packet_data (w_crypto W) (w_rng W) (hs_obf (tn_handshake t)) g session [] pad (length dst);
          t = set_rng g t
      in case r of
           Inl e \<Rightarrow> Some (TrErr e, t)
         | Inr packet \<Rightarrow>
             let l_idx = session_local_index session; index = l_idx mod N_SESSIONS in do {
               m \<leftarrow> session_stored index (tn_meta t);
               let t = t\<lparr> tn_sessions := (tn_sessions t)[index := Some session], tn_meta := m \<rparr>;
               let t = timer_tick W TimeLastPacketReceived t;
               let t = timer_tick_session_established W True index t;
               let t = set_current_session l_idx t;
               let t = timer_tick W TimeLastPacketSent t;
               (result, t) \<leftarrow> write_to_network W (into_dst packet dst) (length packet) t;
               Some (result, note_output OpTransportKeepalive result t) })"

definition commit_cookie_reply :: "'g world \<Rightarrow> bytes \<Rightarrow> 'g tunn \<Rightarrow> tunn_result \<times> 'g tunn" where
  "commit_cookie_reply W cookie t =
     (TrDone, timer_tick W TimeCookieReceived (t\<lparr> tn_handshake := commit_cookie cookie (tn_handshake t) \<rparr>))"

definition commit_data :: "'g world \<Rightarrow> u32 \<Rightarrow> bytes \<Rightarrow> 'g tunn \<Rightarrow> tunn_result \<times> 'g tunn" where
  "commit_data W receiver_idx plaintext t =
     (let t = set_current_session (unat receiver_idx) t;
          t = timer_tick W TimeLastPacketReceived t;
          t = t\<lparr> tn_udp_window := grown_window (tn_udp_window t)
                   (received_window_observation (tn_amnezia t) (length plaintext)) \<rparr>
      in validate_decapsulated_packet W plaintext t)"

definition input_kind_of :: "authenticated \<Rightarrow> op_packet_kind" where
  "input_kind_of packet =
     (case packet of
        AuthInit _ \<Rightarrow> OpHandshakeInitiation
      | AuthResponse _ \<Rightarrow> OpHandshakeResponse
      | AuthCookie _ \<Rightarrow> OpCookieReply
      | AuthData _ plaintext \<Rightarrow>
          (case plaintext of
             [] \<Rightarrow> OpTransportKeepalive
           | b # _ \<Rightarrow> if b = 0 then OpTransportKeepalive else OpTransportData))"

definition commit_with_budget ::
  "'g world \<Rightarrow> call \<Rightarrow> authenticated \<Rightarrow> bytes \<Rightarrow> output_budget \<Rightarrow> 'g tunn \<Rightarrow> (tunn_result \<times> 'g tunn) option" where
  "commit_with_budget W k packet dst budget t =
     (let t = t\<lparr> tn_meta := note_input (input_kind_of packet) (authenticated_kind_of packet) (tn_meta t) \<rparr> in
      case packet of
        AuthInit ini \<Rightarrow> commit_handshake_init W k ini dst budget t
      | AuthResponse response \<Rightarrow> commit_handshake_response W response dst budget t
      | AuthCookie cookie \<Rightarrow> Some (commit_cookie_reply W cookie t)
      | AuthData receiver_idx plaintext \<Rightarrow> Some (commit_data W receiver_idx plaintext t))"

definition is_auth_init :: "authenticated \<Rightarrow> bool" where
  "is_auth_init packet = (case packet of AuthInit _ \<Rightarrow> True | _ \<Rightarrow> False)"

text \<open>The protocol an authenticated initiation pins, from the evidence or the datagram itself.\<close>

definition learn_imitation :: "bytes \<Rightarrow> imitation_protocol option \<Rightarrow> 'g tunn \<Rightarrow> 'g tunn" where
  "learn_imitation datagram hint0 t =
     (case (case hint0 of Some p \<Rightarrow> Some p | None \<Rightarrow> map_option probe_protocol (detect datagram)) of
        None \<Rightarrow> t
      | Some protocol \<Rightarrow>
          let resolved = resolve_imitation (tn_amnezia t) protocol; a = tn_auto_imitation t in
          if im_protocol (cfg_imitation resolved) = protocol \<and> protocol \<noteq> ImNone \<and> protocol \<noteq> ImAuto
          then t\<lparr> tn_auto_imitation := a\<lparr> ai_learned := Some protocol \<rparr> \<rparr>
          else if \<not> ai_warned a then t\<lparr> tn_auto_imitation := a\<lparr> ai_warned := True \<rparr> \<rparr>
          else t)"

definition commit_with_imitation_and_budget ::
  "'g world \<Rightarrow> call \<Rightarrow> authenticated \<Rightarrow> bytes \<Rightarrow> imitation_protocol option \<Rightarrow> bytes \<Rightarrow> output_budget \<Rightarrow> 'g tunn
    \<Rightarrow> (tunn_result \<times> 'g tunn) option" where
  "commit_with_imitation_and_budget W k packet datagram hint0 dst budget t =
     (let previous = ai_learned (tn_auto_imitation t);
          auto_init = (im_protocol (cfg_imitation (tn_amnezia t)) = ImAuto \<and> is_auth_init packet)
      in if auto_init \<and> length dst < HANDSHAKE_RESP_SZ + unat (response_packet_junk_size (tn_amnezia t))
         then Some (TrErr DestinationBufferTooSmall, t)
         else do {
           let t = (if auto_init \<and> previous = None then learn_imitation datagram hint0 t else t);
           (result, t) \<leftarrow> commit_with_budget W k packet dst budget t;
           let a = tn_auto_imitation t;
           Some (result,
             if is_err result then t\<lparr> tn_auto_imitation := a\<lparr> ai_learned := previous \<rparr> \<rparr>
             else if previous \<noteq> ai_learned a then t\<lparr> tn_auto_imitation := clear_pending a \<rparr>
             else t) })"

definition tunn_authenticate ::
  "'g world \<Rightarrow> call \<Rightarrow> nat \<Rightarrow> packet \<Rightarrow> 'g tunn \<Rightarrow> (wg_error + authenticated) \<times> 'g tunn" where
  "tunn_authenticate W k dst_len packet t = authenticate_with_budget W k dst_len budget_UNBOUNDED packet t"

definition commit_with_imitation ::
  "'g world \<Rightarrow> call \<Rightarrow> authenticated \<Rightarrow> bytes \<Rightarrow> imitation_protocol option \<Rightarrow> bytes \<Rightarrow> 'g tunn
    \<Rightarrow> (tunn_result \<times> 'g tunn) option" where
  "commit_with_imitation W k packet datagram hint0 dst t =
     commit_with_imitation_and_budget W k packet datagram hint0 dst budget_UNBOUNDED t"

text \<open>The answer to a handshake message that is owed a cookie, with its two guards.\<close>

definition answer_cookie ::
  "'g world \<Rightarrow> call \<Rightarrow> ip_addr option \<Rightarrow> bytes \<Rightarrow> cookie_demand \<Rightarrow> bytes \<Rightarrow> 'g tunn \<Rightarrow> (tunn_result \<times> 'g tunn) option" where
  "answer_cookie W k src_addr datagram demand dst t =
     (let wire_len = length datagram;
          (r, g, l) = format_cookie_demand (w_crypto W) (w_rng W) (hs_obf (tn_handshake t)) (tn_rng t) demand
            COOKIE_REPLY_SZ (tn_rate_limiter t);
          t = (set_rng g t)\<lparr> tn_rate_limiter := l \<rparr>
      in case r of
           Inl e \<Rightarrow> Some (TrErr e, t)
         | Inr cookie \<Rightarrow>
             if cookie_reply_would_amplify (tn_amnezia t) (length cookie) wire_len then Some (TrDone, t)
             else if length dst < length cookie then Some (TrErr DestinationBufferTooSmall, t)
             else do {
               let protocol = (case ai_learned (tn_auto_imitation t) of
                     Some p \<Rightarrow> p
                   | None \<Rightarrow> (case auto_hint (at_now k) src_addr (tn_auto_imitation t) of
                       Some p \<Rightarrow> p
                     | None \<Rightarrow> (case detect datagram of Some p \<Rightarrow> probe_protocol p | None \<Rightarrow> ImNone)));
               (result, t) \<leftarrow> write_to_network_with_imitation W (into_dst cookie dst) (length cookie)
                 (trailer_room_cookie_reply wire_len) protocol t;
               let result = (case result of
                     TrWriteToNetwork reply \<Rightarrow> if reply_amplifies wire_len (length reply) then TrDone else result
                   | _ \<Rightarrow> result);
               Some (result, note_output OpCookieReply result t) })"

definition decapsulate_source ::
  "'g world \<Rightarrow> call \<Rightarrow> source option \<Rightarrow> bytes \<Rightarrow> bytes \<Rightarrow> output_budget \<Rightarrow> 'g tunn \<Rightarrow> (tunn_result \<times> 'g tunn) option" where
  "decapsulate_source W k src datagram dst budget t =
     (let src_addr = map_option source_address src in
      if datagram = [] then send_queued_packet W k dst budget t
      else
        let obf = hs_obf (tn_handshake t);
            candidates = inbound_candidates (w_cipher W) (tn_amnezia t) obf datagram;
            auto_mode = (im_protocol (cfg_imitation (tn_amnezia t)) = ImAuto);
            (observed, t) = (if candidates_iter candidates = [] \<and> auto_mode then
                let (seen, a) = auto_observe (at_now k) src_addr datagram (tn_auto_imitation t)
                in (seen, t\<lparr> tn_auto_imitation := a \<rparr>)
              else (False, t))
        in if observed then Some (TrDone, t)
           else
             let (outcome, l, t) = receive (w_crypto W) (w_cipher W) (gate_clock_of k) (tn_amnezia t) obf src
                   candidates datagram (authenticate_with_budget W k (length dst) budget) (tn_rate_limiter t) t;
                 t = t\<lparr> tn_rate_limiter := l \<rparr>
             in case outcome of
                  Accepted packet \<Rightarrow>
                    commit_with_imitation_and_budget W k packet datagram
                      (auto_hint (at_now k) src_addr (tn_auto_imitation t)) dst budget t
                | NotOurs \<Rightarrow> Some (TrErr InvalidPacket, t)
                | Refused e hint_allowed \<Rightarrow>
                    Some (TrErr e,
                      if auto_mode \<and> hint_allowed
                      then t\<lparr> tn_auto_imitation := snd (auto_observe (at_now k) src_addr datagram (tn_auto_imitation t)) \<rparr>
                      else t)
                | InCookie demand \<Rightarrow> answer_cookie W k src_addr datagram demand dst t)"

definition decapsulate ::
  "'g world \<Rightarrow> call \<Rightarrow> ip_addr option \<Rightarrow> bytes \<Rightarrow> bytes \<Rightarrow> 'g tunn \<Rightarrow> (tunn_result \<times> 'g tunn) option" where
  "decapsulate W k src_addr datagram dst t =
     decapsulate_source W k (map_option SrcAddress src_addr) datagram dst budget_UNBOUNDED t"

definition decapsulate_from ::
  "'g world \<Rightarrow> call \<Rightarrow> socket_addr option \<Rightarrow> bytes \<Rightarrow> bytes \<Rightarrow> 'g tunn \<Rightarrow> (tunn_result \<times> 'g tunn) option" where
  "decapsulate_from W k src datagram dst t =
     decapsulate_source W k (map_option SrcEndpoint src) datagram dst budget_UNBOUNDED t"

definition decapsulate_from_with_metadata ::
  "'g world \<Rightarrow> call \<Rightarrow> socket_addr option \<Rightarrow> bytes \<Rightarrow> bytes \<Rightarrow> 'g tunn
    \<Rightarrow> ((tunn_result \<times> authenticated_kind option) \<times> 'g tunn) option" where
  "decapsulate_from_with_metadata W k src datagram dst t =
     (if datagram = [] then Some ((TrDone, None), t)
      else do {
        (result, t) \<leftarrow> decapsulate_source W k (map_option SrcEndpoint src) datagram dst budget_UNBOUNDED
          (t\<lparr> tn_meta := begin_receive (tn_meta t) \<rparr>);
        let (kind, m) = take_receive_input (tn_meta t);
        Some ((result, kind), t\<lparr> tn_meta := m \<rparr>) })"

definition decapsulate_with_budget ::
  "'g world \<Rightarrow> call \<Rightarrow> bytes \<Rightarrow> bytes \<Rightarrow> output_budget \<Rightarrow> 'g tunn \<Rightarrow> (tunn_result \<times> 'g tunn) option" where
  "decapsulate_with_budget W k datagram dst budget t = decapsulate_source W k None datagram dst budget t"


section \<open>The periodic poll\<close>

text \<open>Subtraction of durations panics on underflow.\<close>

definition duration_minus :: "duration \<Rightarrow> duration \<Rightarrow> duration option" where
  "duration_minus a b = (if b \<le> a then Some (a - b) else None)"

definition expire_cycle :: "call \<Rightarrow> 'g tunn \<Rightarrow> 'g tunn" where
  "expire_cycle k t =
     note_event EV_HANDSHAKE_EXPIRED (clear_all k (t\<lparr> tn_handshake := set_expired (tn_handshake t) \<rparr>))"

definition expire_past_absolute_bounds :: "call \<Rightarrow> duration \<Rightarrow> 'g tunn \<Rightarrow> (bool \<times> 'g tunn) option" where
  "expire_past_absolute_bounds k now t =
     (let zero_key_after = keychain_expire (cfg_timers (tn_amnezia t)) * 3; at = tm_timers (tn_timers t) in do {
        age \<leftarrow> duration_minus now (at TimeSessionEstablished);
        if age \<ge> zero_key_after then Some (True, expire_cycle k t)
        else if hs_timer (tn_handshake t) = None then Some (False, t)
        else if max_handshake_attempts (cfg_timers (tn_amnezia t)) = (0, 0) \<and>
                rekey_timeout (cfg_timers (tn_amnezia t)) = (0, 0) \<and>
                now - at TimeLastHandshakeStarted \<ge> untuned_attempt_window
        then Some (True, expire_cycle k t)
        else Some (False, t) })"

text \<open>What selecting a keepalive spends, captured on entry to a poll.\<close>

type_synonym keepalive_rollback = "bool \<times> duration \<times> duration option \<times> duration"

definition keepalive_rollback_of :: "'g tunn \<Rightarrow> keepalive_rollback" where
  "keepalive_rollback_of t =
     (let tm = tn_timers t in
      (tm_persistent_keepalive_due tm, tm_timers tm TimePersistentKeepalive, tm_want_keepalive tm,
       tm_persistent_keepalive_current tm))"

definition send_keepalive ::
  "'g world \<Rightarrow> call \<Rightarrow> bytes \<Rightarrow> keepalive_rollback \<Rightarrow> output_budget \<Rightarrow> 'g tunn \<Rightarrow> (tunn_result \<times> 'g tunn) option" where
  "send_keepalive W k dst rollback budget t = do {
     (result, t) \<leftarrow> encapsulate_with_budget W k [] dst budget t;
     let t = (if is_capacity_refusal result then
                (case rollback of (due, persistent, passive, interval) \<Rightarrow>
                   t\<lparr> tn_timers := set_timer TimePersistentKeepalive persistent
                        ((tn_timers t)\<lparr> tm_persistent_keepalive_due := due, tm_want_keepalive := passive,
                           tm_persistent_keepalive_current := interval \<rparr>) \<rparr>)
              else t);
     Some (result, if is_err result then note_event EV_TICK_DEMAND_REFUSED t else t) }"

text \<open>
  The demand of a poll on a live cycle: an initiation (with the latch it spent), a keepalive, or
  nothing. \<open>Inl\<close> is the expiry of the cycle on its attempt count.
\<close>

datatype demand = NoDemand | WantInitiation "duration option" | WantKeepalive

definition rekey_demanded :: "duration \<Rightarrow> 'g tunn \<Rightarrow> bool option" where
  "rekey_demanded now t =
     (let tm = tn_timers t; established = tm_timers tm TimeSessionEstablished in
      if \<not> tm_is_initiator tm then Some False
      else do {
        on_send \<leftarrow> (if established < tm_timers tm TimeLastDataPacketSent
           then do { age \<leftarrow> duration_minus now established; Some (age \<ge> tm_rekey_after_current tm) }
           else Some False);
        on_receive \<leftarrow> (if established < tm_timers tm TimeLastDataPacketReceived
           then do { age \<leftarrow> duration_minus now established; Some (age \<ge> tm_refresh_receive_current tm) }
           else Some False);
        Some (on_send \<or> on_receive) })"

definition take_handshake_latch :: "duration \<Rightarrow> 'g tunn \<Rightarrow> duration option \<times> 'g tunn" where
  "take_handshake_latch now t =
     (let tm = tn_timers t in
      case tm_want_handshake tm of
        Some armed \<Rightarrow>
          if now - armed \<ge> tm_new_handshake_current tm
          then (Some armed, t\<lparr> tn_timers := tm\<lparr> tm_want_handshake := None \<rparr> \<rparr>)
          else (None, t)
      | None \<Rightarrow> (None, t))"

definition take_passive_keepalive :: "duration \<Rightarrow> 'g tunn \<Rightarrow> bool \<times> 'g tunn" where
  "take_passive_keepalive now t =
     (let tm = tn_timers t in
      case tm_want_keepalive tm of
        Some armed \<Rightarrow>
          if now - armed \<ge> tm_keepalive_current tm
          then (True, t\<lparr> tn_timers := tm\<lparr> tm_want_keepalive := None \<rparr> \<rparr>)
          else (False, t)
      | None \<Rightarrow> (False, t))"

definition take_persistent_keepalive :: "'g world \<Rightarrow> duration \<Rightarrow> 'g tunn \<Rightarrow> bool \<times> 'g tunn" where
  "take_persistent_keepalive W now t =
     (let tm = tn_timers t in
      if persistent_keepalive_on tm \<and>
         (tm_persistent_keepalive_due tm \<or>
          now - tm_timers tm TimePersistentKeepalive \<ge> tm_persistent_keepalive_current tm)
      then (True, timer_tick W TimePersistentKeepalive
                    (t\<lparr> tn_timers := tm\<lparr> tm_persistent_keepalive_due := False \<rparr> \<rparr>))
      else (False, t))"

definition select_demand ::
  "'g world \<Rightarrow> call \<Rightarrow> duration \<Rightarrow> 'g tunn \<Rightarrow> ((unit + demand) \<times> 'g tunn) option" where
  "select_demand W k now t =
     (case hs_timer (tn_handshake t) of
        Some time_init_sent \<Rightarrow>
          let tm = tn_timers t in
          if duration_since (at_now k) time_init_sent \<ge> tm_retransmit_current tm then
            if tm_handshake_attempts tm \<ge> tm_max_retransmissions_current tm
            then Some (Inl (), expire_cycle k t)
            else Some (Inr (WantInitiation None), t)
          else Some (Inr NoDemand, t)
      | None \<Rightarrow> do {
          rekey \<leftarrow> rekey_demanded now t;
          let (latch, t) = take_handshake_latch now t;
          (if rekey \<or> latch \<noteq> None then Some (Inr (WantInitiation latch), t)
           else
             let (passive, t) = take_passive_keepalive now t;
                 (persistent, t) = take_persistent_keepalive W now t
             in Some (Inr (if passive \<or> persistent then WantKeepalive else NoDemand), t)) })"

definition serve_initiation ::
  "'g world \<Rightarrow> call \<Rightarrow> bytes \<Rightarrow> duration option \<Rightarrow> output_budget \<Rightarrow> 'g tunn \<Rightarrow> (tunn_result \<times> 'g tunn) option" where
  "serve_initiation W k dst latch budget t = do {
     (result, t) \<leftarrow> format_handshake_initiation_with_budget W k dst True budget t;
     let t = (case latch of
                Some armed \<Rightarrow>
                  if tn_pending t = None \<and> is_capacity_refusal result
                  then t\<lparr> tn_timers := (tn_timers t)\<lparr> tm_want_handshake := Some armed \<rparr> \<rparr>
                  else t
              | None \<Rightarrow> t);
     Some (result, if is_err result then note_event EV_TICK_DEMAND_REFUSED t else t) }"

text \<open>The poll once the clock, the rate limiter and the session ages are up to date.\<close>

definition poll ::
  "'g world \<Rightarrow> call \<Rightarrow> bytes \<Rightarrow> keepalive_rollback \<Rightarrow> output_budget \<Rightarrow> duration \<Rightarrow> 'g tunn
    \<Rightarrow> (tunn_result \<times> 'g tunn) option" where
  "poll W k dst rollback budget now t =
     (if burst_owes_expired_reset t then advance_amnezia_junk W k dst budget t
      else if tn_pending t \<noteq> None then do {
        (expired, t) \<leftarrow> expire_past_absolute_bounds k now t;
        (if expired then Some (TrErr ConnectionExpired, t) else advance_amnezia_junk W k dst budget t) }
      else if hs_is_expired (tn_handshake t) then
        (let tm = tn_timers t in
         if \<not> persistent_keepalive_on tm \<or> \<not> tm_persistent_keepalive_due tm
         then Some (TrErr ConnectionExpired, t)
         else send_keepalive W k dst rollback budget
                (timer_tick W TimePersistentKeepalive (t\<lparr> tn_timers := tm\<lparr> tm_persistent_keepalive_due := False \<rparr> \<rparr>)))
      else do {
        t \<leftarrow> (if has_cookie (tn_handshake t) then do {
               age \<leftarrow> duration_minus now (tm_timers (tn_timers t) TimeCookieReceived);
               Some (if age \<ge> COOKIE_EXPIRATION_TIME then t\<lparr> tn_handshake := clear_cookie (tn_handshake t) \<rparr> else t) }
             else Some t);
        (expired, t) \<leftarrow> expire_past_absolute_bounds k now t;
        (if expired then Some (TrErr ConnectionExpired, t)
         else do {
           (d, t) \<leftarrow> select_demand W k now t;
           (case d of
              Inl _ \<Rightarrow> Some (TrErr ConnectionExpired, t)
            | Inr (WantInitiation latch) \<Rightarrow> serve_initiation W k dst latch budget t
            | Inr WantKeepalive \<Rightarrow> send_keepalive W k dst rollback budget t
            | Inr NoDemand \<Rightarrow> Some (TrDone, t)) }) })"

definition update_timers_with_budget ::
  "'g world \<Rightarrow> call \<Rightarrow> bytes \<Rightarrow> output_budget \<Rightarrow> 'g tunn \<Rightarrow> (tunn_result \<times> 'g tunn) option" where
  "update_timers_with_budget W k dst budget t =
     (let rollback = keepalive_rollback_of t;
          t = (if tm_should_reset_rr (tn_timers t)
               then t\<lparr> tn_rate_limiter := reset_count (at_now k) (tn_rate_limiter t) \<rparr> else t);
          now = monotonic_now (at_now k) (tn_timers t);
          t = t\<lparr> tn_timers := set_timer TimeCurrent now (tn_timers t) \<rparr>
      in do {
        t \<leftarrow> update_session_timers now t;
        poll W k dst rollback budget now t })"

definition update_timers :: "'g world \<Rightarrow> call \<Rightarrow> bytes \<Rightarrow> 'g tunn \<Rightarrow> (tunn_result \<times> 'g tunn) option" where
  "update_timers W k dst t = update_timers_with_budget W k dst budget_UNBOUNDED t"

definition time_since_last_handshake :: "call \<Rightarrow> 'g tunn \<Rightarrow> duration option" where
  "time_since_last_handshake k t =
     (if tn_sessions t ! selected_slot t \<noteq> None
      then Some (duration_since (at_now k) (tm_time_started (tn_timers t)) - tm_timers (tn_timers t) TimeSessionEstablished)
      else None)"

definition persistent_keepalive_range :: "'g tunn \<Rightarrow> (u16 \<times> u16) option" where
  "persistent_keepalive_range t =
     (if persistent_keepalive_on (tn_timers t) then Some (tm_persistent_keepalive (tn_timers t)) else None)"

definition persistent_keepalive :: "'g tunn \<Rightarrow> u16 option" where
  "persistent_keepalive t = map_option fst (persistent_keepalive_range t)"

section \<open>Construction and reconfiguration\<close>

text \<open>
  The random inputs of a rate limiter of the tunnel's own: its secret and nonce keys, the clock, and
  the two keyed hash functions of its tables.
\<close>

record limiter_seed =
  ls_secret :: bytes
  ls_nonce_key :: bytes
  ls_hash1 :: "u8 \<times> u64 \<Rightarrow> u64"
  ls_hash2 :: "u8 \<times> u64 \<Rightarrow> u64"

definition limiter_or_own :: "'g world \<Rightarrow> call \<Rightarrow> limiter_seed \<Rightarrow> bytes \<Rightarrow> rate_limiter option \<Rightarrow> rate_limiter" where
  "limiter_or_own W k seed static_public given =
     (case given of
        Some l \<Rightarrow> l
      | None \<Rightarrow> rate_limiter_new (w_crypto W) static_public PEER_HANDSHAKE_RATE_LIMIT (ls_secret seed)
                  (ls_nonce_key seed) (at_now k) (at_now k) (ls_hash1 seed) (ls_hash2 seed))"

text \<open>What a constructor is refused with: a range error, a policy error, or a failed seeding.\<close>

datatype new_error = NeRange range_error | NeConfig config_error | NeSeed string

definition new_with_obfuscation ::
  "'g world \<Rightarrow> call \<Rightarrow> limiter_seed \<Rightarrow> string + 'g \<Rightarrow> 'g \<Rightarrow> time_stamper \<Rightarrow> bytes \<Rightarrow> bytes \<Rightarrow> bytes option \<Rightarrow> u16 option
    \<Rightarrow> u32 \<Rightarrow> rate_limiter option \<Rightarrow> obfuscation_ranges \<Rightarrow> amnezia_config \<Rightarrow> new_error + 'g tunn" where
  "new_with_obfuscation W k ls seed jitter_seed ts static_private peer_static_public preshared_key keepalive0 index
     limiter obf amnezia =
     (case check_header_protection_nonce amnezia of
        Inl e \<Rightarrow> Err (NeConfig e)
      | Inr _ \<Rightarrow>
          let static_public = x25519_public (w_crypto W) static_private in
          (case handshake_new (w_crypto W) static_private static_public peer_static_public (push_bit 8 index)
                  preshared_key obf seed ts of
             Inl e \<Rightarrow> Err (NeSeed e)
           | Inr h \<Rightarrow> Ok \<lparr>
               tn_handshake = h,
               tn_sessions = replicate N_SESSIONS None,
               tn_current = 0,
               tn_packet_queue = [],
               tn_timers = timers_new (at_now k) jitter_seed keepalive0 (limiter = None),
               tn_tx_bytes = 0,
               tn_rx_bytes = 0,
               tn_amnezia = amnezia,
               tn_auto_imitation = auto_default,
               tn_pending = None,
               tn_rate_limiter = limiter_or_own W k ls static_public limiter,
               tn_udp_window = DEFAULT_UDP_WINDOW,
               tn_meta = op_state_default \<rparr>))"

definition new_with_amnezia ::
  "'g world \<Rightarrow> call \<Rightarrow> limiter_seed \<Rightarrow> string + 'g \<Rightarrow> 'g \<Rightarrow> time_stamper \<Rightarrow> bytes \<Rightarrow> bytes \<Rightarrow> bytes option \<Rightarrow> u16 option
    \<Rightarrow> u32 \<Rightarrow> rate_limiter option \<Rightarrow> u32 \<Rightarrow> u32 \<Rightarrow> u32 \<Rightarrow> u32 \<Rightarrow> u32 \<Rightarrow> u32 \<Rightarrow> u32 \<Rightarrow> u32 \<Rightarrow> amnezia_config
    \<Rightarrow> new_error + 'g tunn" where
  "new_with_amnezia W k ls seed jitter_seed ts static_private peer_static_public preshared_key keepalive0 index limiter
     h1s h1e h2s h2e h3s h3e h4s h4e amnezia =
     (case obfuscation_new h1s h1e h2s h2e h3s h3e h4s h4e of
        Inl e \<Rightarrow> Err (NeRange e)
      | Inr obf \<Rightarrow> new_with_obfuscation W k ls seed jitter_seed ts static_private peer_static_public preshared_key
          keepalive0 index limiter obf amnezia)"

definition tunn_new ::
  "'g world \<Rightarrow> call \<Rightarrow> limiter_seed \<Rightarrow> string + 'g \<Rightarrow> 'g \<Rightarrow> time_stamper \<Rightarrow> bytes \<Rightarrow> bytes \<Rightarrow> bytes option \<Rightarrow> u16 option
    \<Rightarrow> u32 \<Rightarrow> rate_limiter option \<Rightarrow> u32 \<Rightarrow> u32 \<Rightarrow> u32 \<Rightarrow> u32 \<Rightarrow> u32 \<Rightarrow> u32 \<Rightarrow> u32 \<Rightarrow> u32 \<Rightarrow> new_error + 'g tunn" where
  "tunn_new W k ls seed jitter_seed ts static_private peer_static_public preshared_key keepalive0 index limiter
     h1s h1e h2s h2e h3s h3e h4s h4e =
     new_with_amnezia W k ls seed jitter_seed ts static_private peer_static_public preshared_key keepalive0 index limiter
       h1s h1e h2s h2e h3s h3e h4s h4e (config_new 0 0 0 0)"

definition tunn_is_expired :: "'g tunn \<Rightarrow> bool" where
  "tunn_is_expired t = hs_is_expired (tn_handshake t)"

definition tunn_preshared_key :: "'g tunn \<Rightarrow> bytes option" where
  "tunn_preshared_key t = hs_preshared_key (tn_handshake t)"

definition tunn_set_static_private ::
  "'g world \<Rightarrow> call \<Rightarrow> limiter_seed \<Rightarrow> bytes \<Rightarrow> bytes \<Rightarrow> rate_limiter option \<Rightarrow> 'g tunn \<Rightarrow> 'g tunn option" where
  "tunn_set_static_private W k ls static_private static_public limiter t = do {
     let t = t\<lparr> tn_timers := (tn_timers t)\<lparr> tm_should_reset_rr := (limiter = None) \<rparr>,
                tn_rate_limiter := limiter_or_own W k ls static_public limiter \<rparr>;
     h \<leftarrow> hs_set_static_private (w_crypto W) static_private static_public (tn_handshake t);
     Some (t\<lparr> tn_handshake := h, tn_auto_imitation := auto_default,
              tn_sessions := replicate N_SESSIONS None, tn_meta := all_sessions_removed (tn_meta t) \<rparr>) }"

definition restart_pending_burst :: "'g world \<Rightarrow> 'g tunn \<Rightarrow> 'g tunn option" where
  "restart_pending_burst W t =
     (case tn_pending t of
        None \<Rightarrow> Some t
      | Some old \<Rightarrow> do {
          (burst, t) \<leftarrow> new_pre_handshake_burst W (pj_last_packet_at old) (pj_reset_expired_timers old)
            (t\<lparr> tn_pending := None \<rparr>);
          Some (t\<lparr> tn_pending := Some burst \<rparr>) })"

definition carry_imitation :: "obfuscation_ranges \<Rightarrow> amnezia_config \<Rightarrow> 'g tunn \<Rightarrow> 'g tunn" where
  "carry_imitation obf amnezia t =
     (if im_protocol (cfg_imitation (tn_amnezia t)) \<noteq> ImAuto \<or> im_protocol (cfg_imitation amnezia) \<noteq> ImAuto
      then t\<lparr> tn_auto_imitation := auto_default \<rparr>
      else if tn_amnezia t \<noteq> amnezia \<or> hs_obf (tn_handshake t) \<noteq> obf then
        let a = clear_pending (tn_auto_imitation t) in
        t\<lparr> tn_auto_imitation :=
             (case ai_learned a of
                Some protocol \<Rightarrow>
                  if im_protocol (cfg_imitation (resolve_imitation amnezia protocol)) \<noteq> protocol
                  then a\<lparr> ai_learned := None \<rparr> else a
              | None \<Rightarrow> a) \<rparr>
      else t)"

definition apply_obfuscation :: "'g world \<Rightarrow> obfuscation_ranges \<Rightarrow> amnezia_config \<Rightarrow> 'g tunn \<Rightarrow> 'g tunn option" where
  "apply_obfuscation W obf amnezia t =
     (let t = carry_imitation obf amnezia t;
          timers_changed = (cfg_timers (tn_amnezia t) \<noteq> cfg_timers amnezia);
          burst = config_pending_burst_change (tn_amnezia t) amnezia;
          t = t\<lparr> tn_handshake := hs_set_obfuscation obf (tn_handshake t), tn_amnezia := amnezia \<rparr>
      in do {
        t \<leftarrow> (if burst = RestartBurst then restart_pending_burst W t else Some t);
        Some (if timers_changed then redraw_tunable_timers W t else t) })"

definition try_set_obfuscation ::
  "'g world \<Rightarrow> obfuscation_ranges \<Rightarrow> amnezia_config \<Rightarrow> 'g tunn \<Rightarrow> ((config_error + unit) \<times> 'g tunn) option" where
  "try_set_obfuscation W obf amnezia t =
     (case check_header_protection_nonce amnezia of
        Inl e \<Rightarrow> Some (Err e, t)
      | Inr _ \<Rightarrow> do { t \<leftarrow> apply_obfuscation W obf amnezia t; Some (Ok (), t) })"

definition set_obfuscation :: "'g world \<Rightarrow> obfuscation_ranges \<Rightarrow> amnezia_config \<Rightarrow> 'g tunn \<Rightarrow> 'g tunn option" where
  "set_obfuscation W obf amnezia t = map_option snd (try_set_obfuscation W obf amnezia t)"

definition reset_udp_window :: "'g tunn \<Rightarrow> 'g tunn" where
  "reset_udp_window t = t\<lparr> tn_udp_window := DEFAULT_UDP_WINDOW \<rparr>"

definition begin_new_path :: "'g tunn \<Rightarrow> u32 \<times> 'g tunn" where
  "begin_new_path t = (tn_udp_window t, t\<lparr> tn_udp_window := DEFAULT_UDP_WINDOW \<rparr>)"

definition restore_udp_window :: "u32 \<Rightarrow> 'g tunn \<Rightarrow> 'g tunn" where
  "restore_udp_window window t = t\<lparr> tn_udp_window := window \<rparr>"

definition discard_imitation_hint :: "'g tunn \<Rightarrow> 'g tunn" where
  "discard_imitation_hint t = t\<lparr> tn_auto_imitation := clear_pending (tn_auto_imitation t) \<rparr>"

definition set_content_padding_mtu :: "u16 \<Rightarrow> 'g tunn \<Rightarrow> 'g tunn" where
  "set_content_padding_mtu mtu t = t\<lparr> tn_amnezia := (tn_amnezia t)\<lparr> content_padding_mtu := mtu \<rparr> \<rparr>"

definition set_persistent_keepalive :: "'g world \<Rightarrow> u16 option \<Rightarrow> 'g tunn \<Rightarrow> 'g tunn" where
  "set_persistent_keepalive W seconds t =
     t\<lparr> tn_timers := timers_set_persistent_keepalive (w_jitter W) seconds (tn_timers t) \<rparr>"

definition set_persistent_keepalive_range :: "'g world \<Rightarrow> u32 \<Rightarrow> u32 \<Rightarrow> 'g tunn \<Rightarrow> bool \<times> 'g tunn" where
  "set_persistent_keepalive_range W low high t =
     (case normalize_persistent_keepalive_range low high of
        Some r \<Rightarrow> (True, t\<lparr> tn_timers := timers_set_persistent_keepalive_range (w_jitter W) r (tn_timers t) \<rparr>)
      | None \<Rightarrow> (False, t))"

definition tunn_set_preshared_key :: "bytes option \<Rightarrow> 'g tunn \<Rightarrow> 'g tunn" where
  "tunn_set_preshared_key preshared_key t =
     (let unchanged = (psk_or_zero (hs_preshared_key (tn_handshake t)) = psk_or_zero preshared_key);
          t = t\<lparr> tn_handshake := hs_set_preshared_key preshared_key (tn_handshake t) \<rparr>
      in if unchanged then t
         else t\<lparr> tn_sessions := replicate N_SESSIONS None, tn_meta := all_sessions_removed (tn_meta t) \<rparr>)"


end
