(* ===== verification/Tunn_Frame.thy ===== *)
theory Tunn_Frame
  imports Tunn
begin

text \<open>
  The invariant of a tunnel, and what the operations that produce a datagram leave alone. A tunnel is
  well formed when its ring has eight slots and every session lies in the slot of its own index with a
  sound replay window, when the slots' serials are those of stored sessions and no two are the same, when no timer is ahead of
  the last poll, when the queue is within its depth, and when the keys and the configuration are of
  the shape their constructors give.

  \<open>kept\<close> relates two tunnels that differ only in what the production of a datagram may touch, and is
  established once per operation that only produces; what it says is enough for the invariant
  (\<open>kept_ok\<close>) and for the accounting of the queue.
\<close>

section \<open>The invariant\<close>

definition ring_ok :: "session option list \<Rightarrow> bool" where
  "ring_ok ss \<longleftrightarrow> length ss = N_SESSIONS \<and>
     (\<forall>i < N_SESSIONS. \<forall>s. ss ! i = Some s \<longrightarrow> session_local_index s mod N_SESSIONS = i \<and> session_ok s)"

definition serials_ok :: "session option list \<Rightarrow> op_state \<Rightarrow> bool" where
  "serials_ok ss m \<longleftrightarrow>
     length (os_slot_serial m) = N_SESSIONS \<and> os_next_session_serial m \<noteq> 0 \<and>
     (\<forall>i < N_SESSIONS. os_slot_serial m ! i = 0 \<longleftrightarrow> ss ! i = None) \<and>
     (os_next_session_serial m \<noteq> - 1 \<longrightarrow>
        (\<forall>i < N_SESSIONS. os_slot_serial m ! i < os_next_session_serial m) \<and>
        (\<forall>i < N_SESSIONS. \<forall>j < N_SESSIONS. os_slot_serial m ! i = os_slot_serial m ! j \<longrightarrow>
           os_slot_serial m ! i \<noteq> 0 \<longrightarrow> i = j))"

definition clocks_ok :: "'g timers \<Rightarrow> bool" where
  "clocks_ok tm \<longleftrightarrow>
     (\<forall>n. tm_timers tm n \<le> tm_timers tm TimeCurrent) \<and> length (tm_session_timers tm) = N_SESSIONS \<and>
     (\<forall>d \<in> set (tm_session_timers tm). d \<le> tm_timers tm TimeCurrent)"

definition config_wf :: "amnezia_config \<Rightarrow> bool" where
  "config_wf c \<longleftrightarrow> (\<exists>p d b. cfg_imitation c = imitation_new p d b)"

definition tunn_ok :: "'g world \<Rightarrow> 'g tunn \<Rightarrow> bool" where
  "tunn_ok W t \<longleftrightarrow>
     ring_ok (tn_sessions t) \<and> serials_ok (tn_sessions t) (tn_meta t) \<and> clocks_ok (tn_timers t) \<and>
     length (tn_packet_queue t) \<le> MAX_QUEUE_DEPTH \<and> config_wf (tn_amnezia t) \<and>
     params_ok (w_crypto W) (hs_params (tn_handshake t))"

text \<open>
  What the production of a datagram keeps: everything but the handshake's progress, the generators,
  the burst, the window, the event bits and the values of the timers, which stay in order. An index
  that is given out on the way has the upper bits of the tunnel's indices.
\<close>

definition kept :: "'g tunn \<Rightarrow> 'g tunn \<Rightarrow> bool" where
  "kept t t' \<longleftrightarrow>
     tn_sessions t' = tn_sessions t \<and> tn_current t' = tn_current t \<and> tn_packet_queue t' = tn_packet_queue t \<and>
     tn_amnezia t' = tn_amnezia t \<and> tn_rate_limiter t' = tn_rate_limiter t \<and>
     tn_auto_imitation t' = tn_auto_imitation t \<and> tn_rx_bytes t' = tn_rx_bytes t \<and>
     os_slot_serial (tn_meta t') = os_slot_serial (tn_meta t) \<and>
     os_next_session_serial (tn_meta t') = os_next_session_serial (tn_meta t) \<and>
     hs_params (tn_handshake t') = hs_params (tn_handshake t) \<and> hs_obf (tn_handshake t') = hs_obf (tn_handshake t) \<and>
     tm_session_timers (tn_timers t') = tm_session_timers (tn_timers t) \<and>
     tm_timers (tn_timers t) TimeCurrent \<le> tm_timers (tn_timers t') TimeCurrent \<and>
     (\<forall>i. hs_addressed i (tn_handshake t) \<longrightarrow> hs_addressed i (tn_handshake t')) \<and>
     (clocks_ok (tn_timers t) \<longrightarrow> clocks_ok (tn_timers t'))"

lemma kept_refl [simp, intro]: "kept t t"
  by (simp add: kept_def)

lemma kept_trans [trans]: "kept t t' \<Longrightarrow> kept t' t'' \<Longrightarrow> kept t t''"
  unfolding kept_def by (elim conjE) (intro conjI; simp)

lemma kept_ok: "kept t t' \<Longrightarrow> tunn_ok W t \<Longrightarrow> tunn_ok W t'"
  by (simp add: kept_def tunn_ok_def serials_ok_def)

section \<open>What the small steps keep\<close>

named_theorems keeping

lemma kept_set_rng [keeping]: "kept t (set_rng g t)"
  by (simp add: kept_def set_rng_def)

lemma kept_note_event [keeping]: "kept t (note_event e t)"
  by (simp add: kept_def note_event_def os_note_def)

lemma kept_note_output [keeping]: "kept t (note_output kind r t)"
  by (simp add: kept_def note_output_def os_note_output_def)

lemma clocks_ok_rearm [simp]: "clocks_ok (rearm_persistent_keepalive J tm) = clocks_ok tm"
  by (simp add: clocks_ok_def rearm_persistent_keepalive_def case_prod_beta Let_def)

lemma rearm_frame [simp]:
  "tm_timers (rearm_persistent_keepalive J tm) = tm_timers tm"
  "tm_session_timers (rearm_persistent_keepalive J tm) = tm_session_timers tm"
  by (simp_all add: rearm_persistent_keepalive_def case_prod_beta Let_def)

lemma jitter_frame [simp]:
  "tm_timers (snd (jitter J tm)) = tm_timers tm" "tm_session_timers (snd (jitter J tm)) = tm_session_timers tm"
  by (simp_all add: jitter_def case_prod_beta Let_def)

lemma clocks_ok_cong:
  "tm_timers tm' = tm_timers tm \<Longrightarrow> tm_session_timers tm' = tm_session_timers tm \<Longrightarrow> clocks_ok tm' = clocks_ok tm"
  by (simp add: clocks_ok_def)

text \<open>A tick sets timers to the time of the last poll and touches nothing else that matters here.\<close>

lemma timer_tick_frame:
  "tm_session_timers (tn_timers (timer_tick W n t)) = tm_session_timers (tn_timers t)"
  "tm_timers (tn_timers (timer_tick W n t)) m \<in> {tm_timers (tn_timers t) m, tm_timers (tn_timers t) TimeCurrent}"
  "tm_timers (tn_timers (timer_tick W n t)) TimeCurrent = tm_timers (tn_timers t) TimeCurrent"
  by (cases n; simp add: timer_tick_def Let_def case_prod_beta set_timer_def set_rng_def split: if_splits)+

lemma timer_tick_handshake: "\<exists>g. tn_handshake (timer_tick W n t) = (tn_handshake t)\<lparr> hs_rng := g \<rparr>"
  by (cases n; auto simp: timer_tick_def Let_def case_prod_beta set_timer_def set_rng_def
      intro: exI [of _ "hs_rng (tn_handshake t)"])

lemma timer_tick_rest:
  "tn_sessions (timer_tick W n t) = tn_sessions t" "tn_current (timer_tick W n t) = tn_current t"
  "tn_packet_queue (timer_tick W n t) = tn_packet_queue t" "tn_amnezia (timer_tick W n t) = tn_amnezia t"
  "tn_rate_limiter (timer_tick W n t) = tn_rate_limiter t" "tn_meta (timer_tick W n t) = tn_meta t"
  "tn_auto_imitation (timer_tick W n t) = tn_auto_imitation t" "tn_rx_bytes (timer_tick W n t) = tn_rx_bytes t"
  "tn_tx_bytes (timer_tick W n t) = tn_tx_bytes t"
  "tn_pending (timer_tick W n t) = tn_pending t" "tn_udp_window (timer_tick W n t) = tn_udp_window t"
  by (cases n; simp add: timer_tick_def Let_def case_prod_beta set_timer_def set_rng_def)+

lemma kept_timer_tick [keeping]: "kept t (timer_tick W n t)"
proof -
  obtain g where g: "tn_handshake (timer_tick W n t) = (tn_handshake t)\<lparr> hs_rng := g \<rparr>"
    using timer_tick_handshake [of W n t] by blast
  have "clocks_ok (tn_timers (timer_tick W n t))" if c: "clocks_ok (tn_timers t)"
    unfolding clocks_ok_def
  proof (intro conjI allI)
    fix m
    show "tm_timers (tn_timers (timer_tick W n t)) m \<le> tm_timers (tn_timers (timer_tick W n t)) TimeCurrent"
      using c timer_tick_frame(2) [of W n t m] by (auto simp: clocks_ok_def timer_tick_frame(3))
  qed (use c in \<open>auto simp: clocks_ok_def timer_tick_frame\<close>)
  then show ?thesis by (simp add: kept_def timer_tick_rest timer_tick_frame g)
qed

lemma kept_timers [keeping]:
  "tm_timers tm' = tm_timers (tn_timers t) \<Longrightarrow> tm_session_timers tm' = tm_session_timers (tn_timers t) \<Longrightarrow>
   kept t (t\<lparr> tn_timers := tm' \<rparr>)"
  by (simp add: kept_def clocks_ok_def)

lemma kept_timers_clear [keeping]: "kept t (t\<lparr> tn_timers := timers_clear now (tn_timers t) \<rparr>)"
  by (auto simp: kept_def clocks_ok_def timers_clear_def Let_def intro: order.trans)

lemma kept_fields [keeping]:
  "kept t (t\<lparr> tn_pending := p \<rparr>)" "kept t (t\<lparr> tn_udp_window := w \<rparr>)" "kept t (t\<lparr> tn_tx_bytes := b \<rparr>)"
  by (simp_all add: kept_def)

lemma write_frame:
  "write_to_network_with_imitation W dst n room protocol t = Some (r, t') \<Longrightarrow> \<exists>g. t' = set_rng g t"
  by (auto simp: write_to_network_with_imitation_def split: bind_splits)

lemma kept_write [keeping]:
  "write_to_network_with_imitation W dst n room protocol t = Some (r, t') \<Longrightarrow> kept t t'"
  "write_to_network W dst n t = Some (r, t') \<Longrightarrow> kept t t'"
  "write_handshake_to_network W dst n ceil t = Some (r, t') \<Longrightarrow> kept t t'"
  unfolding write_to_network_def write_handshake_to_network_def write_to_network_with_def
  by (auto dest: write_frame intro: kept_set_rng)

lemma format_initiation_frame:
  "hs_params (snd (format_handshake_initiation C R eph sn tn dst h)) = hs_params h"
  "hs_obf (snd (format_handshake_initiation C R eph sn tn dst h)) = hs_obf h"
  by (simp_all add: format_handshake_initiation_def Let_def case_prod_beta append_mac_simps inc_index_frame)

lemma kept_handshake:
  "hs_params h = hs_params (tn_handshake t) \<Longrightarrow> hs_obf h = hs_obf (tn_handshake t) \<Longrightarrow>
   (\<And>i. hs_addressed i (tn_handshake t) \<Longrightarrow> hs_addressed i h) \<Longrightarrow> kept t (t\<lparr> tn_handshake := h \<rparr>)"
  by (simp add: kept_def)

lemma kept_arm_initiation [keeping]: "kept t (arm_initiation W fresh t)"
proof -
  let ?r = "retransmit_timeout (w_rng W) (cfg_timers (tn_amnezia t)) (tn_rng t)"
  let ?j = "jitter (w_jitter W) (tn_timers t)"
  define t1 where "t1 = (set_rng (snd ?r) t)\<lparr> tn_timers := (snd ?j)\<lparr> tm_retransmit_current := fst ?r + fst ?j \<rparr> \<rparr>"
  have 1: "kept t t1" unfolding t1_def
    by (rule kept_trans [OF kept_set_rng kept_timers]) (simp_all add: set_rng_def)
  let ?m = "max_retransmissions (w_rng W) (cfg_timers (tn_amnezia t1)) (tn_rng t1)"
  define t2 where "t2 = (if fresh then timer_tick W TimeLastHandshakeStarted
      ((set_rng (snd ?m) t1)\<lparr> tn_timers := (tn_timers t1)\<lparr> tm_handshake_attempts := 0,
         tm_max_retransmissions_current := fst ?m \<rparr> \<rparr>)
    else t1\<lparr> tn_timers := (tn_timers t1)\<lparr> tm_handshake_attempts :=
           min (tm_handshake_attempts (tn_timers t1) + 1) (2 ^ 32 - 1) \<rparr> \<rparr>)"
  have "kept t1 ((set_rng (snd ?m) t1)\<lparr> tn_timers := (tn_timers t1)\<lparr> tm_handshake_attempts := 0,
         tm_max_retransmissions_current := fst ?m \<rparr> \<rparr>)"
    by (rule kept_trans [OF kept_set_rng kept_timers]) (simp_all add: set_rng_def)
  then have 2: "kept t1 t2" unfolding t2_def
    by (auto intro: kept_trans [OF _ kept_timer_tick] kept_timers)
  have "arm_initiation W fresh t = timer_tick W TimeLastPacketSent t2"
    by (simp add: arm_initiation_def Let_def case_prod_beta t2_def t1_def set_rng_def tn_rng_def)
  then show ?thesis using kept_trans [OF kept_trans [OF 1 2] kept_timer_tick] by simp
qed

lemma kept_format_now [keeping]:
  assumes "format_handshake_initiation_now_with_budget W k dst force reset budget t = Some (r, t')"
  shows "kept t t'"
proof -
  define t1 where "t1 = (if reset \<and> hs_is_expired (tn_handshake t)
    then t\<lparr> tn_timers := timers_clear (at_now k) (tn_timers t) \<rparr> else t)"
  define f where "f = format_handshake_initiation (w_crypto W) (w_rng W) (at_eph k) (at_now k) (at_now k) (length dst)
    (tn_handshake t1)"
  define t2 where "t2 = t1\<lparr> tn_handshake := snd f \<rparr>"
  have "kept t t1" by (simp add: t1_def kept_timers_clear)
  moreover have "kept t1 t2" unfolding t2_def f_def by (rule kept_handshake) (simp_all add: format_initiation_frame format_initiation_addressed)
  ultimately have t2: "kept t t2" by (rule kept_trans)
  let ?a = "arm_initiation W (\<not> is_in_progress (tn_handshake t1)) t2"
  consider "t' = t" | "t' = t2"
    | packet ceil t3 where "write_handshake_to_network W (into_dst packet dst) (length packet) ceil ?a = Some (r, t3)"
        "t' = note_output OpHandshakeInitiation r (if is_network r then note_event EV_INITIATION_PRODUCED t3 else t3)"
    using assms unfolding format_handshake_initiation_now_with_budget_def Let_def
      t1_def [symmetric] f_def [symmetric] case_prod_beta t2_def [symmetric]
    by (fastforce split: if_splits sum.splits bind_splits)
  then show ?thesis
  proof cases
    case 3
    have "kept t t3" using t2 kept_arm_initiation kept_write(3) [OF 3(1)] by (metis kept_trans)
    moreover have "kept t3 (if is_network r then note_event EV_INITIATION_PRODUCED t3 else t3)"
      by (simp add: kept_note_event)
    ultimately show ?thesis unfolding 3(2) using kept_note_output by (metis kept_trans)
  qed (use t2 in simp_all)
qed

lemma kept_first_emit [keeping]: "kept t (reset_expired_timers_on_first_emit k t)"
proof -
  have "kept t ((t\<lparr> tn_pending := p \<rparr>)\<lparr> tn_timers := timers_clear (at_now k) (tn_timers (t\<lparr> tn_pending := p \<rparr>)) \<rparr>)" for p
    by (rule kept_trans [OF kept_fields(1) kept_timers_clear])
  then show ?thesis
    by (simp add: reset_expired_timers_on_first_emit_def Let_def kept_fields split: option.splits)
qed

text \<open>The ways one step of a burst can end.\<close>

lemma advance_cases:
  assumes "advance_amnezia_junk W k dst budget t = Some (r, t')"
  obtains "t' = t"
  | kind q where "t' = note_output kind r (reset_expired_timers_on_first_emit k (t\<lparr> tn_pending := q \<rparr>))"
  | force reset t1 where "format_handshake_initiation_now_with_budget W k dst force reset budget t = Some (r, t1)"
      "t' = t1 \<or> t' = t1\<lparr> tn_pending := None \<rparr>"
  | g q where "t' = set_rng g (reset_expired_timers_on_first_emit k t) \<or>
      t' = note_output OpJunk r ((set_rng g (reset_expired_timers_on_first_emit k t))\<lparr> tn_pending := q \<rparr>) \<or>
      t' = note_output OpJunk r (set_rng g (reset_expired_timers_on_first_emit k t))"
proof (cases "tn_pending t")
  case None
  then show thesis using assms that(1) by (simp add: advance_amnezia_junk_def)
next
  case (Some p)
  show thesis
  proof (cases "(case pj_last_packet_at p of Some last0 \<Rightarrow> duration_since (at_now k) last0 \<ge> burst_delay t p | None \<Rightarrow> True)")
    case False
    then show thesis using assms that(1) by (simp add: advance_amnezia_junk_def Some)
  next
    case elapsed: True
    show thesis
    proof (cases "pj_imitation_datagrams p")
      case (Cons d ds)
      then show thesis using assms elapsed that(1,2)
        by (auto simp: advance_amnezia_junk_def Some Let_def case_prod_beta split: sum.splits)
    next
      case Nil
      show thesis
      proof (cases "pj_remaining p = 0")
        case True
        then show thesis using assms elapsed Nil that(3)
          by (auto simp: advance_amnezia_junk_def Some split: bind_splits if_splits)
      next
        case False
        then show thesis using assms elapsed Nil that(1,4)
          by (auto simp: advance_amnezia_junk_def Some Let_def split: sum.splits bind_splits if_splits option.splits) blast+
      qed
    qed
  qed
qed

lemma kept_advance [keeping]:
  assumes "advance_amnezia_junk W k dst budget t = Some (r, t')"
  shows "kept t t'"
  using assms
proof (cases rule: advance_cases)
  case 2
  then show ?thesis using kept_trans [OF kept_trans [OF kept_fields(1) kept_first_emit] kept_note_output] by simp
next
  case 3
  then show ?thesis using kept_format_now kept_trans [OF _ kept_fields(1)] by blast
next
  case (4 g q)
  have "kept t (set_rng g (reset_expired_timers_on_first_emit k t))" by (rule kept_trans [OF kept_first_emit kept_set_rng])
  then show ?thesis using 4 kept_note_output kept_fields(1) by (metis kept_trans)
qed simp

lemma kept_new_burst [keeping]: "new_pre_handshake_burst W last0 reset t = Some (b, t') \<Longrightarrow> kept t t'"
  by (auto simp: new_pre_handshake_burst_def kept_set_rng split: if_splits bind_splits)

lemma format_initiation_cases:
  assumes "format_handshake_initiation_with_budget W k dst force budget t = Some (r, t')"
  obtains "t' = t" | "advance_amnezia_junk W k dst budget t = Some (r, t')"
  | reset where "format_handshake_initiation_now_with_budget W k dst force reset budget t = Some (r, t')"
  | b t1 where "new_pre_handshake_burst W None (hs_is_expired (tn_handshake t)) t = Some (b, t1)"
      "advance_amnezia_junk W k dst budget (note_event EV_BURST_PREPARED (t1\<lparr> tn_pending := Some b \<rparr>)) = Some (r, t')"
  using assms unfolding format_handshake_initiation_with_budget_def Let_def
  by (auto split: if_splits bind_splits)

lemma kept_format_initiation [keeping]:
  assumes "format_handshake_initiation_with_budget W k dst force budget t = Some (r, t')"
  shows "kept t t'"
  using assms
proof (cases rule: format_initiation_cases)
  case (4 b t1)
  have "kept t (note_event EV_BURST_PREPARED (t1\<lparr> tn_pending := Some b \<rparr>))"
    using kept_trans [OF kept_trans [OF kept_new_burst [OF 4(1)] kept_fields(1)] kept_note_event] .
  then show ?thesis using kept_advance [OF 4(2)] by (rule kept_trans)
qed (auto intro: keeping)

section \<open>Sending on a session\<close>

text \<open>A session after some more traffic: the same index, and a replay window that stays sound.\<close>

definition continues :: "session \<Rightarrow> session \<Rightarrow> bool" where
  "continues s s' \<longleftrightarrow> receiving_index s' = receiving_index s \<and> (session_ok s \<longrightarrow> session_ok s')"

lemma format_packet_data_continues:
  "continues s (fst (snd (format_packet_data C R obf g s src pad n)))"
  by (auto simp: continues_def session_ok_def format_packet_data_def claim_sending_nonce_def Let_def case_prod_beta
      split: option.splits prod.splits)

lemma receive_packet_data_refused:
  "receive_packet_data C s p n = (Inl e, s') \<Longrightarrow> s' = s"
  by (auto simp: receive_packet_data_def receiving_counter_mark_def mark_did_receive_def Let_def
      split: sum.splits option.splits prod.splits if_splits)

lemma receive_packet_data_continues:
  "continues s (snd (receive_packet_data C s p n))"
proof -
  have "receiving_index (snd (receive_packet_data C s p n)) = receiving_index s"
    by (auto simp: receive_packet_data_def receiving_counter_mark_def Let_def split: sum.splits option.splits prod.splits)
  moreover have "session_ok (snd (receive_packet_data C s p n))" if ok: "session_ok s"
  proof -
    obtain S where S: "window_of (receiving_key_counter s) S" using ok by (auto simp: session_ok_def)
    show ?thesis
      by (rule receive_packet_data_cases [OF S, of C p n]) (use ok in \<open>auto simp: session_ok_def\<close>)
  qed
  ultimately show ?thesis by (simp add: continues_def)
qed

lemma ring_ok_update:
  "ring_ok ss \<Longrightarrow> i < N_SESSIONS \<Longrightarrow> session_local_index s mod N_SESSIONS = i \<Longrightarrow> session_ok s \<Longrightarrow>
   ring_ok (ss[i := Some s])"
  by (auto simp: ring_ok_def nth_list_update)

lemma selected_slot_less [simp]: "selected_slot t < N_SESSIONS"
  by (simp add: selected_slot_def N_SESSIONS_def)

lemma slot_less [simp]: "n mod N_SESSIONS < N_SESSIONS"
  by (simp add: N_SESSIONS_def)

text \<open>A stored session replaced by itself with other counters.\<close>

lemma same_session_ok:
  assumes "tunn_ok W t" "i < N_SESSIONS" "tn_sessions t ! i = Some s" "continues s s'"
  shows "tunn_ok W (t\<lparr> tn_sessions := (tn_sessions t)[i := Some s'] \<rparr>)"
proof -
  have "session_local_index s' mod N_SESSIONS = i" "session_ok s'"
    using assms by (auto simp: tunn_ok_def ring_ok_def session_local_index_def continues_def)
  moreover have "serials_ok ((tn_sessions t)[i := Some s']) (tn_meta t)"
    using assms by (auto simp: tunn_ok_def serials_ok_def ring_ok_def nth_list_update)
  ultimately show ?thesis using assms by (simp add: tunn_ok_def ring_ok_update)
qed

text \<open>
  What sending on the session leaves: the queue as it was, the ring with at most the counters of the
  selected session moved.
\<close>

lemma encapsulate_on_session_frame:
  assumes "encapsulate_on_session W src dst budget t = Some (r, t')"
  shows "t' = t \<or> (\<exists>s s' t1. tn_sessions t ! selected_slot t = Some s \<and> continues s s' \<and>
    t1 = t\<lparr> tn_sessions := (tn_sessions t)[selected_slot t := Some s'] \<rparr> \<and> kept t1 t')"
proof (cases "tn_sessions t ! selected_slot t")
  case None
  then show ?thesis using assms by (simp add: encapsulate_on_session_def Let_def)
next
  case (Some s)
  define w where "w = grown_window (tn_udp_window t) (transport_window_observation (tn_amnezia t) (length src))"
  define pg where "pg ceil = content_padding_for_frame (w_rng W) (tn_amnezia t) (length src) ceil
    (transport_junk_size (tn_amnezia t)) w (tn_rng t)" for ceil
  define f where "f ceil = format_packet_data (w_crypto W) (w_rng W) (hs_obf (tn_handshake t)) (snd (pg ceil)) s src
    (fst (pg ceil)) (length dst)" for ceil
  define t2 where "t2 ceil = (set_rng (snd (snd (f ceil))) (t\<lparr> tn_udp_window := w \<rparr>))
    \<lparr> tn_sessions := (tn_sessions t)[selected_slot t := Some (fst (snd (f ceil)))] \<rparr>" for ceil
  have k2: "kept (t\<lparr> tn_sessions := (tn_sessions t)[selected_slot t := Some (fst (snd (f ceil)))] \<rparr>) (t2 ceil)" for ceil
    by (simp add: kept_def t2_def set_rng_def)
  have sel: "selected_slot (t\<lparr> tn_udp_window := w \<rparr>) = selected_slot t" "tn_rng (t\<lparr> tn_udp_window := w \<rparr>) = tn_rng t"
    by (simp_all add: selected_slot_def tn_rng_def)
  have idx: "continues s (fst (snd (f ceil)))" for ceil
    by (simp add: f_def format_packet_data_continues)
  consider "t' = t" | ceil where "t' = t2 ceil"
    | ceil packet kind t3 t4 where "kept (t2 ceil) t3"
        "write_to_network W (into_dst packet dst) (length packet) t3 = Some (r, t4)" "t' = note_output kind r t4"
  proof (cases "admit (transport_frame (length src) (transport_junk_size (tn_amnezia t))) (length dst) (ob_transport budget)")
    case (Inl e)
    then show thesis using assms that(1) by (simp add: encapsulate_on_session_def Let_def Some)
  next
    case (Inr ceil)
    define tick where "tick = (\<lambda>t. (if src \<noteq> [] then timer_tick W TimeLastDataPacketSent t else t))"
    define t3 where "t3 = (let t = tick (timer_tick W TimeLastPacketSent (t2 ceil))
      in t\<lparr> tn_tx_bytes := tn_tx_bytes t + length src \<rparr>)"
    have "kept t (tick t)" for t by (simp add: tick_def kept_timer_tick)
    then have k3: "kept (t2 ceil) t3" unfolding t3_def Let_def by (metis kept_trans kept_timer_tick kept_fields(3))
    have "encapsulate_on_session W src dst budget t = (case fst (f ceil) of
        Inl e \<Rightarrow> Some (TrErr e, t2 ceil)
      | Inr packet \<Rightarrow> do {
          (result, t) \<leftarrow> write_to_network W (into_dst packet dst) (length packet) t3;
          Some (result, note_output (if src = [] then OpTransportKeepalive else OpTransportData) result t) })"
      using sel by (simp add: encapsulate_on_session_def Let_def Some Inr case_prod_beta t3_def tick_def t2_def f_def
          pg_def w_def [symmetric] set_rng_def cong: sum.case_cong if_cong split del: if_split)
    then show thesis using assms that(2,3) k3 by (auto split: sum.splits bind_splits)
  qed
  then show ?thesis
  proof cases
    case 2
    then show ?thesis using Some k2 idx by metis
  next
    case 3
    then have "kept (t2 ceil) t'" using kept_write(2) kept_note_output by (metis kept_trans)
    then show ?thesis using Some k2 [of ceil] idx [of ceil] by (metis kept_trans)
  qed simp
qed


end
