(* ===== verification/Tunn_Invariant.thy ===== *)
theory Tunn_Invariant
  imports Tunn_Frame
begin

text \<open>
  Every operation keeps the invariant of a tunnel.
\<close>

section \<open>Sending\<close>

lemma encapsulate_on_session_ok:
  assumes "tunn_ok W t" "encapsulate_on_session W src dst budget t = Some (r, t')"
  shows "tunn_ok W t'" "tn_packet_queue t' = tn_packet_queue t" "tn_current t' = tn_current t"
    "tm_timers (tn_timers t) TimeCurrent \<le> tm_timers (tn_timers t') TimeCurrent"
proof -
  from encapsulate_on_session_frame [OF assms(2)]
  have "tunn_ok W t' \<and> tn_packet_queue t' = tn_packet_queue t \<and> tn_current t' = tn_current t \<and>
    tm_timers (tn_timers t) TimeCurrent \<le> tm_timers (tn_timers t') TimeCurrent"
  proof (elim disjE exE conjE)
    fix s s' t1
    assume s: "tn_sessions t ! selected_slot t = Some s" "continues s s'"
      "t1 = t\<lparr> tn_sessions := (tn_sessions t)[selected_slot t := Some s'] \<rparr>" and k: "kept t1 t'"
    have "tunn_ok W t1" unfolding s(3) by (rule same_session_ok [OF assms(1) _ s(1,2)]) simp
    then show ?thesis using kept_ok [OF k] k by (simp add: s(3) kept_def)
  qed (use assms in simp)
  then show "tunn_ok W t'" "tn_packet_queue t' = tn_packet_queue t" "tn_current t' = tn_current t"
    "tm_timers (tn_timers t) TimeCurrent \<le> tm_timers (tn_timers t') TimeCurrent" by simp_all
qed

lemma tunn_ok_fields [simp]:
  "tunn_ok W (t\<lparr> tn_rate_limiter := l \<rparr>) = tunn_ok W t"
  "tunn_ok W (t\<lparr> tn_auto_imitation := a \<rparr>) = tunn_ok W t"
  "tunn_ok W (t\<lparr> tn_pending := p \<rparr>) = tunn_ok W t"
  "tunn_ok W (t\<lparr> tn_udp_window := w \<rparr>) = tunn_ok W t"
  "tunn_ok W (t\<lparr> tn_rx_bytes := n \<rparr>) = tunn_ok W t"
  "tunn_ok W (t\<lparr> tn_tx_bytes := n \<rparr>) = tunn_ok W t"
  "tunn_ok W (t\<lparr> tn_current := c \<rparr>) = tunn_ok W t"
  by (simp_all add: tunn_ok_def)

lemma tunn_ok_notes [simp]:
  "tunn_ok W (note_event e t) = tunn_ok W t" "tunn_ok W (note_output kind r t) = tunn_ok W t"
  "tunn_ok W (set_rng g t) = tunn_ok W t"
  by (simp_all add: tunn_ok_def note_event_def os_note_def note_output_def os_note_output_def set_rng_def serials_ok_def)

lemma tunn_ok_meta:
  "os_slot_serial m = os_slot_serial (tn_meta t) \<Longrightarrow> os_next_session_serial m = os_next_session_serial (tn_meta t) \<Longrightarrow>
   tunn_ok W (t\<lparr> tn_meta := m \<rparr>) = tunn_ok W t"
  by (simp add: tunn_ok_def serials_ok_def)

lemma tunn_ok_tick [simp]: "tunn_ok W t \<Longrightarrow> tunn_ok W (timer_tick W' n t)"
  by (rule kept_ok [OF kept_timer_tick])

lemma tunn_ok_timers:
  "tm_timers tm' = tm_timers (tn_timers t) \<Longrightarrow> tm_session_timers tm' = tm_session_timers (tn_timers t) \<Longrightarrow>
   tunn_ok W (t\<lparr> tn_timers := tm' \<rparr>) = tunn_ok W t"
  by (simp add: tunn_ok_def clocks_ok_def)

lemma tunn_ok_handshake:
  "hs_params h = hs_params (tn_handshake t) \<Longrightarrow> tunn_ok W (t\<lparr> tn_handshake := h \<rparr>) = tunn_ok W t"
  by (simp add: tunn_ok_def)

lemma queue_packet_ok: "queue_packet p t = (r, t') \<Longrightarrow> tunn_ok W t \<Longrightarrow> tunn_ok W t'"
  by (auto simp: queue_packet_def queue_has_room_def split: if_splits) (simp add: tunn_ok_def)

lemma dequeue_packet_ok: "tunn_ok W t \<Longrightarrow> tunn_ok W (snd (dequeue_packet t))"
  by (auto simp: dequeue_packet_def tunn_ok_def split: list.splits)

lemma admit_without_session_ok:
  assumes "tunn_ok W t" "admit_without_session W k src dst budget t = Some (r, t')"
  shows "tunn_ok W t'"
proof -
  have "tunn_ok W t1" if "format_handshake_initiation_with_budget W k dst False budget t = Some (r1, t1)" for r1 t1
    using kept_ok [OF kept_format_initiation [OF that] assms(1)] .
  then show ?thesis
    using assms by (auto simp: admit_without_session_def intro: queue_packet_ok
        split: if_splits bind_splits prod.splits sum.splits)
qed

lemma encapsulate_with_budget_ok:
  "tunn_ok W t \<Longrightarrow> encapsulate_with_budget W k src dst budget t = Some (r, t') \<Longrightarrow> tunn_ok W t'"
  by (auto simp: encapsulate_with_budget_def intro: encapsulate_on_session_ok admit_without_session_ok split: if_splits)

lemma drain_queue_ok:
  "tunn_ok W t \<Longrightarrow> drain_queue n W dst budget t = Some (r, t') \<Longrightarrow> tunn_ok W t'"
proof (induction n arbitrary: t)
  case (Suc n)
  show ?case
  proof (cases "tn_packet_queue t")
    case Nil
    then show ?thesis using Suc.prems by simp
  next
    case (Cons h q)
    let ?d = "snd (dequeue_packet t)"
    have d: "tunn_ok W ?d" "tn_packet_queue ?d = q" and q: "Suc (length q) \<le> MAX_QUEUE_DEPTH"
      using dequeue_packet_ok [OF Suc.prems(1)] Suc.prems(1) Cons by (auto simp: dequeue_packet_def tunn_ok_def)
    show ?thesis
    proof (cases "exceeds (transport_frame (length h) (transport_junk_size (tn_amnezia t))) (ob_transport budget)")
      case True
      then show ?thesis using Suc.IH [of "note_event EV_QUEUE_HEAD_DROPPED ?d"] Suc.prems(2) Cons d by simp
    next
      case False
      then obtain r1 t1 where e: "encapsulate_on_session W h dst budget ?d = Some (r1, t1)"
        and t': "t' = t1 \<or> t' = requeue_packet h t1"
        using Suc.prems(2) Cons by (auto split: bind_splits tunn_result.splits)
      note ok = encapsulate_on_session_ok(1,2) [OF d(1) e]
      have "tunn_ok W (requeue_packet h t1)"
        using ok d(2) q by (simp add: requeue_packet_def tunn_ok_def)
      then show ?thesis using ok t' by blast
    qed
  qed
qed simp

lemma send_queued_packet_ok:
  "tunn_ok W t \<Longrightarrow> send_queued_packet W k dst budget t = Some (r, t') \<Longrightarrow> tunn_ok W t'"
  by (auto simp: send_queued_packet_def intro: drain_queue_ok kept_ok [OF kept_format_initiation] split: if_splits)


section \<open>Receiving\<close>

text \<open>
  The tunnel's own authentication is a trial in the sense of the receive loop: a datagram it refuses
  leaves the tunnel as it was.
\<close>

lemma list_update_same: "ss ! i = x \<Longrightarrow> ss[i := x] = ss"
  by (metis list_update_id)

interpretation tunnel_trial: inbound_trial "authenticate_with_budget W k n budget" for W k n budget
proof unfold_locales
  fix p e
  fix t t' :: "'a tunn"
  assume a: "authenticate_with_budget W k n budget p t = (Inl e, t')"
  show "t' = t"
  proof (cases p)
    case (PPacketData d)
    show ?thesis
    proof (cases "tn_sessions t ! (unat (pd_receiver_idx d) mod N_SESSIONS)")
      case (Some s)
      obtain r s' where r: "receive_packet_data (w_crypto W) s d n = (r, s')" by fastforce
      have "is_ok r \<Longrightarrow> False" using a PPacketData Some r
        by (cases r) (auto simp: authenticate_with_budget_def Let_def)
      then have "s' = s" using receive_packet_data_refused [of "w_crypto W" s d n] r by (cases r) auto
      then show ?thesis using a PPacketData Some r
        by (auto simp: authenticate_with_budget_def Let_def list_update_same)
    qed (use a PPacketData in \<open>simp add: authenticate_with_budget_def Let_def\<close>)
  qed (use a in \<open>auto simp: authenticate_with_budget_def\<close>)
qed

text \<open>What an accepted packet hands to its commit.\<close>

fun token_ok :: "authenticated \<Rightarrow> bool" where
  "token_ok (AuthResponse r) = session_ok (ar_session r)"
| "token_ok _ = True"

lemma authenticate_response_session: "authenticate_response C now h p = Ok a \<Longrightarrow> session_ok (ar_session a)"
  by (auto simp: authenticate_response_def Let_def case_prod_beta and_then_Inr_iff session_new_ok split: if_splits option.splits)

lemma authenticate_ok:
  assumes "tunn_ok W t" "authenticate_with_budget W k n budget p t = (r, t')"
  shows "tunn_ok W t'" "r = Inr a \<Longrightarrow> token_ok a"
proof -
  have "tunn_ok W t' \<and> (r = Inr a \<longrightarrow> token_ok a)"
  proof (cases p)
    case (PPacketData d)
    show ?thesis
    proof (cases "tn_sessions t ! (unat (pd_receiver_idx d) mod N_SESSIONS)")
      case (Some s)
      obtain r1 s' where r1: "receive_packet_data (w_crypto W) s d n = (r1, s')" by fastforce
      have "continues s s'" using receive_packet_data_continues [of s "w_crypto W" d n] r1 by simp
      from same_session_ok [OF assms(1) slot_less Some this] show ?thesis using assms(2) PPacketData Some r1
        by (auto simp: authenticate_with_budget_def Let_def and_then_Inr_iff)
    qed (use assms PPacketData in \<open>auto simp: authenticate_with_budget_def Let_def\<close>)
  qed (use assms authenticate_response_session in \<open>auto simp: authenticate_with_budget_def and_then_Inr_iff\<close>)
  then show "tunn_ok W t'" "r = Inr a \<Longrightarrow> token_ok a" by simp_all
qed

lemma receive_ok:
  assumes "tunn_ok W t"
    "receive C SC now c obf src candidates datagram (authenticate_with_budget W k n budget) l t = (out, l', t')"
  shows "tunn_ok W t'" "out = Accepted a \<Longrightarrow> token_ok a"
proof -
  note d = tunnel_trial.receive_decides [OF assms(2)]
  have "tunn_ok W t' \<and> (out = Accepted a \<longrightarrow> token_ok a)"
  proof (cases out)
    case (Accepted x)
    then obtain p where "authenticate_with_budget W k n budget p t = (Inr x, t')" using d by auto
    then show ?thesis using authenticate_ok [OF assms(1)] Accepted by blast
  qed (use d assms(1) in auto)
  then show "tunn_ok W t'" "out = Accepted a \<Longrightarrow> token_ok a" by simp_all
qed


section \<open>Committing\<close>

text \<open>A new session stored in the slot of its index, with a fresh serial.\<close>

lemma session_stored_serials:
  assumes "serials_ok ss m" "length ss = N_SESSIONS" "session_stored i m = Some m'"
  shows "serials_ok (ss[i := Some s]) m'"
proof -
  let ?n = "os_next_session_serial m" and ?l = "os_slot_serial m"
  have l: "length ?l = N_SESSIONS" "?n \<noteq> 0" "\<And>j. j < N_SESSIONS \<Longrightarrow> (?l ! j = 0) = (ss ! j = None)"
    using assms(1) by (auto simp: serials_ok_def)
  have i: "i < N_SESSIONS" and m': "os_slot_serial m' = ?l[i := ?n]"
    "os_next_session_serial m' = (if ?n = - 1 then - 1 else ?n + 1)"
    using assms(3) l(1) by (auto simp: session_stored_def os_note_def split: if_splits)
  have nz: "os_next_session_serial m' \<noteq> 0" using m'(2) eq_neg_iff_add_eq_0 [of ?n 1] by auto
  have fresh: "(\<forall>j < N_SESSIONS. os_slot_serial m' ! j < os_next_session_serial m') \<and>
     (\<forall>j < N_SESSIONS. \<forall>k < N_SESSIONS. os_slot_serial m' ! j = os_slot_serial m' ! k \<longrightarrow>
        os_slot_serial m' ! j \<noteq> 0 \<longrightarrow> j = k)" if "os_next_session_serial m' \<noteq> - 1"
  proof -
    have n: "?n \<noteq> - 1" "os_next_session_serial m' = ?n + 1" using that m'(2) by (auto split: if_splits)
    have "?n < - 1" using n(1) by (simp add: word_order.not_eq_extremum [symmetric])
    then have lt: "?n < ?n + 1" using unat_Suc [of ?n "- 1"] by (simp add: word_less_nat_alt [of ?n "?n + 1"])
    have old: "\<And>j. j < N_SESSIONS \<Longrightarrow> ?l ! j < ?n" "\<And>j k. j < N_SESSIONS \<Longrightarrow> k < N_SESSIONS \<Longrightarrow> ?l ! j = ?l ! k \<Longrightarrow>
        ?l ! j \<noteq> 0 \<Longrightarrow> j = k"
      using assms(1) n(1) by (auto simp: serials_ok_def)
    have ne: "?l ! j \<noteq> ?n" "?n \<noteq> ?l ! j" if "j < N_SESSIONS" for j using old(1) [OF that] by auto
    show ?thesis
    proof (intro conjI allI impI)
      fix j assume "j < N_SESSIONS"
      then show "os_slot_serial m' ! j < os_next_session_serial m'"
        using old(1) [of j] lt i l(1) by (cases "j = i") (auto simp: m'(1) n(2))
    next
      fix j k assume "j < N_SESSIONS" "k < N_SESSIONS" "os_slot_serial m' ! j = os_slot_serial m' ! k"
        "os_slot_serial m' ! j \<noteq> 0"
      then show "j = k"
        using old(2) [of j k] ne [of j] ne [of k] i l(1) by (cases "j = i"; cases "k = i") (auto simp: m'(1))
    qed
  qed
  moreover have "(os_slot_serial m' ! j = 0) = ((ss[i := Some s]) ! j = None)" if "j < N_SESSIONS" for j
    using l i assms(2) that by (simp add: m'(1) nth_list_update)
  ultimately show ?thesis unfolding serials_ok_def using nz l(1) m'(1) by simp
qed

lemma session_removed_serials:
  assumes "serials_ok ss m" "length ss = N_SESSIONS" "session_removed i m = Some m'"
  shows "serials_ok (ss[i := None]) m'"
  using assms by (auto simp: serials_ok_def session_removed_def nth_list_update word_gt_0 split: if_splits)

lemma all_removed_serials: "serials_ok ss m \<Longrightarrow> serials_ok (replicate N_SESSIONS None) (all_sessions_removed m)"
  by (auto simp: serials_ok_def all_sessions_removed_def word_neq_0_conv)

lemma ring_ok_empty: "ring_ok (replicate N_SESSIONS None)"
  by (simp add: ring_ok_def)

lemma session_stored_ok:
  assumes "tunn_ok W t" "session_ok s" "session_stored (session_local_index s mod N_SESSIONS) (tn_meta t) = Some m"
  shows "tunn_ok W (t\<lparr> tn_sessions := (tn_sessions t)[session_local_index s mod N_SESSIONS := Some s], tn_meta := m \<rparr>)"
proof -
  have l: "length (tn_sessions t) = N_SESSIONS" using assms(1) by (simp add: tunn_ok_def ring_ok_def)
  show ?thesis using assms(1) ring_ok_update [OF _ slot_less refl assms(2)] session_stored_serials [OF _ l assms(3)]
    by (simp add: tunn_ok_def)
qed

lemma session_established_ok:
  assumes "tunn_ok W t"
  shows "tunn_ok W (timer_tick_session_established W' initiator i t)"
proof -
  let ?t = "timer_tick W' TimeSessionEstablished t"
  let ?tm = "(tn_timers ?t)\<lparr> tm_session_timers := (tm_session_timers (tn_timers ?t))[i mod N_SESSIONS := tm_timers (tn_timers ?t) TimeCurrent],
      tm_is_initiator := initiator \<rparr>"
  have "tunn_ok W ?t" using assms by simp
  moreover have "clocks_ok ?tm" if "clocks_ok (tn_timers ?t)"
    using that by (auto simp: clocks_ok_def dest!: set_update_subset_insert [THEN subsetD])
  ultimately have 1: "tunn_ok W (?t\<lparr> tn_timers := ?tm, tn_pending := None \<rparr>)" by (simp add: tunn_ok_def)
  then show ?thesis
    by (simp add: timer_tick_session_established_def Let_def case_prod_beta set_rng_def)
      (simp add: tunn_ok_def clocks_ok_def)
qed

lemma set_current_session_ok [simp]: "tunn_ok W (set_current_session i t) = tunn_ok W t"
  by (simp add: set_current_session_def Let_def)

lemma validate_ok: "tunn_ok W t \<Longrightarrow> tunn_ok W (snd (validate_decapsulated_packet W' p t))"
  by (simp add: validate_decapsulated_packet_def Let_def split: list.splits option.splits ip_addr.splits)

lemma commit_initiation_frame:
  assumes "commit_initiation C R eph ini dst slot h = Some (r, h')"
  shows "hs_params h' = hs_params h" "r = Ok (packet, s) \<Longrightarrow> session_ok s"
  using assms by (auto simp: commit_initiation_def format_handshake_response_def Let_def case_prod_beta
      append_mac_simps inc_index_avoiding_frame session_new_ok split: if_splits)

lemma commit_handshake_init_ok:
  assumes ok: "tunn_ok W t" and c: "commit_handshake_init W k ini dst budget t = Some (r, t')"
  shows "tunn_ok W t'"
proof -
  obtain r1 h where h: "commit_initiation (w_crypto W) (w_rng W) (at_eph k) ini (length dst) (selected_slot t)
      (tn_handshake t) = Some (r1, h)"
    using c by (auto simp: commit_handshake_init_def Let_def split: bind_splits)
  note f = commit_initiation_frame [OF h]
  have ok1: "tunn_ok W (t\<lparr> tn_handshake := h \<rparr>)" using ok f(1) by (simp add: tunn_ok_handshake)
  show ?thesis
  proof (cases r1)
    case (Inl e)
    then show ?thesis using c h ok1 by (auto simp: commit_handshake_init_def Let_def)
  next
    case (Inr ps)
    obtain packet s where ps: "ps = (packet, s)" by fastforce
    let ?i = "session_local_index s"
    obtain m where m: "session_stored (?i mod N_SESSIONS) (tn_meta t) = Some m"
      using c h Inr ps by (auto simp: commit_handshake_init_def Let_def split: bind_splits)
    let ?t = "(t\<lparr> tn_handshake := h \<rparr>)\<lparr> tn_sessions := (tn_sessions t)[?i mod N_SESSIONS := Some s], tn_meta := m \<rparr>"
    have "tunn_ok W ?t" using session_stored_ok [OF ok1, of s m] f(2) Inr ps m by simp
    then have ok2: "tunn_ok W (timer_tick_session_established W False ?i
        (timer_tick W TimeLastPacketSent (timer_tick W TimeLastPacketReceived ?t)))"
      by (intro session_established_ok tunn_ok_tick)
    show ?thesis using c h Inr ps m kept_ok [OF kept_write(3) ok2]
      by (auto simp: commit_handshake_init_def Let_def split: bind_splits)
  qed
qed


lemma commit_response_frame:
  "hs_params (snd (commit_response response h)) = hs_params h" "hs_obf (snd (commit_response response h)) = hs_obf h"
  "fst (commit_response response h) = ar_session response"
  by (simp_all add: commit_response_def Let_def)

lemma commit_handshake_response_ok:
  assumes ok: "tunn_ok W t" "session_ok (ar_session response)"
    and c: "commit_handshake_response W response dst budget t = Some (r, t')"
  shows "tunn_ok W t'"
proof -
  define t1 where "t1 = t\<lparr> tn_handshake := snd (commit_response response (tn_handshake t)),
    tn_udp_window := grown_window (tn_udp_window t) (transport_window_observation (tn_amnezia t) 0) \<rparr>"
  define pg where "pg = content_padding_for_frame (w_rng W) (tn_amnezia t1) 0 (budget_ceiling (length dst) (ob_transport budget))
    (transport_junk_size (tn_amnezia t)) (tn_udp_window t1) (tn_rng t1)"
  define f where "f = format_packet_data (w_crypto W) (w_rng W) (hs_obf (tn_handshake t1)) (snd pg) (ar_session response) []
    (fst pg) (length dst)"
  define t2 where "t2 = set_rng (snd (snd f)) t1"
  define s where "s = fst (snd f)"
  have s: "session_ok s"
    using format_packet_data_continues [of "ar_session response" "w_crypto W" "w_rng W" "hs_obf (tn_handshake t1)" "snd pg" "[]"
        "fst pg" "length dst"] ok(2)
    by (simp add: s_def f_def continues_def)
  have ok2: "tunn_ok W t2" using ok(1) by (simp add: t2_def t1_def tunn_ok_def set_rng_def commit_response_frame)
  let ?store = "\<lambda>m. t2\<lparr> tn_sessions := (tn_sessions t2)[session_local_index s mod N_SESSIONS := Some s], tn_meta := m \<rparr>"
  let ?est = "\<lambda>m. timer_tick W TimeLastPacketSent (set_current_session (session_local_index s)
    (timer_tick_session_established W True (session_local_index s mod N_SESSIONS)
      (timer_tick W TimeLastPacketReceived (?store m))))"
  consider "t' = t2"
    | packet m t3 where "session_stored (session_local_index s mod N_SESSIONS) (tn_meta t2) = Some m"
        "write_to_network W (into_dst packet dst) (length packet) (?est m) = Some (r, t3)"
        "t' = note_output OpTransportKeepalive r t3"
    using c by (auto simp: commit_handshake_response_def Let_def case_prod_beta commit_response_frame(3)
        t1_def [symmetric] pg_def [symmetric] f_def [symmetric] t2_def [symmetric] s_def [symmetric]
        split: sum.splits bind_splits)
  then show ?thesis
  proof cases
    case (2 packet m t3)
    have "tunn_ok W (?est m)"
      using session_stored_ok [OF ok2 s 2(1)] by (simp add: session_established_ok)
    then show ?thesis using kept_ok [OF kept_write(2) [OF 2(2)]] 2(3) by simp
  qed (use ok2 in simp)
qed

lemma commit_cookie_reply_ok: "tunn_ok W t \<Longrightarrow> tunn_ok W (snd (commit_cookie_reply W' cookie t))"
  by (simp add: commit_cookie_reply_def commit_cookie_def tunn_ok_handshake)

lemma commit_data_ok: "tunn_ok W t \<Longrightarrow> tunn_ok W (snd (commit_data W' i p t))"
  by (simp add: commit_data_def Let_def validate_ok)

lemma note_input_ok [simp]: "tunn_ok W (t\<lparr> tn_meta := note_input kind acc (tn_meta t) \<rparr>) = tunn_ok W t"
  by (rule tunn_ok_meta) (simp_all add: note_input_def os_note_def Let_def)

lemma commit_with_budget_ok:
  assumes "tunn_ok W t" "token_ok packet" "commit_with_budget W k packet dst budget t = Some (r, t')"
  shows "tunn_ok W t'"
proof -
  let ?t = "t\<lparr> tn_meta := note_input (input_kind_of packet) (authenticated_kind_of packet) (tn_meta t) \<rparr>"
  have ok: "tunn_ok W ?t" using assms(1) by simp
  show ?thesis
  proof (cases packet)
    case (AuthInit a)
    then show ?thesis using assms(3) commit_handshake_init_ok [OF ok] by (simp add: commit_with_budget_def Let_def)
  next
    case (AuthResponse a)
    then show ?thesis using assms(2,3) commit_handshake_response_ok [OF ok] by (simp add: commit_with_budget_def Let_def)
  next
    case (AuthCookie a)
    then show ?thesis using assms(3) commit_cookie_reply_ok [OF ok, of W a] by (auto simp: commit_with_budget_def Let_def)
  next
    case (AuthData i p)
    then show ?thesis using assms(3) commit_data_ok [OF ok, of W i p] by (auto simp: commit_with_budget_def Let_def)
  qed
qed

lemma learn_imitation_frame:
  "learn_imitation datagram hint0 t = t\<lparr> tn_auto_imitation := tn_auto_imitation (learn_imitation datagram hint0 t) \<rparr>"
  by (simp add: learn_imitation_def Let_def split: option.splits)

lemma learn_imitation_ok [simp]: "tunn_ok W (learn_imitation datagram hint0 t) = tunn_ok W t"
  by (subst learn_imitation_frame) simp

lemma commit_with_imitation_ok:
  assumes "tunn_ok W t" "token_ok packet"
    "commit_with_imitation_and_budget W k packet datagram hint0 dst budget t = Some (r, t')"
  shows "tunn_ok W t'"
proof -
  define t1 where "t1 = (if (im_protocol (cfg_imitation (tn_amnezia t)) = ImAuto \<and> is_auth_init packet) \<and>
      ai_learned (tn_auto_imitation t) = None then learn_imitation datagram hint0 t else t)"
  have "tunn_ok W t1" using assms(1) by (simp add: t1_def)
  then have "tunn_ok W t2" if "commit_with_budget W k packet dst budget t1 = Some (r1, t2)" for r1 t2
    using commit_with_budget_ok [OF _ assms(2) that] by simp
  moreover from assms(3) have "t' = t \<or> (\<exists>r1 t2. commit_with_budget W k packet dst budget t1 = Some (r1, t2) \<and>
      t' = t2\<lparr> tn_auto_imitation := tn_auto_imitation t' \<rparr>)"
    unfolding commit_with_imitation_and_budget_def Let_def t1_def [symmetric]
    by (cases "commit_with_budget W k packet dst budget t1") (auto simp del: tunn_ok_fields split: if_split_asm)
  ultimately show ?thesis using assms(1) by (metis tunn_ok_fields(2))
qed

lemma answer_cookie_ok:
  assumes "tunn_ok W t" "answer_cookie W k src datagram demand0 dst t = Some (r, t')"
  shows "tunn_ok W t'"
proof -
  define f where "f = format_cookie_demand (w_crypto W) (w_rng W) (hs_obf (tn_handshake t)) (tn_rng t) demand0
            COOKIE_REPLY_SZ (tn_rate_limiter t)"
  define t1 where "t1 = (set_rng (fst (snd f)) t)\<lparr> tn_rate_limiter := snd (snd f) \<rparr>"
  have ok: "tunn_ok W t1" using assms(1) by (simp add: t1_def)
  then have "tunn_ok W t2" if "write_to_network_with_imitation W b n room p t1 = Some (r1, t2)" for b n room p r1 t2
    using kept_ok [OF kept_write(1) [OF that]] by simp
  then show ?thesis using assms(2) ok
    by (auto simp: answer_cookie_def Let_def f_def [symmetric] case_prod_beta t1_def [symmetric]
        split: sum.splits if_splits bind_splits)
qed

text \<open>
  A datagram that is not the empty one is taken for evidence of a protocol, or goes through the receive
  loop, whose verdict is then carried out.
\<close>

definition carry_out ::
  "'g world \<Rightarrow> call \<Rightarrow> source option \<Rightarrow> bytes \<Rightarrow> bytes \<Rightarrow> output_budget \<Rightarrow> authenticated inbound \<Rightarrow> 'g tunn
    \<Rightarrow> (tunn_result \<times> 'g tunn) option" where
  "carry_out W k src datagram dst budget out t =
     (let src_addr = map_option source_address src in
      case out of
        Accepted packet \<Rightarrow> commit_with_imitation_and_budget W k packet datagram
          (auto_hint (at_now k) src_addr (tn_auto_imitation t)) dst budget t
      | NotOurs \<Rightarrow> Some (TrErr InvalidPacket, t)
      | Refused e hint_allowed \<Rightarrow> Some (TrErr e,
          if im_protocol (cfg_imitation (tn_amnezia t)) = ImAuto \<and> hint_allowed
          then t\<lparr> tn_auto_imitation := snd (auto_observe (at_now k) src_addr datagram (tn_auto_imitation t)) \<rparr>
          else t)
      | InCookie demand0 \<Rightarrow> answer_cookie W k src_addr datagram demand0 dst t)"

lemma authenticate_frame:
  "tn_amnezia (snd (authenticate_with_budget W k n budget p t)) = tn_amnezia t"
  by (simp add: authenticate_with_budget_def Let_def case_prod_beta split: packet.splits option.splits)

lemma receive_config:
  assumes "receive C SC now c obf src candidates datagram (authenticate_with_budget W k n budget) l t = (out, l', t')"
  shows "tn_amnezia t' = tn_amnezia t"
proof (cases out)
  case (Accepted x)
  then obtain p where "authenticate_with_budget W k n budget p t = (Inr x, t')"
    using tunnel_trial.receive_decides [OF assms] by auto
  then show ?thesis using authenticate_frame [of W k n budget p t] by simp
qed (use tunnel_trial.receive_decides [OF assms] in auto)

lemma decapsulate_source_cases:
  assumes "datagram \<noteq> []"
  obtains a where "decapsulate_source W k src datagram dst budget t = Some (TrDone, t\<lparr> tn_auto_imitation := a \<rparr>)"
  | a out l t1 where
      "receive (w_crypto W) (w_cipher W) (gate_clock_of k) (tn_amnezia t) (hs_obf (tn_handshake t)) src
         (inbound_candidates (w_cipher W) (tn_amnezia t) (hs_obf (tn_handshake t)) datagram) datagram
         (authenticate_with_budget W k (length dst) budget) (tn_rate_limiter t) (t\<lparr> tn_auto_imitation := a \<rparr>) = (out, l, t1)"
      "decapsulate_source W k src datagram dst budget t = carry_out W k src datagram dst budget out (t1\<lparr> tn_rate_limiter := l \<rparr>)"
proof -
  define cands where "cands = inbound_candidates (w_cipher W) (tn_amnezia t) (hs_obf (tn_handshake t)) datagram"
  define auto where "auto = (im_protocol (cfg_imitation (tn_amnezia t)) = ImAuto)"
  define o0 where "o0 = auto_observe (at_now k) (map_option source_address src) datagram (tn_auto_imitation t)"
  define a where "a = (if candidates_iter cands = [] \<and> auto then snd o0 else tn_auto_imitation t)"
  define seen where "seen = (candidates_iter cands = [] \<and> auto \<and> fst o0)"
  have ob: "(if candidates_iter cands = [] \<and> auto then (fst o0, t\<lparr> tn_auto_imitation := snd o0 \<rparr>) else (False, t)) =
      (seen, t\<lparr> tn_auto_imitation := a \<rparr>)"
    by (auto simp: a_def seen_def)
  obtain out l t1 where rc: "receive (w_crypto W) (w_cipher W) (gate_clock_of k) (tn_amnezia t) (hs_obf (tn_handshake t)) src
      cands datagram (authenticate_with_budget W k (length dst) budget) (tn_rate_limiter t) (t\<lparr> tn_auto_imitation := a \<rparr>) =
      (out, l, t1)"
    by (metis surj_pair)
  have am: "tn_amnezia t1 = tn_amnezia t" using receive_config [OF rc] by simp
  have "decapsulate_source W k src datagram dst budget t =
    (if seen then Some (TrDone, t\<lparr> tn_auto_imitation := a \<rparr>)
     else carry_out W k src datagram dst budget out (t1\<lparr> tn_rate_limiter := l \<rparr>))"
    using assms rc am unfolding decapsulate_source_def carry_out_def cands_def [symmetric] Let_def auto_def [symmetric]
      o0_def [symmetric] case_prod_beta ob
    by (cases out) (simp_all add: auto_def)
  then show thesis using that rc unfolding cands_def by (cases seen) auto
qed

lemma carry_out_ok:
  assumes "tunn_ok W t" "\<And>a. out = Accepted a \<Longrightarrow> token_ok a" "carry_out W k src datagram dst budget out t = Some (r, t')"
  shows "tunn_ok W t'"
proof (cases out)
  case (Accepted a)
  then show ?thesis using assms commit_with_imitation_ok [OF assms(1)] by (simp add: carry_out_def Let_def)
next
  case (InCookie d)
  then show ?thesis using assms(3) answer_cookie_ok [OF assms(1)] by (simp add: carry_out_def Let_def)
qed (use assms in \<open>auto simp: carry_out_def Let_def\<close>)

lemma decapsulate_source_ok:
  assumes ok: "tunn_ok W t" and d: "decapsulate_source W k src datagram dst budget t = Some (r, t')"
  shows "tunn_ok W t'"
proof (cases "datagram = []")
  case True
  then show ?thesis using ok d send_queued_packet_ok by (auto simp: decapsulate_source_def Let_def)
next
  case False
  from decapsulate_source_cases [OF False, of W k src dst budget t] show ?thesis
  proof cases
    case (1 a)
    then show ?thesis using ok d by auto
  next
    case (2 a out l t1)
    have "tunn_ok W (t\<lparr> tn_auto_imitation := a \<rparr>)" using ok by simp
    note rc = receive_ok [OF this 2(1)]
    have "tunn_ok W (t1\<lparr> tn_rate_limiter := l \<rparr>)" using rc(1) by simp
    from carry_out_ok [OF this rc(2)] show ?thesis using d 2(2) by simp
  qed
qed


section \<open>The periodic poll\<close>

lemma clocks_ok_clear [simp]: "clocks_ok tm \<Longrightarrow> clocks_ok (timers_clear now tm)"
  by (auto simp: clocks_ok_def timers_clear_def Let_def intro: order.trans)

lemma expire_cycle_ok: "tunn_ok W t \<Longrightarrow> tunn_ok W (expire_cycle k t)"
  by (simp add: expire_cycle_def) (auto simp: clear_all_def set_expired_def tunn_ok_def ring_ok_empty intro: all_removed_serials)

lemma age_session_ok:
  assumes "tunn_ok W t" "i < N_SESSIONS" "now = tm_timers (tn_timers t) TimeCurrent" "age_session after now i t = Some t'"
  shows "tunn_ok W t'" "tm_timers (tn_timers t') = tm_timers (tn_timers t)"
proof -
  let ?set = "\<lambda>tm. tm\<lparr> tm_session_timers := (tm_session_timers tm)[i := now] \<rparr>"
  have clk: "clocks_ok (?set (tn_timers t))"
    using assms(1,3) by (auto simp: tunn_ok_def clocks_ok_def dest!: set_update_subset_insert [THEN subsetD])
  have l: "length (tn_sessions t) = N_SESSIONS" using assms(1) by (simp add: tunn_ok_def ring_ok_def)
  have ring: "ring_ok ((tn_sessions t)[i := None])"
    using assms(1,2) by (auto simp: tunn_ok_def ring_ok_def nth_list_update split: if_splits)
  have "tunn_ok W t' \<and> tm_timers (tn_timers t') = tm_timers (tn_timers t)"
    using assms(1,4) clk ring session_removed_serials [OF _ l, of "tn_meta t" i]
    by (auto simp: age_session_def Let_def tunn_ok_def note_event_def os_note_def serials_ok_def split: if_splits bind_splits)
  then show "tunn_ok W t'" "tm_timers (tn_timers t') = tm_timers (tn_timers t)" by simp_all
qed

lemma age_sessions_ok:
  assumes "tunn_ok W t" "set is \<subseteq> {0..<N_SESSIONS}" "now = tm_timers (tn_timers t) TimeCurrent"
    "age_sessions after now is t = Some t'"
  shows "tunn_ok W t' \<and> tm_timers (tn_timers t') = tm_timers (tn_timers t)"
  using assms
proof (induction "is" arbitrary: t)
  case (Cons i js)
  from Cons.prems(4) obtain t1 where t1: "age_session after now i t = Some t1" "age_sessions after now js t1 = Some t'"
    by (auto split: bind_splits)
  have "i < N_SESSIONS" using Cons.prems(2) by simp
  note ok = age_session_ok [OF Cons.prems(1) this Cons.prems(3) t1(1)]
  show ?case using Cons.IH [OF ok(1) _ _ t1(2)] ok(2) Cons.prems(2,3) by simp
qed simp

lemma update_session_timers_ok:
  assumes "tunn_ok W t" "update_session_timers (tm_timers (tn_timers t) TimeCurrent) t = Some t'"
  shows "tunn_ok W t'" "tm_timers (tn_timers t') = tm_timers (tn_timers t)"
  using age_sessions_ok [OF assms(1) _ refl assms(2) [unfolded update_session_timers_def]] assms(1)
  by (auto simp: tunn_ok_def clocks_ok_def)

lemma expire_past_absolute_bounds_ok:
  "tunn_ok W t \<Longrightarrow> expire_past_absolute_bounds k now t = Some (b, t') \<Longrightarrow> tunn_ok W t'"
  by (auto simp: expire_past_absolute_bounds_def Let_def expire_cycle_ok split: if_splits bind_splits)

text \<open>A refused keepalive gives the timers back what selecting it took.\<close>

lemma encapsulate_time:
  assumes "tunn_ok W t" "encapsulate_with_budget W k src dst budget t = Some (r, t')"
  shows "tm_timers (tn_timers t) TimeCurrent \<le> tm_timers (tn_timers t') TimeCurrent"
proof -
  have "tm_timers (tn_timers t) TimeCurrent \<le> tm_timers (tn_timers t1) TimeCurrent"
    if "format_handshake_initiation_with_budget W k dst False budget t = Some (r1, t1)" for r1 t1
    using kept_format_initiation [OF that] by (simp add: kept_def)
  then show ?thesis using assms(2) encapsulate_on_session_ok(4) [OF assms(1)]
    by (auto simp: encapsulate_with_budget_def admit_without_session_def queue_packet_def note_event_def
        split: if_splits bind_splits prod.splits sum.splits)
qed

lemma send_keepalive_ok:
  assumes "tunn_ok W t" "rollback = (due, persistent, passive, interval)"
    "persistent \<le> tm_timers (tn_timers t) TimeCurrent"
    "send_keepalive W k dst rollback budget t = Some (r, t')"
  shows "tunn_ok W t'"
proof -
  obtain r1 t1 where e: "encapsulate_with_budget W k [] dst budget t = Some (r1, t1)"
    using assms(4) by (auto simp: send_keepalive_def split: bind_splits)
  have ok: "tunn_ok W t1" by (rule encapsulate_with_budget_ok [OF assms(1) e])
  have le: "persistent \<le> tm_timers (tn_timers t1) TimeCurrent" using encapsulate_time [OF assms(1) e] assms(3) by simp
  let ?t = "t1\<lparr> tn_timers := set_timer TimePersistentKeepalive persistent
    ((tn_timers t1)\<lparr> tm_persistent_keepalive_due := due, tm_want_keepalive := passive,
       tm_persistent_keepalive_current := interval \<rparr>) \<rparr>"
  have "tunn_ok W ?t" using ok le by (auto simp: tunn_ok_def clocks_ok_def set_timer_def)
  then show ?thesis using assms(2,4) e ok by (auto simp: send_keepalive_def Let_def split: if_splits)
qed

lemma select_demand_ok:
  assumes "tunn_ok W t" "select_demand W k now t = Some (d, t')"
  shows "tunn_ok W t'" "is_ok d \<Longrightarrow> tm_timers (tn_timers t') TimeCurrent = tm_timers (tn_timers t) TimeCurrent"
proof -
  have l: "tunn_ok W (snd (take_handshake_latch now t))"
    "tm_timers (tn_timers (snd (take_handshake_latch now t))) = tm_timers (tn_timers t)"
    using assms(1) by (auto simp: take_handshake_latch_def Let_def tunn_ok_timers split: option.splits)
  have p: "tunn_ok W (snd (take_passive_keepalive now t))"
    "tm_timers (tn_timers (snd (take_passive_keepalive now t))) = tm_timers (tn_timers t)" if "tunn_ok W t" for t :: "'a tunn"
    using that by (auto simp: take_passive_keepalive_def Let_def tunn_ok_timers split: option.splits)
  have q: "tunn_ok W (snd (take_persistent_keepalive W now t))"
    "tm_timers (tn_timers (snd (take_persistent_keepalive W now t))) TimeCurrent = tm_timers (tn_timers t) TimeCurrent"
    if "tunn_ok W t" for t :: "'a tunn"
    using that by (auto simp: take_persistent_keepalive_def Let_def tunn_ok_timers timer_tick_frame(3))
  have "tunn_ok W t' \<and> (is_ok d \<longrightarrow> tm_timers (tn_timers t') TimeCurrent = tm_timers (tn_timers t) TimeCurrent)"
    using assms l p q expire_cycle_ok [OF assms(1), of k]
    by (auto simp: select_demand_def Let_def case_prod_beta split: option.splits if_splits bind_splits)
  then show "tunn_ok W t'" "is_ok d \<Longrightarrow> tm_timers (tn_timers t') TimeCurrent = tm_timers (tn_timers t) TimeCurrent"
    by simp_all
qed

lemma serve_initiation_ok:
  assumes "tunn_ok W t" "serve_initiation W k dst latch budget t = Some (r, t')"
  shows "tunn_ok W t'"
proof -
  have "tunn_ok W t1" if "format_handshake_initiation_with_budget W k dst True budget t = Some (r1, t1)" for r1 t1
    using kept_ok [OF kept_format_initiation [OF that] assms(1)] .
  then show ?thesis using assms(2)
    by (auto simp: serve_initiation_def Let_def tunn_ok_timers split: bind_splits option.splits if_splits)
qed


lemma poll_ok:
  assumes ok: "tunn_ok W t" and rb: "rollback = (due, persistent, passive, interval)"
    "persistent \<le> tm_timers (tn_timers t) TimeCurrent"
    and p: "poll W k dst rollback budget now t = Some (r, t')"
  shows "tunn_ok W t'"
proof -
  have adv: "tunn_ok W t2" if "advance_amnezia_junk W k dst budget t1 = Some (r1, t2)" "tunn_ok W t1" for t1 t2 :: "'a tunn" and r1
    using kept_ok [OF kept_advance [OF that(1)] that(2)] .
  have exp: "tunn_ok W t2" if "expire_past_absolute_bounds k now t1 = Some (b, t2)" "tunn_ok W t1" for t1 t2 :: "'a tunn" and b
    using expire_past_absolute_bounds_ok [OF that(2,1)] .
  show ?thesis
  proof (cases "burst_owes_expired_reset t")
    case True
    then show ?thesis using p ok adv by (simp add: poll_def)
  next
    case nb: False
    show ?thesis
    proof (cases "tn_pending t = None")
      case False
      then show ?thesis using p ok adv exp nb by (auto simp: poll_def split: bind_splits if_splits)
    next
      case np: True
      show ?thesis
      proof (cases "hs_is_expired (tn_handshake t)")
        case True
        let ?t = "timer_tick W TimePersistentKeepalive (t\<lparr> tn_timers := (tn_timers t)\<lparr> tm_persistent_keepalive_due := False \<rparr> \<rparr>)"
        have "tunn_ok W ?t" using ok by (simp add: tunn_ok_timers)
        from send_keepalive_ok [OF this rb(1)] show ?thesis
          using p ok rb nb np True by (auto simp: poll_def Let_def timer_tick_frame(3) split: if_splits)
      next
        case live: False
        define cookie where "cookie = (if has_cookie (tn_handshake t) then do {
               age \<leftarrow> duration_minus now (tm_timers (tn_timers t) TimeCookieReceived);
               Some (if age \<ge> COOKIE_EXPIRATION_TIME then t\<lparr> tn_handshake := clear_cookie (tn_handshake t) \<rparr> else t) }
             else Some t)"
        obtain t1 b t2 where t1: "cookie = Some t1" and t2: "expire_past_absolute_bounds k now t1 = Some (b, t2)"
          and rest: "(if b then Some (TrErr ConnectionExpired, t2)
         else do {
           (d, t) \<leftarrow> select_demand W k now t2;
           (case d of
              Inl _ \<Rightarrow> Some (TrErr ConnectionExpired, t)
            | Inr (WantInitiation latch) \<Rightarrow> serve_initiation W k dst latch budget t
            | Inr WantKeepalive \<Rightarrow> send_keepalive W k dst rollback budget t
            | Inr NoDemand \<Rightarrow> Some (TrDone, t)) }) = Some (r, t')"
          using p nb np live unfolding poll_def cookie_def [symmetric] by (auto split: bind_splits)
        have ok1: "tunn_ok W t1" "tn_timers t1 = tn_timers t"
          using t1 ok unfolding cookie_def by (auto simp: clear_cookie_def tunn_ok_handshake split: if_splits bind_splits)
        have ok2: "tunn_ok W t2" by (rule exp [OF t2 ok1(1)])
        show ?thesis
        proof (cases b)
          case True
          then show ?thesis using rest ok2 by simp
        next
          case False
          then have t2t1: "t2 = t1" using t2
            by (auto simp: expire_past_absolute_bounds_def Let_def split: if_splits bind_splits)
          obtain d t3 where d: "select_demand W k now t2 = Some (d, t3)" using rest False by (auto split: bind_splits)
          note ok3 = select_demand_ok [OF ok2 d]
          show ?thesis
          proof (cases d)
            case (Inr dem)
            have "persistent \<le> tm_timers (tn_timers t3) TimeCurrent" using ok3(2) Inr rb(2) ok1(2) t2t1 by simp
            then show ?thesis
              using rest False d Inr ok3(1) serve_initiation_ok [OF ok3(1)] send_keepalive_ok [OF ok3(1) rb(1)]
              by (auto split: demand.splits)
          qed (use rest False d ok3(1) in auto)
        qed
      qed
    qed
  qed
qed

lemma update_timers_with_budget_ok:
  assumes ok: "tunn_ok W t" and u: "update_timers_with_budget W k dst budget t = Some (r, t')"
  shows "tunn_ok W t'"
proof -
  define l where "l = (if tm_should_reset_rr (tn_timers t) then reset_count (at_now k) (tn_rate_limiter t) else tn_rate_limiter t)"
  define now where "now = monotonic_now (at_now k) (tn_timers t)"
  define t1 where "t1 = t\<lparr> tn_rate_limiter := l, tn_timers := set_timer TimeCurrent now (tn_timers t) \<rparr>"
  have le: "tm_timers (tn_timers t) TimeCurrent \<le> now" by (simp add: now_def monotonic_now_def)
  have ok1: "tunn_ok W t1" "tm_timers (tn_timers t1) TimeCurrent = now"
    using ok le by (auto simp: t1_def tunn_ok_def clocks_ok_def set_timer_def intro: order.trans)
  obtain t2 where t2: "update_session_timers now t1 = Some t2"
    and p: "poll W k dst (keepalive_rollback_of t) budget now t2 = Some (r, t')"
    using u by (auto simp: update_timers_with_budget_def Let_def l_def now_def t1_def split: bind_splits if_splits)
  note ok2 = update_session_timers_ok [OF ok1(1), unfolded ok1(2), OF t2]
  show ?thesis
    by (rule poll_ok [OF ok2(1) _ _ p, OF keepalive_rollback_of_def [unfolded Let_def]])
      (use ok ok2(2) ok1(2) le in \<open>auto simp: tunn_ok_def clocks_ok_def intro: order.trans\<close>)
qed


section \<open>Construction and reconfiguration\<close>

lemma clocks_ok_new: "clocks_ok (timers_new now seed ka reset)"
  by (simp add: timers_new_def clocks_ok_def Let_def)

lemma serials_ok_default: "serials_ok (replicate N_SESSIONS None) op_state_default"
  by (simp add: serials_ok_def op_state_default_def)

lemma handshake_new_params:
  "handshake_new C sk (x25519_public C sk) ppk idx psk obf seed ts = Ok h \<Longrightarrow> params_ok C (hs_params h)"
  by (auto simp: handshake_new_def and_then_Inr_iff noise_params_new_ok)

lemma new_with_obfuscation_ok:
  assumes "new_with_obfuscation W k ls seed jseed ts sk ppk psk ka index limiter obf amnezia = Ok t" "config_wf amnezia"
  shows "tunn_ok W t"
  using assms handshake_new_params
  by (auto simp: new_with_obfuscation_def Let_def tunn_ok_def ring_ok_empty serials_ok_default clocks_ok_new split: sum.splits)

lemma removed_sessions_ok:
  "tunn_ok W t \<Longrightarrow> tunn_ok W (t\<lparr> tn_sessions := replicate N_SESSIONS None, tn_meta := all_sessions_removed (tn_meta t) \<rparr>)"
  by (auto simp: tunn_ok_def ring_ok_empty intro: all_removed_serials)

lemma tunn_set_static_private_ok:
  assumes "tunn_ok W t" "tunn_set_static_private W k ls sk pk limiter t = Some t'"
  shows "tunn_ok W t'"
proof -
  obtain h where h: "hs_set_static_private (w_crypto W) sk pk (tn_handshake t) = Some h"
    and t': "t' = t\<lparr> tn_timers := (tn_timers t)\<lparr> tm_should_reset_rr := (limiter = None) \<rparr>,
      tn_rate_limiter := limiter_or_own W k ls pk limiter, tn_handshake := h, tn_auto_imitation := auto_default,
      tn_sessions := replicate N_SESSIONS None, tn_meta := all_sessions_removed (tn_meta t) \<rparr>"
    using assms(2) by (auto simp: tunn_set_static_private_def split: bind_splits)
  have "params_ok (w_crypto W) (hs_params h)"
    using h assms(1) noise_params_set_static_private_ok by (auto simp: hs_set_static_private_def tunn_ok_def)
  then show ?thesis using assms(1) unfolding t'
    by (auto simp: tunn_ok_def ring_ok_empty clocks_ok_def intro: all_removed_serials)
qed

lemma new_burst_kept: "new_pre_handshake_burst W last0 reset t = Some (b, t') \<Longrightarrow> tunn_ok W t \<Longrightarrow> tunn_ok W t'"
  by (rule kept_ok [OF kept_new_burst])

lemma restart_pending_burst_ok:
  "tunn_ok W t \<Longrightarrow> restart_pending_burst W t = Some t' \<Longrightarrow> tunn_ok W t'"
  by (auto simp: restart_pending_burst_def dest!: new_burst_kept split: option.splits bind_splits)

lemma redraw_tunable_timers_ok: "tunn_ok W t \<Longrightarrow> tunn_ok W (redraw_tunable_timers W' t)"
  by (simp add: redraw_tunable_timers_def Let_def case_prod_beta tunn_ok_timers set_rng_def tunn_ok_handshake)

lemma apply_obfuscation_ok:
  assumes "tunn_ok W t" "config_wf amnezia" "apply_obfuscation W obf amnezia t = Some t'"
  shows "tunn_ok W t'"
proof -
  define t1 where "t1 = carry_imitation obf amnezia t"
  have "t1 = t\<lparr> tn_auto_imitation := tn_auto_imitation t1 \<rparr>"
    by (simp add: t1_def carry_imitation_def Let_def split: option.splits)
  then have "tunn_ok W t1" using assms(1) by (metis tunn_ok_fields(2))
  then have 2: "tunn_ok W (t1\<lparr> tn_handshake := hs_set_obfuscation obf (tn_handshake t1), tn_amnezia := amnezia \<rparr>)"
    using assms(2) by (simp add: tunn_ok_def hs_set_obfuscation_def)
  show ?thesis
    using assms(3) 2 restart_pending_burst_ok [OF 2] redraw_tunable_timers_ok
    unfolding apply_obfuscation_def Let_def t1_def [symmetric]
    by (auto split: if_splits bind_splits)
qed

lemma keepalive_range_ok:
  "tunn_ok W (t\<lparr> tn_timers := timers_set_persistent_keepalive_range J r (tn_timers t) \<rparr>) = tunn_ok W t"
  by (rule tunn_ok_timers) (simp_all add: timers_set_persistent_keepalive_range_def Let_def)

lemma set_preshared_key_ok: "tunn_ok W t \<Longrightarrow> tunn_ok W (tunn_set_preshared_key psk t)"
proof -
  assume "tunn_ok W t"
  then have "tunn_ok W (t\<lparr> tn_handshake := hs_set_preshared_key psk (tn_handshake t) \<rparr>)"
    by (simp add: tunn_ok_def hs_set_preshared_key_def params_ok_def)
  then show ?thesis using removed_sessions_ok by (fastforce simp: tunn_set_preshared_key_def Let_def)
qed

lemma set_mtu_ok: "tunn_ok W t \<Longrightarrow> tunn_ok W (set_content_padding_mtu mtu t)"
  by (simp add: set_content_padding_mtu_def tunn_ok_def config_wf_def)

lemma take_receive_input_ok [simp]:
  "tunn_ok W (t\<lparr> tn_meta := snd (take_receive_input (tn_meta t)) \<rparr>) = tunn_ok W t"
  "tunn_ok W (t\<lparr> tn_meta := begin_receive (tn_meta t) \<rparr>) = tunn_ok W t"
  by (rule tunn_ok_meta; simp add: take_receive_input_def begin_receive_def)+

lemma decapsulate_from_with_metadata_ok:
  assumes "tunn_ok W t" "decapsulate_from_with_metadata W k src datagram dst t = Some (r, t')"
  shows "tunn_ok W t'"
proof (cases "datagram = []")
  case False
  let ?t = "t\<lparr> tn_meta := begin_receive (tn_meta t) \<rparr>"
  obtain r1 t1 where d: "decapsulate_source W k (map_option SrcEndpoint src) datagram dst budget_UNBOUNDED ?t = Some (r1, t1)"
    and t': "t' = t1\<lparr> tn_meta := snd (take_receive_input (tn_meta t1)) \<rparr>"
    using assms(2) False by (auto simp: decapsulate_from_with_metadata_def case_prod_beta Let_def split: bind_splits)
  have "tunn_ok W t1" by (rule decapsulate_source_ok [OF _ d]) (use assms(1) in simp)
  then show ?thesis unfolding t' by simp
qed (use assms in \<open>simp add: decapsulate_from_with_metadata_def\<close>)


end
