(* ===== verification/Tunn_Total.thy ===== *)
theory Tunn_Total
  imports Tunn_Invariant
begin

text \<open>
  No operation of a tunnel panics. \<open>returns\<close> says that an operation comes back with a value; it has a
  rule for each construct the operations are written with (\<open>returning\<close>), and a lemma for each
  operation, from the framing of a packet up to a whole poll.

  Two things are relied on. Of the tunnel, its invariant: the serials have one entry per slot, no
  timer is ahead of the clock the durations are taken from, and the imitation's settings are those
  its constructor gives. Of the outside (\<open>world_ok\<close>), that a generator fills the bytes it is asked
  for, that the digests and header masks of the covers have their sizes, and that the name they give
  as software is short.
\<close>

section \<open>Operations that return\<close>

named_theorems returning

definition returns :: "'a option \<Rightarrow> bool" where
  "returns m \<longleftrightarrow> m \<noteq> None"

lemma returns_Some [returning]: "returns (Some x)"
  by (simp add: returns_def)

lemma returns_bind [returning]: "returns m \<Longrightarrow> (\<And>x. m = Some x \<Longrightarrow> returns (f x)) \<Longrightarrow> returns (m \<bind> f)"
  by (cases m) (auto simp: returns_def)

lemma returns_if [returning]: "(b \<Longrightarrow> returns x) \<Longrightarrow> (\<not> b \<Longrightarrow> returns y) \<Longrightarrow> returns (if b then x else y)"
  by simp

lemma returns_Let [returning]: "(\<And>y. y = x \<Longrightarrow> returns (f y)) \<Longrightarrow> returns (Let x f)"
  by simp

lemma returns_prod [returning]: "(\<And>a b. p = (a, b) \<Longrightarrow> returns (f a b)) \<Longrightarrow> returns (case p of (a, b) \<Rightarrow> f a b)"
  by (cases p) simp

lemma returns_sum [returning]:
  "(\<And>e. s = Inl e \<Longrightarrow> returns (f e)) \<Longrightarrow> (\<And>a. s = Inr a \<Longrightarrow> returns (g a)) \<Longrightarrow> returns (case s of Inl e \<Rightarrow> f e | Inr a \<Rightarrow> g a)"
  by (cases s) simp_all

lemma returns_option [returning]:
  "(m = None \<Longrightarrow> returns x) \<Longrightarrow> (\<And>a. m = Some a \<Longrightarrow> returns (f a)) \<Longrightarrow> returns (case m of None \<Rightarrow> x | Some a \<Rightarrow> f a)"
  by (cases m) simp_all

lemma returns_list [returning]:
  "(xs = [] \<Longrightarrow> returns x) \<Longrightarrow> (\<And>y ys. xs = y # ys \<Longrightarrow> returns (f y ys)) \<Longrightarrow> returns (case xs of [] \<Rightarrow> x | y # ys \<Rightarrow> f y ys)"
  by (cases xs) simp_all

lemma fills_returns: "fills n m \<Longrightarrow> returns m"
  by (auto simp: fills_def returns_def)

section \<open>Framing\<close>

lemma avoid_returns [returning]: "returns (avoid_upstream_control_collision n R C c obf framed junk_size canonical g)"
proof (induction n arbitrary: framed g)
  case (Suc n)
  show ?case by (simp only: avoid_upstream_control_collision.simps)
      (intro returning Suc.IH fills_returns [OF fill_outbound_junk_fills])
qed (simp add: returns_Some)

lemma prepend_returns [returning]: "returns (prepend_outbound_with_trailer R C c obf buffer n room g)"
  unfolding prepend_outbound_with_trailer_def
  by (intro returning fills_returns [OF fill_outbound_junk_fills])

lemma write_returns [returning]:
  "returns (write_to_network_with_imitation W dst n room protocol t)"
  "returns (write_to_network W dst n t)" "returns (write_handshake_to_network W dst n ceil t)"
  unfolding write_to_network_def write_handshake_to_network_def write_to_network_with_def write_to_network_with_imitation_def
  by (intro returning)+

lemma fill_junk_returns [returning]: "returns (fill_pre_handshake_junk_in R c buffer r g)"
  unfolding fill_pre_handshake_junk_in_def
  by (intro returning)
    (auto intro!: returning fills_returns [OF fill_dns_fills] fills_returns [OF fill_sip_fills]
      fills_returns [OF fill_stun_fills] fills_returns [OF fill_quic_initial_fills] split: imitation_protocol.splits)

section \<open>Producing\<close>

definition world_ok :: "'g world \<Rightarrow> bool" where
  "world_ok W \<longleftrightarrow> fills_exactly (w_rng W) \<and> quic_sizes (cv_quic (w_cover W)) \<and>
     (\<forall>k d. length (cv_hmac_sha1 (w_cover W) k d) = 20) \<and> length (cv_software (w_cover W)) \<le> 127"

lemma burst_returns [returning]:
  assumes "world_ok W" "config_wf (tn_amnezia t)"
  shows "returns (new_pre_handshake_burst W last0 reset t)"
proof -
  obtain p d b where c: "cfg_imitation (tn_amnezia t) = imitation_new p d b" using assms(2) by (auto simp: config_wf_def)
  have "returns (pre_handshake_imitation_datagrams (w_rng W) (w_cover W) (tn_amnezia t) g)" for g
    using burst_detected [of "w_rng W" "w_cover W" "tn_amnezia t" p d b g] assms(1) c by (auto simp: world_ok_def returns_def)
  then show ?thesis unfolding new_pre_handshake_burst_def by (intro returning)
qed

lemma initiation_now_returns [returning]:
  "returns (format_handshake_initiation_now_with_budget W k dst force reset budget t)"
  unfolding format_handshake_initiation_now_with_budget_def by (intro returning)

lemma advance_returns [returning]: "returns (advance_amnezia_junk W k dst budget t)"
  unfolding advance_amnezia_junk_def by (intro returning)

lemma initiation_returns [returning]:
  "world_ok W \<Longrightarrow> tunn_ok W t \<Longrightarrow> returns (format_handshake_initiation_with_budget W k dst force budget t)"
  unfolding format_handshake_initiation_with_budget_def
  by (intro returning) (auto simp: tunn_ok_def)

lemma on_session_returns [returning]: "returns (encapsulate_on_session W src dst budget t)"
  unfolding encapsulate_on_session_def by (intro returning)

lemma without_session_returns [returning]:
  "world_ok W \<Longrightarrow> tunn_ok W t \<Longrightarrow> returns (admit_without_session W k src dst budget t)"
  unfolding admit_without_session_def by (intro returning)

lemma encapsulate_returns [returning]:
  "world_ok W \<Longrightarrow> tunn_ok W t \<Longrightarrow> returns (encapsulate_with_budget W k src dst budget t)"
  unfolding encapsulate_with_budget_def by (intro returning)

lemma drain_returns [returning]: "returns (drain_queue n W dst budget t)"
proof (induction n arbitrary: t)
  case (Suc n)
  show ?case
    by (simp only: drain_queue.simps) (intro returning Suc.IH, auto intro: returning split: tunn_result.splits)
qed (simp add: returns_Some)

lemma send_queued_returns [returning]:
  "world_ok W \<Longrightarrow> tunn_ok W t \<Longrightarrow> returns (send_queued_packet W k dst budget t)"
  unfolding send_queued_packet_def by (intro returning)

section \<open>Receiving\<close>

lemma stored_returns [returning]: "tunn_ok W t \<Longrightarrow> returns (session_stored (i mod N_SESSIONS) (tn_meta t))"
  by (simp add: session_stored_def tunn_ok_def serials_ok_def returns_def)

lemma commit_initiation_comes_back [returning]: "returns (commit_initiation C R eph ini dst slot h)"
  using commit_initiation_returns [of C R eph ini dst slot h] by (simp add: returns_def)

lemma commit_init_returns [returning]:
  "tunn_ok W t \<Longrightarrow> returns (commit_handshake_init W k ini dst budget t)"
  unfolding commit_handshake_init_def
  by (intro returning) (auto simp: tunn_ok_handshake dest: commit_initiation_frame(1) intro: stored_returns)

lemma commit_response_returns [returning]:
  "tunn_ok W t \<Longrightarrow> returns (commit_handshake_response W response dst budget t)"
  unfolding commit_handshake_response_def
  by (intro returning) (auto simp: tunn_ok_handshake commit_response_def Let_def split: if_splits intro: stored_returns)

lemma commit_returns [returning]:
  "tunn_ok W t \<Longrightarrow> returns (commit_with_budget W k packet dst budget t)"
  unfolding commit_with_budget_def by (intro returning) (auto intro: returning split: authenticated.splits)

lemma commit_with_imitation_returns [returning]:
  "tunn_ok W t \<Longrightarrow> returns (commit_with_imitation_and_budget W k packet datagram hint0 dst budget t)"
  unfolding commit_with_imitation_and_budget_def by (intro returning) auto

lemma answer_cookie_returns [returning]: "returns (answer_cookie W k src datagram demand0 dst t)"
  unfolding answer_cookie_def by (intro returning)

lemma carry_out_returns: "tunn_ok W t \<Longrightarrow> returns (carry_out W k src datagram dst budget out t)"
  unfolding carry_out_def by (intro returning) (auto intro: returning split: inbound.splits)

lemma decapsulate_returns [returning]:
  assumes "world_ok W" "tunn_ok W t"
  shows "returns (decapsulate_source W k src datagram dst budget t)"
proof (cases "datagram = []")
  case True
  then show ?thesis using send_queued_returns [OF assms] by (simp add: decapsulate_source_def Let_def)
next
  case False
  from decapsulate_source_cases [OF False, of W k src dst budget t] show ?thesis
  proof cases
    case (2 a out l t1)
    have "tunn_ok W (t\<lparr> tn_auto_imitation := a \<rparr>)" using assms(2) by simp
    from receive_ok(1) [OF this 2(1)] show ?thesis using 2(2) by (auto intro: carry_out_returns)
  qed (simp add: returns_Some)
qed

lemma decapsulate_metadata_returns [returning]:
  "world_ok W \<Longrightarrow> tunn_ok W t \<Longrightarrow> returns (decapsulate_from_with_metadata W k src datagram dst t)"
  unfolding decapsulate_from_with_metadata_def by (intro returning) simp_all

section \<open>The periodic poll\<close>

lemma minus_returns [returning]: "b \<le> a \<Longrightarrow> returns (duration_minus a b)"
  by (simp add: duration_minus_def returns_def)

lemma past_le: "tunn_ok W t \<Longrightarrow> tm_timers (tn_timers t) TimeCurrent \<le> now \<Longrightarrow> tm_timers (tn_timers t) n \<le> now"
  by (auto simp: tunn_ok_def clocks_ok_def intro: order.trans)

lemma age_session_returns [returning]:
  "tunn_ok W t \<Longrightarrow> i < N_SESSIONS \<Longrightarrow> returns (age_session after now i t)"
  unfolding age_session_def
  by (intro returning) (auto simp: session_removed_def returns_def tunn_ok_def serials_ok_def)

lemma age_sessions_returns [returning]:
  assumes "tunn_ok W t" "set is \<subseteq> {0..<N_SESSIONS}" "now = tm_timers (tn_timers t) TimeCurrent"
  shows "returns (age_sessions after now is t)"
  using assms
proof (induction "is" arbitrary: t)
  case (Cons i js)
  have i: "i < N_SESSIONS" using Cons.prems(2) by simp
  show ?case
    unfolding age_sessions.simps
  proof (rule returns_bind [OF age_session_returns [OF Cons.prems(1) i]])
    fix t1
    assume "age_session after now i t = Some t1"
    from age_session_ok [OF Cons.prems(1) i Cons.prems(3) this] show "returns (age_sessions after now js t1)"
      using Cons.IH [of t1] Cons.prems(2,3) by simp
  qed
qed (simp add: returns_Some)

lemma update_session_timers_returns [returning]:
  "tunn_ok W t \<Longrightarrow> now = tm_timers (tn_timers t) TimeCurrent \<Longrightarrow> returns (update_session_timers now t)"
  unfolding update_session_timers_def by (rule age_sessions_returns) (auto simp: tunn_ok_def clocks_ok_def)

lemma expire_returns [returning]:
  "tunn_ok W t \<Longrightarrow> tm_timers (tn_timers t) TimeCurrent \<le> now \<Longrightarrow> returns (expire_past_absolute_bounds k now t)"
  unfolding expire_past_absolute_bounds_def by (intro returning) (auto intro: past_le)

lemma send_keepalive_returns [returning]:
  "world_ok W \<Longrightarrow> tunn_ok W t \<Longrightarrow> returns (send_keepalive W k dst rollback budget t)"
  unfolding send_keepalive_def by (intro returning)

lemma rekey_demanded_returns [returning]:
  "tunn_ok W t \<Longrightarrow> tm_timers (tn_timers t) TimeCurrent \<le> now \<Longrightarrow> returns (rekey_demanded now t)"
  unfolding rekey_demanded_def by (intro returning) (auto intro: past_le)

lemma select_demand_returns [returning]:
  "tunn_ok W t \<Longrightarrow> tm_timers (tn_timers t) TimeCurrent \<le> now \<Longrightarrow> returns (select_demand W k now t)"
  unfolding select_demand_def by (intro returning)

lemma serve_initiation_returns [returning]:
  "world_ok W \<Longrightarrow> tunn_ok W t \<Longrightarrow> returns (serve_initiation W k dst latch budget t)"
  unfolding serve_initiation_def by (intro returning)

lemma returns_demand [returning]:
  "(d = NoDemand \<Longrightarrow> returns x) \<Longrightarrow> (\<And>l. d = WantInitiation l \<Longrightarrow> returns (f l)) \<Longrightarrow> (d = WantKeepalive \<Longrightarrow> returns y) \<Longrightarrow>
   returns (case d of NoDemand \<Rightarrow> x | WantInitiation l \<Rightarrow> f l | WantKeepalive \<Rightarrow> y)"
  by (cases d) simp_all

lemma unexpired_unchanged: "expire_past_absolute_bounds k now t = Some (False, t') \<Longrightarrow> t' = t"
  by (auto simp: expire_past_absolute_bounds_def Let_def split: if_splits bind_splits)

lemma poll_returns [returning]:
  assumes w: "world_ok W" and ok: "tunn_ok W t" and now: "tm_timers (tn_timers t) TimeCurrent \<le> now"
  shows "returns (poll W k dst rollback budget now t)"
proof -
  have cookie: "tunn_ok W t1 \<and> tn_timers t1 = tn_timers t"
    if "(if has_cookie (tn_handshake t) then do {
               age \<leftarrow> duration_minus now (tm_timers (tn_timers t) TimeCookieReceived);
               Some (if age \<ge> COOKIE_EXPIRATION_TIME then t\<lparr> tn_handshake := clear_cookie (tn_handshake t) \<rparr> else t) }
             else Some t) = Some t1" for t1
    using that ok by (auto simp: clear_cookie_def tunn_ok_handshake split: if_splits bind_splits)
  show ?thesis
    unfolding poll_def
    by (intro returning w)
      (use ok now cookie in \<open>auto simp: tunn_ok_timers intro: past_le dest: unexpired_unchanged
        expire_past_absolute_bounds_ok select_demand_ok(1)\<close>)
qed

lemma update_timers_returns [returning]:
  assumes "world_ok W" "tunn_ok W t"
  shows "returns (update_timers_with_budget W k dst budget t)"
proof -
  let ?now = "monotonic_now (at_now k) (tn_timers t)"
  have le: "tm_timers (tn_timers t) TimeCurrent \<le> ?now" by (simp add: monotonic_now_def)
  have ok: "tunn_ok W (u\<lparr> tn_timers := set_timer TimeCurrent ?now (tn_timers u) \<rparr>)"
    if "tunn_ok W u" "tn_timers u = tn_timers t" for u
    using that le by (auto simp: tunn_ok_def clocks_ok_def set_timer_def intro: order.trans)
  define u where "u = (if tm_should_reset_rr (tn_timers t)
               then t\<lparr> tn_rate_limiter := reset_count (at_now k) (tn_rate_limiter t) \<rparr> else t)"
  define t1 where "t1 = u\<lparr> tn_timers := set_timer TimeCurrent ?now (tn_timers u) \<rparr>"
  have u: "tn_timers u = tn_timers t" "tunn_ok W u" using assms(2) by (simp_all add: u_def)
  have t1: "tunn_ok W t1" "?now = tm_timers (tn_timers t1) TimeCurrent"
    unfolding t1_def by (rule ok) (use u in \<open>simp_all add: set_timer_def\<close>)
  have "returns (update_session_timers ?now t1 \<bind> (\<lambda>t2. poll W k dst (keepalive_rollback_of t) budget ?now t2))"
  proof (rule returns_bind [OF update_session_timers_returns [OF t1]])
    fix t2
    assume "update_session_timers ?now t1 = Some t2"
    then show "returns (poll W k dst (keepalive_rollback_of t) budget ?now t2)"
      using update_session_timers_ok [OF t1(1)] t1(2) poll_returns [OF assms(1)] by simp
  qed
  then show ?thesis by (simp add: update_timers_with_budget_def Let_def u_def [symmetric] u t1_def)
qed

section \<open>Reconfiguration\<close>

lemma restart_returns [returning]:
  "world_ok W \<Longrightarrow> config_wf (tn_amnezia t) \<Longrightarrow> returns (restart_pending_burst W t)"
  unfolding restart_pending_burst_def by (intro returning) auto

lemma apply_obfuscation_returns [returning]:
  "world_ok W \<Longrightarrow> config_wf amnezia \<Longrightarrow> returns (apply_obfuscation W obf amnezia t)"
  unfolding apply_obfuscation_def by (intro returning) auto

lemma try_set_obfuscation_returns [returning]:
  "world_ok W \<Longrightarrow> config_wf amnezia \<Longrightarrow> returns (try_set_obfuscation W obf amnezia t)"
  unfolding try_set_obfuscation_def by (intro returning)

lemma set_static_private_returns [returning]:
  "returns (tunn_set_static_private W k ls sk (x25519_public (w_crypto W) sk) limiter t)"
  unfolding tunn_set_static_private_def
  by (intro returning) (simp add: hs_set_static_private_def noise_params_set_static_private_def returns_def)

end
