(* ===== verification/Tunn_Report.thy ===== *)
theory Tunn_Report
  imports Tunn
begin

text \<open>
  The report of one tunnel operation (the methods of \<open>Tunn\<close> in \<open>noise/op_report.rs\<close>): it brackets an
  operation between \<open>begin_op\<close> and \<open>finish_op\<close> and returns its facts with a snapshot of the tunnel.
\<close>

record op_entry =
  oe_op_seq :: u64
  oe_selected_serial :: u64

record op_report =
  or_input_kind :: op_packet_kind
  or_output_kind :: op_packet_kind
  or_events :: u32
  or_state :: u32
  or_op_seq :: u64
  or_burst_due_ms :: nat

definition selected_session_serial :: "'g tunn \<Rightarrow> u64" where
  "selected_session_serial t =
     (if tn_sessions t ! selected_slot t \<noteq> None then os_slot_serial (tn_meta t) ! selected_slot t else 0)"

definition begin_op :: "'g tunn \<Rightarrow> op_entry \<times> 'g tunn" where
  "begin_op t =
     (let m = (tn_meta t)\<lparr> os_op_seq := os_op_seq (tn_meta t) + 1, os_events := 0, os_input_kind := OpNone,
                os_output_kind := OpNone \<rparr>;
          t = t\<lparr> tn_meta := m \<rparr>
      in (\<lparr> oe_op_seq = os_op_seq m, oe_selected_serial = selected_session_serial t \<rparr>, t))"

definition state_snapshot :: "'g tunn \<Rightarrow> u32" where
  "state_snapshot t =
     (if has_current_session t then ST_SESSION_CURRENT else 0) OR
     (if has_initiation_pending (tn_handshake t) then ST_INITIATION_PENDING else 0) OR
     (if hs_is_expired (tn_handshake t) then ST_HANDSHAKE_EXPIRED else 0) OR
     (if tn_packet_queue t \<noteq> [] then ST_QUEUE_NONEMPTY else 0) OR
     (if tn_pending t \<noteq> None then ST_BURST_PENDING else 0) OR
     (if has_cookie (tn_handshake t) then ST_COOKIE_HELD else 0)"

definition burst_due_ms :: "call \<Rightarrow> 'g tunn \<Rightarrow> nat" where
  "burst_due_ms k t =
     (case tn_pending t of
        None \<Rightarrow> BURST_DUE_NONE
      | Some pending \<Rightarrow>
          (case pj_last_packet_at pending of
             None \<Rightarrow> 0
           | Some last0 \<Rightarrow>
               let remaining = burst_delay t pending - duration_since (at_now k) last0 in
               if remaining = 0 then 0
               else
                 let ms = (remaining + 999999) div 1000000 in
                 min (if ms < 2 ^ 32 then ms else BURST_DUE_MAX) BURST_DUE_MAX))"

definition finish_op :: "call \<Rightarrow> op_entry \<Rightarrow> tunn_result \<Rightarrow> 'g tunn \<Rightarrow> op_report" where
  "finish_op k entry result t =
     \<lparr> or_input_kind = os_input_kind (tn_meta t),
       or_output_kind = (if is_network result then os_output_kind (tn_meta t) else OpNone),
       or_events = (if selected_session_serial t \<noteq> oe_selected_serial entry
                    then os_events (tn_meta t) OR EV_CURRENT_SESSION_CHANGED else os_events (tn_meta t)),
       or_state = state_snapshot t,
       or_op_seq = oe_op_seq entry,
       or_burst_due_ms = burst_due_ms k t \<rparr>"

section \<open>Facts\<close>

text \<open>
  The hint of when to call again is exact: a burst whose datagram would pass the pacing gate is due in
  zero milliseconds, and one that would not is due in the smallest number of whole milliseconds after
  which it does.
\<close>

lemma burst_due_exact:
  assumes "tn_pending t = Some p" "pj_last_packet_at p = Some last0" "burst_delay t p < (2 ^ 32 - 2) * 1000000"
  shows "duration_since (at_now k) last0 + burst_due_ms k t * 1000000 \<ge> burst_delay t p"
    "burst_due_ms k t > 0 \<Longrightarrow> duration_since (at_now k) last0 + (burst_due_ms k t - 1) * 1000000 < burst_delay t p"
    "burst_due_ms k t = 0 \<longleftrightarrow> burst_delay t p \<le> duration_since (at_now k) last0"
proof -
  define r where "r = burst_delay t p - duration_since (at_now k) last0"
  define ms where "ms = (r + 999999) div 1000000"
  have r: "r < (2 ^ 32 - 2) * 1000000" using assms(3) by (simp add: r_def)
  then have small: "ms \<le> 2 ^ 32 - 2" "r \<le> ms * 1000000" "ms > 0 \<Longrightarrow> (ms - 1) * 1000000 < r" "r > 0 \<longleftrightarrow> ms > 0"
    by (auto simp: ms_def)
  then have due: "burst_due_ms k t = ms"
    by (auto simp: burst_due_ms_def assms(1,2) Let_def r_def [symmetric] ms_def [symmetric] BURST_DUE_MAX_def)
  show "duration_since (at_now k) last0 + burst_due_ms k t * 1000000 \<ge> burst_delay t p"
    "burst_due_ms k t > 0 \<Longrightarrow> duration_since (at_now k) last0 + (burst_due_ms k t - 1) * 1000000 < burst_delay t p"
    "burst_due_ms k t = 0 \<longleftrightarrow> burst_delay t p \<le> duration_since (at_now k) last0"
    unfolding due using small by (auto simp: r_def)
qed

end
