(* ===== verification/Tunn_Machine.thy ===== *)
theory Tunn_Machine
  imports Tunn_Total Tunn_Report
begin

text \<open>
  The tunnel as a state machine: one value of \<open>operation\<close> per method of the public interface that
  changes a tunnel, \<open>perform\<close> for what it does, and the step relation of all of them from the tunnels
  the constructor gives. The locale \<open>invariant_system\<close> of the prelude is interpreted on it, so that the
  invariant of \<open>Tunn_Frame\<close> holds of every tunnel a caller can reach, and with it the absence of panics
  of \<open>Tunn_Total\<close>.
\<close>

section \<open>Operations\<close>

datatype operation =
    DoEncapsulate call bytes bytes output_budget
  | DoDecapsulate call "source option" bytes bytes output_budget
  | DoDecapsulateMetadata call "socket_addr option" bytes bytes
  | DoAuthenticateCommit call packet bytes "imitation_protocol option" bytes output_budget
  | DoUpdateTimers call bytes output_budget
  | DoInitiate call bytes bool output_budget
  | DoSetStaticPrivate call limiter_seed bytes bytes "rate_limiter option"
  | DoSetPresharedKey "bytes option"
  | DoSetObfuscation obfuscation_ranges amnezia_config
  | DoSetPersistentKeepalive "u16 option"
  | DoSetPersistentKeepaliveRange u32 u32
  | DoSetContentPaddingMtu u16
  | DoResetUdpWindow
  | DoBeginNewPath
  | DoRestoreUdpWindow u32
  | DoDiscardImitationHint
  | DoBeginOp

definition perform :: "'g world \<Rightarrow> operation \<Rightarrow> 'g tunn \<Rightarrow> 'g tunn option" where
  "perform W op t =
     (case op of
        DoEncapsulate k src dst budget \<Rightarrow> map_option snd (encapsulate_with_budget W k src dst budget t)
      | DoDecapsulate k src datagram dst budget \<Rightarrow> map_option snd (decapsulate_source W k src datagram dst budget t)
      | DoDecapsulateMetadata k src datagram dst \<Rightarrow>
          map_option snd (decapsulate_from_with_metadata W k src datagram dst t)
      | DoAuthenticateCommit k packet datagram hint0 dst budget \<Rightarrow>
          (case authenticate_with_budget W k (length dst) budget packet t of
             (Inl e, t) \<Rightarrow> Some t
           | (Inr a, t) \<Rightarrow> map_option snd (commit_with_imitation_and_budget W k a datagram hint0 dst budget t))
      | DoUpdateTimers k dst budget \<Rightarrow> map_option snd (update_timers_with_budget W k dst budget t)
      | DoInitiate k dst force_resend budget \<Rightarrow>
          map_option snd (format_handshake_initiation_with_budget W k dst force_resend budget t)
      | DoSetStaticPrivate k ls sk pk limiter \<Rightarrow> tunn_set_static_private W k ls sk pk limiter t
      | DoSetPresharedKey psk \<Rightarrow> Some (tunn_set_preshared_key psk t)
      | DoSetObfuscation obf amnezia \<Rightarrow> set_obfuscation W obf amnezia t
      | DoSetPersistentKeepalive seconds \<Rightarrow> Some (set_persistent_keepalive W seconds t)
      | DoSetPersistentKeepaliveRange low high \<Rightarrow> Some (snd (set_persistent_keepalive_range W low high t))
      | DoSetContentPaddingMtu mtu \<Rightarrow> Some (set_content_padding_mtu mtu t)
      | DoResetUdpWindow \<Rightarrow> Some (reset_udp_window t)
      | DoBeginNewPath \<Rightarrow> Some (snd (begin_new_path t))
      | DoRestoreUdpWindow window \<Rightarrow> Some (restore_udp_window window t)
      | DoDiscardImitationHint \<Rightarrow> Some (discard_imitation_hint t)
      | DoBeginOp \<Rightarrow> Some (snd (begin_op t)))"

text \<open>
  What a caller owes: a configuration built by its constructors, and the public key of the private key
  it installs, on which the code asserts.
\<close>

fun operation_ok :: "'g world \<Rightarrow> operation \<Rightarrow> bool" where
  "operation_ok W (DoSetObfuscation obf amnezia) = config_wf amnezia"
| "operation_ok W (DoSetStaticPrivate k ls sk pk limiter) = (pk = x25519_public (w_crypto W) sk)"
| "operation_ok W _ = True"

inductive tunn_init :: "'g world \<Rightarrow> 'g tunn \<Rightarrow> bool" for W where
  constructed: "config_wf amnezia \<Longrightarrow>
    new_with_obfuscation W k ls seed jitter_seed ts sk ppk psk ka index limiter obf amnezia = Ok t \<Longrightarrow> tunn_init W t"

inductive tunn_step :: "'g world \<Rightarrow> 'g tunn \<Rightarrow> 'g tunn \<Rightarrow> bool" for W where
  performed: "operation_ok W op \<Longrightarrow> perform W op t = Some t' \<Longrightarrow> tunn_step W t t'"

inductive_cases tunn_initE: "tunn_init W t"
inductive_cases tunn_stepE: "tunn_step W t t'"

lemma begin_op_ok: "tunn_ok W t \<Longrightarrow> tunn_ok W (snd (begin_op t))"
  by (simp add: begin_op_def Let_def tunn_ok_meta)

lemma try_set_obfuscation_ok:
  "tunn_ok W t \<Longrightarrow> config_wf amnezia \<Longrightarrow> try_set_obfuscation W obf amnezia t = Some (r, t') \<Longrightarrow> tunn_ok W t'"
  by (auto simp: try_set_obfuscation_def apply_obfuscation_ok split: sum.splits bind_splits)

lemma perform_ok:
  assumes ok: "tunn_ok W t" and op: "operation_ok W op" and p: "perform W op t = Some t'"
  shows "tunn_ok W t'"
proof (cases op)
  case (DoAuthenticateCommit k packet datagram hint0 dst budget)
  obtain r t1 where a: "authenticate_with_budget W k (length dst) budget packet t = (r, t1)" by fastforce
  show ?thesis
  proof (cases r)
    case (Inr x)
    then show ?thesis
      using p a DoAuthenticateCommit commit_with_imitation_ok [OF authenticate_ok(1) [OF ok a] authenticate_ok(2) [OF ok a Inr]]
      by (auto simp: perform_def)
  qed (use p a DoAuthenticateCommit authenticate_ok(1) [OF ok a] in \<open>auto simp: perform_def\<close>)
next
  case (DoDecapsulateMetadata k src datagram dst)
  then show ?thesis using p decapsulate_from_with_metadata_ok [OF ok] by (auto simp: perform_def)
next
  case (DoSetPersistentKeepaliveRange low high)
  then show ?thesis using p ok
    by (auto simp: perform_def set_persistent_keepalive_range_def keepalive_range_ok split: option.splits)
qed (use p ok op in \<open>auto simp: perform_def set_obfuscation_def set_persistent_keepalive_def timers_set_persistent_keepalive_def
    Let_def keepalive_range_ok reset_udp_window_def begin_new_path_def restore_udp_window_def discard_imitation_hint_def set_mtu_ok
    begin_op_ok set_preshared_key_ok
    intro: encapsulate_with_budget_ok decapsulate_source_ok update_timers_with_budget_ok kept_ok [OF kept_format_initiation]
      tunn_set_static_private_ok try_set_obfuscation_ok\<close>)

interpretation tunnel: invariant_system "tunn_init W" "tunn_step W" "tunn_ok W" for W
  by unfold_locales (auto elim!: tunn_initE tunn_stepE intro: new_with_obfuscation_ok perform_ok)

lemma returns_map: "returns (map_option f m) = returns m"
  by (simp add: returns_def)

lemma perform_returns:
  assumes "world_ok W" "tunn_ok W t" "operation_ok W op"
  shows "returns (perform W op t)"
proof (cases op)
  case (DoAuthenticateCommit k packet datagram hint0 dst budget)
  obtain r t1 where a: "authenticate_with_budget W k (length dst) budget packet t = (r, t1)" by fastforce
  show ?thesis
    using commit_with_imitation_returns [OF authenticate_ok(1) [OF assms(2) a]] DoAuthenticateCommit a
    by (cases r) (auto simp: perform_def returns_map returns_Some)
qed (use assms in \<open>simp_all add: perform_def set_obfuscation_def returns_map returns_Some encapsulate_returns decapsulate_returns
    decapsulate_metadata_returns update_timers_returns initiation_returns set_static_private_returns
    try_set_obfuscation_returns\<close>)

end
