(* ===== verification/Probe_Budget.thy ===== *)
theory Probe_Budget
  imports Clock
begin

text \<open>
  The ceiling on bytes sent in reply to unauthenticated traffic (\<open>device/probe_budget.rs\<close>). The balance,
  in thousandths of a byte, and the millisecond it was last brought up to date are packed into one
  atomic word, and a worker of the device takes from it with a load, a reading of the clock and a
  compare-and-exchange that it repeats when another worker was faster.

  \<open>consume_attempt\<close> is the body of that loop, \<open>try_consume\<close> the call of a worker that meets no other. The
  inductive relation \<open>ceiling_step\<close> is the loop as any number of workers run it, one atomic action per
  step: their loads, readings and exchanges interleave in any order.
\<close>

section \<open>The packed word\<close>

definition MILLI :: u64 where "MILLI = 1000"

definition MAX_BYTES_PER_SEC :: u32 where
  "MAX_BYTES_PER_SEC = ucast ((0xffffffff :: u64) div MILLI)"

record probe_budget =
  pb_state :: u64
  pb_start :: instant
  pb_bytes_per_sec :: u32

definition pb_pack :: "u32 \<Rightarrow> u32 \<Rightarrow> u64" where
  "pb_pack millibytes millis = or (push_bit 32 (ucast millibytes)) (ucast millis)"

definition pb_unpack :: "u64 \<Rightarrow> u32 \<times> u32" where
  "pb_unpack v = (ucast (drop_bit 32 v), ucast v)"

definition u64_saturating_mul :: "u64 \<Rightarrow> u64 \<Rightarrow> u64" where
  "u64_saturating_mul a b = of_nat (min (unat a * unat b) (2 ^ 64 - 1))"

definition u64_saturating_add :: "u64 \<Rightarrow> u64 \<Rightarrow> u64" where
  "u64_saturating_add a b = of_nat (min (unat a + unat b) (2 ^ 64 - 1))"

definition u32_saturating_sub :: "u32 \<Rightarrow> u32 \<Rightarrow> u32" where
  "u32_saturating_sub a b = (if a < b then 0 else a - b)"

section \<open>Taking from the balance\<close>

definition probe_budget_new :: "instant \<Rightarrow> u32 \<Rightarrow> probe_budget" where
  "probe_budget_new now bytes_per_sec =
     (let bytes_per_sec = min bytes_per_sec MAX_BYTES_PER_SEC
      in \<lparr> pb_state = pb_pack (ucast (ucast bytes_per_sec * MILLI)) 0, pb_start = now,
           pb_bytes_per_sec = bytes_per_sec \<rparr>)"

definition now_millis :: "instant \<Rightarrow> probe_budget \<Rightarrow> u32" where
  "now_millis now b = of_nat (as_millis (duration_since now (pb_start b)))"

definition pb_cap :: "u32 \<Rightarrow> u64" where
  "pb_cap rate = u64_saturating_mul (ucast rate) MILLI"

definition consume_want :: "u32 \<Rightarrow> nat \<Rightarrow> u64 option" where
  "consume_want rate bytes =
     (if bytes < 2 ^ 32 \<and> u64_saturating_mul (of_nat bytes) MILLI \<le> pb_cap rate
      then Some (of_nat bytes * MILLI) else None)"

text \<open>One turn of the loop: the word it wants to store, and whether the reply may go out.\<close>

datatype attempt = TakeRefused u64 | TakeGranted u64

definition consume_attempt :: "u32 \<Rightarrow> u64 \<Rightarrow> u64 \<Rightarrow> u32 \<Rightarrow> attempt" where
  "consume_attempt rate want old now =
     (let cap = pb_cap rate;
          (old_tokens, old_ts) = pb_unpack old;
          elapsed = u32_saturating_sub now old_ts;
          refill = u64_saturating_mul (ucast elapsed) (ucast rate);
          available = min (u64_saturating_add (ucast old_tokens) refill) cap
      in if available < want then TakeRefused (pb_pack (ucast available) now)
         else TakeGranted (pb_pack (ucast (available - want)) now))"

definition try_consume :: "instant \<Rightarrow> nat \<Rightarrow> probe_budget \<Rightarrow> bool \<times> probe_budget" where
  "try_consume now bytes b =
     (case consume_want (pb_bytes_per_sec b) bytes of
        None \<Rightarrow> (False, b)
      | Some want \<Rightarrow>
          (case consume_attempt (pb_bytes_per_sec b) want (pb_state b) (now_millis now b) of
             TakeRefused new \<Rightarrow> (False, b\<lparr> pb_state := new \<rparr>)
           | TakeGranted new \<Rightarrow> (True, b\<lparr> pb_state := new \<rparr>)))"

section \<open>Workers\<close>

text \<open>
  Where a worker is in \<open>consume\<close>: outside it, before the load, after the load, after the reading of the
  clock. The number it carries first is the amount it asks for.
\<close>

datatype worker = Outside | Asking u64 | Holding u64 u64 | Dated u64 u64 u32

text \<open>The shared word, the time, the workers, and, for the statements, what was granted so far.\<close>

record ceiling =
  cl_state :: u64
  cl_now :: nat
  cl_workers :: "nat \<Rightarrow> worker"
  cl_granted :: nat

inductive ceiling_step :: "u32 \<Rightarrow> ceiling \<Rightarrow> ceiling \<Rightarrow> bool" for rate :: u32 where
  step_time: "ceiling_step rate s (s\<lparr> cl_now := cl_now s + d \<rparr>)"
| step_call: "cl_workers s i = Outside \<Longrightarrow> consume_want rate bytes = Some want \<Longrightarrow>
    ceiling_step rate s (s\<lparr> cl_workers := (cl_workers s)(i := Asking want) \<rparr>)"
| step_load: "cl_workers s i = Asking want \<Longrightarrow>
    ceiling_step rate s (s\<lparr> cl_workers := (cl_workers s)(i := Holding want (cl_state s)) \<rparr>)"
| step_clock: "cl_workers s i = Holding want old \<Longrightarrow>
    ceiling_step rate s (s\<lparr> cl_workers := (cl_workers s)(i := Dated want old (of_nat (cl_now s))) \<rparr>)"
| step_refused: "cl_workers s i = Dated want old now \<Longrightarrow> consume_attempt rate want old now = TakeRefused new \<Longrightarrow>
    ceiling_step rate s (s\<lparr> cl_workers := (cl_workers s)(i := Outside),
      cl_state := (if cl_state s = old then new else cl_state s) \<rparr>)"
| step_granted: "cl_workers s i = Dated want old now \<Longrightarrow> consume_attempt rate want old now = TakeGranted new \<Longrightarrow>
    cl_state s = old \<Longrightarrow>
    ceiling_step rate s (s\<lparr> cl_workers := (cl_workers s)(i := Outside), cl_state := new,
      cl_granted := cl_granted s + unat want \<rparr>)"
| step_lost: "cl_workers s i = Dated want old now \<Longrightarrow> consume_attempt rate want old now = TakeGranted new \<Longrightarrow>
    cl_state s \<noteq> old \<Longrightarrow>
    ceiling_step rate s (s\<lparr> cl_workers := (cl_workers s)(i := Asking want) \<rparr>)"

section \<open>The arithmetic of one turn\<close>

abbreviation balance :: "u64 \<Rightarrow> nat" where "balance v \<equiv> unat (fst (pb_unpack v))"
abbreviation dated :: "u64 \<Rightarrow> nat" where "dated v \<equiv> unat (snd (pb_unpack v))"

lemma pb_unpack_pack [simp]: "pb_unpack (pb_pack t m) = (t, m)"
proof -
  have "drop_bit 32 (pb_pack t m) = ucast t"
    unfolding pb_pack_def
    by (rule bit_word_eqI) (auto simp: bit_simps dest: bit_imp_le_length)
  moreover have "ucast (pb_pack t m) = m"
    unfolding pb_pack_def
    by (rule bit_word_eqI) (auto simp: bit_simps dest: bit_imp_le_length)
  moreover have "(ucast (ucast t :: u64) :: u32) = t"
    by (rule bit_word_eqI) (auto simp: bit_simps dest: bit_imp_le_length)
  ultimately show ?thesis by (simp add: pb_unpack_def)
qed

lemma unat_ucast_32_64 [simp]: "unat (ucast (x :: u32) :: u64) = unat x"
proof -
  have "unat x < 2 ^ 64" using unsigned_less [of x, where 'a = nat] by simp
  then show ?thesis by (simp add: unsigned_ucast_eq take_bit_nat_eq_self)
qed

lemma saturating_nat [simp]:
  "unat (u64_saturating_mul a b) = min (unat a * unat b) (2 ^ 64 - 1)"
  "unat (u64_saturating_add a b) = min (unat a + unat b) (2 ^ 64 - 1)"
  unfolding u64_saturating_mul_def u64_saturating_add_def by (rule unat_of_nat_u64, simp)+

lemma MILLI_nat: "unat MILLI = 1000"
  by (simp add: MILLI_def)

lemma MAX_BYTES_nat: "unat MAX_BYTES_PER_SEC = 4294967"
proof -
  have "(0xffffffff :: u64) div 1000 = 4294967"
    by (rule word_unat_eq_iff [THEN iffD2]) (simp add: unat_div)
  then show ?thesis by (simp add: MAX_BYTES_PER_SEC_def MILLI_def)
qed

lemma cap_nat: "unat (pb_cap rate) = unat rate * 1000"
  using unsigned_less [of rate, where 'a = nat] by (simp add: pb_cap_def MILLI_nat)

lemma refill_nat: "unat (u64_saturating_mul (ucast (e :: u32)) (ucast (r :: u32))) = unat e * unat r"
proof -
  have "unat e * unat r < 2 ^ 32 * 2 ^ 32"
    by (intro mult_strict_mono) (use unsigned_less [of e, where 'a = nat] unsigned_less [of r, where 'a = nat] in simp_all)
  then show ?thesis by simp
qed

lemma want_nat:
  assumes "consume_want rate bytes = Some want"
  shows "unat want = bytes * 1000"
proof -
  have "bytes < 2 ^ 32" "want = of_nat bytes * MILLI"
    using assms by (auto simp: consume_want_def split: if_splits)
  then show ?thesis by (simp add: MILLI_def unat_word_ariths unat_of_nat)
qed

text \<open>What an attempt makes of a word whose balance is within the allowance of a second.\<close>

lemma consume_attempt_cases:
  fixes rate old now want
  defines "available \<equiv> min (balance old + (unat now - dated old) * unat rate) (unat rate * 1000)"
  assumes "rate \<le> MAX_BYTES_PER_SEC"
  obtains (refused) new where "consume_attempt rate want old now = TakeRefused new" "available < unat want"
      "balance new = available" "dated new = unat now"
    | (granted) new where "consume_attempt rate want old now = TakeGranted new" "unat want \<le> available"
      "balance new = available - unat want" "dated new = unat now"
proof -
  obtain tok ts where old: "pb_unpack old = (tok, ts)" by (cases "pb_unpack old")
  define av where "av = min (u64_saturating_add (ucast tok)
    (u64_saturating_mul (ucast (u32_saturating_sub now ts)) (ucast rate))) (pb_cap rate)"
  have e: "unat (u32_saturating_sub now ts) = unat now - unat ts"
    by (auto simp: u32_saturating_sub_def word_less_nat_alt unat_sub word_le_nat_alt)
  have r: "unat rate \<le> 4294967" using assms(2) MAX_BYTES_nat by (simp add: word_le_nat_alt)
  have "unat now - unat ts < 2 ^ 32" using unsigned_less [of now, where 'a = nat] by simp
  then have p: "(unat now - unat ts) * unat rate \<le> 2 ^ 32 * 4294967" using r by (intro mult_mono) simp_all
  then have small: "unat tok + (unat now - unat ts) * unat rate < 2 ^ 64"
    using unsigned_less [of tok, where 'a = nat] by simp
  have av: "unat av = available"
    using small unfolding av_def available_def old fst_conv snd_conv
    by (simp add: min_def word_le_nat_alt cap_nat refill_nat e del: saturating_nat(1))
  then have le: "unat av \<le> unat rate * 1000" by (simp add: available_def)
  have fit: "unat (ucast x :: u32) = unat x" if "x \<le> av" for x
  proof -
    have "unat x < 2 ^ 32" using that le r by (simp add: word_le_nat_alt)
    then show ?thesis by (simp add: unsigned_ucast_eq take_bit_nat_eq_self)
  qed
  show thesis
  proof (cases "av < want")
    case True
    then show thesis
      using refused [of "pb_pack (ucast av) now"] fit [of av] av
      by (simp add: consume_attempt_def old av_def word_less_nat_alt)
  next
    case False
    then have "want \<le> av" by simp
    then have "unat (av - want) = unat av - unat want" "av - want \<le> av"
      by (simp_all add: unat_sub word_sub_le)
    then show thesis
      using False granted [of "pb_pack (ucast (av - want)) now"] fit [of "av - want"] av
      by (simp add: consume_attempt_def old av_def word_less_nat_alt)
  qed
qed

section \<open>Any interleaving\<close>

text \<open>
  A quiet moment: no worker is inside \<open>consume\<close>, and the word is one that \<open>consume\<close> left or
  \<open>new\<close> made. \<open>ceiling_inv s0\<close> holds along every run from it that ends before the counter of milliseconds
  wraps (after 49 days).
\<close>

definition quiet :: "u32 \<Rightarrow> ceiling \<Rightarrow> bool" where
  "quiet rate s \<longleftrightarrow> rate \<le> MAX_BYTES_PER_SEC \<and> balance (cl_state s) \<le> unat rate * 1000 \<and>
     dated (cl_state s) \<le> cl_now s \<and> (\<forall>i. cl_workers s i = Outside)"

definition worker_inv :: "ceiling \<Rightarrow> nat \<Rightarrow> worker \<Rightarrow> bool" where
  "worker_inv s0 T w = (case w of
      Holding _ old \<Rightarrow> dated old \<le> T
    | Dated _ old now \<Rightarrow> dated old \<le> unat now \<and> cl_now s0 \<le> unat now \<and> unat now \<le> T
    | _ \<Rightarrow> True)"

definition ceiling_inv :: "u32 \<Rightarrow> ceiling \<Rightarrow> ceiling \<Rightarrow> bool" where
  "ceiling_inv rate s0 s \<longleftrightarrow>
     cl_now s0 \<le> cl_now s \<and> balance (cl_state s) \<le> unat rate * 1000 \<and> dated (cl_state s) \<le> cl_now s \<and>
     (\<forall>i. worker_inv s0 (cl_now s) (cl_workers s i)) \<and>
     (if dated (cl_state s) < cl_now s0 then cl_granted s = cl_granted s0
      else cl_granted s + balance (cl_state s)
             \<le> cl_granted s0 + unat rate * 1000 + unat rate * (dated (cl_state s) - cl_now s0))"

lemma worker_inv_later: "worker_inv s0 T w \<Longrightarrow> T \<le> T' \<Longrightarrow> worker_inv s0 T' w"
  by (auto simp: worker_inv_def split: worker.splits)

text \<open>One exchange that succeeds: what is taken was in the balance or was earned since.\<close>

lemma earned:
  fixes rate :: u32 and b ts t0 now g g0 w :: nat
  assumes "ts \<le> now" "t0 \<le> now" "b \<le> unat rate * 1000"
    and "w \<le> min (b + (now - ts) * unat rate) (unat rate * 1000)"
    and "if ts < t0 then g = g0 else g + b \<le> g0 + unat rate * 1000 + unat rate * (ts - t0)"
  shows "g + w + (min (b + (now - ts) * unat rate) (unat rate * 1000) - w)
    \<le> g0 + unat rate * 1000 + unat rate * (now - t0)"
proof (cases "ts < t0")
  case True
  then show ?thesis using assms(4,5) by simp
next
  case False
  then have "unat rate * (now - t0) = unat rate * (ts - t0) + (now - ts) * unat rate"
    using assms(1) by (simp add: algebra_simps diff_mult_distrib2 flip: add_mult_distrib2)
  then show ?thesis using assms(4,5) False by simp
qed

lemma ceiling_inv_exchange:
  assumes inv: "ceiling_inv rate s0 s" and w: "cl_workers s i = Dated want old now" and st: "cl_state s = old"
    and rate: "rate \<le> MAX_BYTES_PER_SEC"
    and new: "dated new = unat now" "balance new = min (balance old + (unat now - dated old) * unat rate) (unat rate * 1000) - taken"
    and taken: "taken \<le> min (balance old + (unat now - dated old) * unat rate) (unat rate * 1000)"
  shows "ceiling_inv rate s0 (s\<lparr> cl_workers := (cl_workers s)(i := Outside), cl_state := new,
    cl_granted := cl_granted s + taken \<rparr>)"
proof -
  have wi: "dated old \<le> unat now" "cl_now s0 \<le> unat now" "unat now \<le> cl_now s"
    using inv w by (auto simp: ceiling_inv_def worker_inv_def dest: spec [of _ i])
  have b: "balance old \<le> unat rate * 1000" using inv st by (simp add: ceiling_inv_def)
  have g: "if dated old < cl_now s0 then cl_granted s = cl_granted s0
      else cl_granted s + balance old \<le> cl_granted s0 + unat rate * 1000 + unat rate * (dated old - cl_now s0)"
    using inv st by (auto simp: ceiling_inv_def split: if_splits)
  note e = earned [OF wi(1,2) b taken g]
  have "\<forall>j. worker_inv s0 (cl_now s) (((cl_workers s)(i := Outside)) j)"
    using inv by (auto simp: ceiling_inv_def worker_inv_def)
  then show ?thesis
    using e wi inv new taken by (simp add: ceiling_inv_def)
qed

lemma ceiling_inv_step:
  assumes inv: "ceiling_inv rate s0 s" and step: "ceiling_step rate s s'" and wrap: "cl_now s' < 2 ^ 32"
    and rate: "rate \<le> MAX_BYTES_PER_SEC"
  shows "ceiling_inv rate s0 s'"
  using step
proof cases
  case (step_time d)
  have "worker_inv s0 (cl_now s + d) (cl_workers s i)" for i
    using inv worker_inv_later [of s0 "cl_now s" _ "cl_now s + d"] by (simp add: ceiling_inv_def)
  then show ?thesis using inv step_time by (auto simp: ceiling_inv_def)
next
  case (step_clock i want old)
  have "unat (of_nat (cl_now s) :: u32) = cl_now s"
    using wrap step_clock by (simp add: unat_of_nat take_bit_nat_eq_self)
  moreover have "dated old \<le> cl_now s"
    using inv step_clock by (auto simp: ceiling_inv_def worker_inv_def dest: spec [of _ i])
  ultimately show ?thesis using inv step_clock by (auto simp: ceiling_inv_def worker_inv_def)
next
  case (step_refused i want old now new)
  from rate show ?thesis
  proof (cases rule: consume_attempt_cases [of rate want old now])
    case (refused new')
    show ?thesis
    proof (cases "cl_state s = old")
      case True
      from ceiling_inv_exchange [OF inv step_refused(2) True rate, of new 0] show ?thesis
        using refused step_refused True by simp
    qed (use inv step_refused in \<open>auto simp: ceiling_inv_def worker_inv_def\<close>)
  qed (use step_refused in simp)
next
  case (step_granted i want old now new)
  from rate show ?thesis
  proof (cases rule: consume_attempt_cases [of rate want old now])
    case (granted new')
    from ceiling_inv_exchange [OF inv step_granted(2,4) rate, of new "unat want"] show ?thesis
      using granted step_granted by simp
  qed (use step_granted in simp)
qed (use inv in \<open>auto simp: ceiling_inv_def worker_inv_def\<close>)

lemma ceiling_time: "ceiling_step rate s s' \<Longrightarrow> cl_now s \<le> cl_now s'"
  by (cases rule: ceiling_step.cases) auto

lemma ceiling_inv_run:
  assumes run: "(ceiling_step rate)\<^sup>*\<^sup>* s0 s" and q: "quiet rate s0" and wrap: "cl_now s < 2 ^ 32"
  shows "ceiling_inv rate s0 s"
  using run wrap
proof (induction rule: rtranclp_induct)
  case base
  then show ?case using q by (auto simp: quiet_def ceiling_inv_def worker_inv_def)
next
  case (step s s')
  have "cl_now s \<le> cl_now s'" by (rule ceiling_time [OF step.hyps(2)])
  then show ?case
    using ceiling_inv_step [OF step.IH step.hyps(2) step.prems] q step.prems by (simp add: quiet_def)
qed

section \<open>Properties\<close>

text \<open>
  C18. The ceiling holds under every interleaving. Any number of workers take from one budget, and their
  loads, clock readings and exchanges interleave in any way. From a moment at which none of them is
  inside, however long the budget was idle before, what they grant together by a later time is at most
  the allowance of one second and the allowance of the time that passed. The counter of milliseconds
  must not have wrapped, which takes 49 days.
\<close>

theorem probe_ceiling_holds:
  assumes "quiet rate s0" "(ceiling_step rate)\<^sup>*\<^sup>* s0 s" "cl_now s < 2 ^ 32"
  shows "cl_granted s \<le> cl_granted s0 + unat rate * (1000 + (cl_now s - cl_now s0))"
proof -
  have i: "ceiling_inv rate s0 s" by (rule ceiling_inv_run [OF assms(2,1,3)])
  have "unat rate * (dated (cl_state s) - cl_now s0) \<le> unat rate * (cl_now s - cl_now s0)"
    using i by (intro mult_le_mono2 diff_le_mono) (simp add: ceiling_inv_def)
  moreover have "cl_granted s = cl_granted s0 \<or> cl_granted s + balance (cl_state s)
      \<le> cl_granted s0 + unat rate * 1000 + unat rate * (dated (cl_state s) - cl_now s0)"
    using i by (auto simp: ceiling_inv_def split: if_splits)
  ultimately have "cl_granted s \<le> cl_granted s0 + (unat rate * 1000 + unat rate * (cl_now s - cl_now s0))"
    by linarith
  then show ?thesis by (simp only: add_mult_distrib2)
qed

definition sample_ceiling :: ceiling where
  "sample_ceiling = \<lparr> cl_state = pb_state (probe_budget_new (at_nanos 0) 100), cl_now = 7,
     cl_workers = (\<lambda>_. Outside), cl_granted = 0 \<rparr>"

theorem probe_ceiling_holds_witness:
  "quiet 100 sample_ceiling \<and>
   (\<exists>s. (ceiling_step 100)\<^sup>*\<^sup>* sample_ceiling s \<and> cl_granted s = 40000 \<and> cl_now s = 12 \<and>
      cl_granted s \<le> 0 + unat (100 :: u32) * (1000 + (12 - 7)))"
proof -
  have st: "cl_state sample_ceiling = pb_pack 100000 0"
    by (simp add: sample_ceiling_def probe_budget_new_def min_def word_le_nat_alt MAX_BYTES_nat MILLI_def)
  have rate: "(100 :: u32) \<le> MAX_BYTES_PER_SEC" by (simp add: word_le_nat_alt MAX_BYTES_nat)
  have q: "quiet 100 sample_ceiling"
    using rate st by (simp add: quiet_def) (simp add: sample_ceiling_def)
  have want: "consume_want 100 40 = Some 40000"
    by (simp add: consume_want_def word_le_nat_alt cap_nat MILLI_def)
  obtain new where new: "consume_attempt 100 40000 (pb_pack 100000 0) 12 = TakeGranted new"
    using rate by (cases rule: consume_attempt_cases [of 100 40000 "pb_pack 100000 0" 12]) simp_all
  let ?at = "\<lambda>w. sample_ceiling\<lparr> cl_now := 12, cl_workers := (cl_workers sample_ceiling)(0 := w) \<rparr>"
  let ?last = "(?at Outside)\<lparr> cl_state := new, cl_granted := 40000 \<rparr>"
  have "ceiling_step 100 sample_ceiling (sample_ceiling\<lparr> cl_now := 12 \<rparr>)"
    using step_time [of 100 sample_ceiling 5] by (simp add: sample_ceiling_def)
  moreover have "ceiling_step 100 (sample_ceiling\<lparr> cl_now := 12 \<rparr>) (?at (Asking 40000))"
    using step_call [OF _ want, of "sample_ceiling\<lparr> cl_now := 12 \<rparr>" 0] by (simp add: sample_ceiling_def)
  moreover have "ceiling_step 100 (?at (Asking 40000)) (?at (Holding 40000 (pb_pack 100000 0)))"
    using step_load [of "?at (Asking 40000)" 0 40000 100] st by (simp add: fun_upd_twist)
  moreover have "ceiling_step 100 (?at (Holding 40000 (pb_pack 100000 0))) (?at (Dated 40000 (pb_pack 100000 0) 12))"
    using step_clock [of "?at (Holding 40000 (pb_pack 100000 0))" 0 40000 "pb_pack 100000 0" 100] by simp
  moreover have "ceiling_step 100 (?at (Dated 40000 (pb_pack 100000 0) 12)) ?last"
    using step_granted [of "?at (Dated 40000 (pb_pack 100000 0) 12)" 0 40000 "pb_pack 100000 0" 12 100 new] new st
    by (simp add: sample_ceiling_def)
  ultimately have run: "(ceiling_step 100)\<^sup>*\<^sup>* sample_ceiling ?last"
    by (meson converse_rtranclp_into_rtranclp rtranclp.rtrancl_refl)
  show ?thesis
    using q run probe_ceiling_holds [OF q run] by (intro conjI exI [of _ ?last]) (simp_all add: sample_ceiling_def)
qed

end
