(* ===== verification/Probe_Reply.thy ===== *)
theory Probe_Reply
  imports Detect Framing Probe_Budget
begin

text \<open>
  What the device answers to a stranger (\<open>device/reply_policy.rs\<close>, \<open>device/probe_reply.rs\<close>): which
  source addresses a reply may be aimed at, whether a cookie reply may go out, and the whole decision
  on a datagram that nobody has authenticated, in the order the source insists on: a datagram that
  could be tunnel traffic is never answered as a probe.

  The generators of the answers are those of \<open>Imitation\<close> and \<open>Quic\<close>, the recogniser is \<open>detect\<close>, and
  the ceiling is \<open>try_consume\<close>. The lemmas on the generators show that no answer is recognised as a
  probe, which is what keeps two devices from answering each other for ever.
\<close>

section \<open>Where a reply may go\<close>

definition unmap :: "socket_addr \<Rightarrow> socket_addr" where
  "unmap addr =
     (case sa_ip addr of
        IpV6 v6 \<Rightarrow>
          (case to_ipv4_mapped v6 of
             Some v4 \<Rightarrow> \<lparr> sa_ip = IpV4 v4, sa_port = sa_port addr \<rparr>
           | None \<Rightarrow> addr)
      | IpV4 _ \<Rightarrow> addr)"

datatype door = DoorProbe | DoorCookie

text \<open>The predicates of \<open>std::net\<close> on the octets of an address.\<close>

fun ip_is_loopback :: "ip_addr \<Rightarrow> bool" where
  "ip_is_loopback (IpV4 v4) \<longleftrightarrow> v4 ! 0 = 127"
| "ip_is_loopback (IpV6 v6) \<longleftrightarrow> v6 = replicate 15 0 @ [1]"

definition v4_is_multicast :: "bytes \<Rightarrow> bool" where
  "v4_is_multicast v4 \<longleftrightarrow> 224 \<le> v4 ! 0 \<and> v4 ! 0 \<le> 239"

definition v4_is_link_local :: "bytes \<Rightarrow> bool" where
  "v4_is_link_local v4 \<longleftrightarrow> v4 ! 0 = 169 \<and> v4 ! 1 = 254"

definition v6_segment0 :: "bytes \<Rightarrow> u16" where
  "v6_segment0 v6 = u16_from_be (take 2 v6)"

definition may_reply_to :: "socket_addr \<Rightarrow> door \<Rightarrow> bool" where
  "may_reply_to from door =
     (if sa_port from = 0 then False
      else if ip_is_loopback (sa_ip from) then door = DoorCookie
      else case sa_ip from of
        IpV4 v4 \<Rightarrow>
          (let this_network = (v4 ! 0 = 0);
               reserved = (v4 ! 0 \<ge> 240)
           in \<not> (v4 = replicate 4 0 \<or> v4_is_multicast v4 \<or> v4 = replicate 4 255 \<or> v4_is_link_local v4 \<or>
                this_network \<or> reserved))
      | IpV6 v6 \<Rightarrow>
          (let is_link_local = (and (v6_segment0 v6) 0xffc0 = 0xfe80)
           in \<not> (v6 = replicate 16 0 \<or> and (v6_segment0 v6) 0xff00 = 0xff00 \<or> is_link_local)))"

definition reply_target :: "socket_addr \<Rightarrow> door \<Rightarrow> socket_addr option" where
  "reply_target from door =
     (let from = unmap from in if may_reply_to from door then Some from else None)"

datatype cookie_verdict = CvSend | CvRefusedSource | CvWouldAmplify

definition cookie_verdict_for :: "socket_addr \<Rightarrow> nat \<Rightarrow> nat \<Rightarrow> cookie_verdict" where
  "cookie_verdict_for from request_len reply_len =
     (if reply_target from DoorCookie = None then CvRefusedSource
      else if reply_amplifies request_len reply_len then CvWouldAmplify
      else CvSend)"

section \<open>What is answered\<close>

definition MAX_REPLY_LEN :: nat where "MAX_REPLY_LEN = 1024"

record probe_responder =
  pr_budget :: probe_budget
  pr_software :: bytes

definition probe_responder_new :: "instant \<Rightarrow> bytes \<Rightarrow> u32 \<Rightarrow> probe_responder" where
  "probe_responder_new now software bytes_per_sec =
     \<lparr> pr_budget = probe_budget_new now bytes_per_sec, pr_software = software \<rparr>"

datatype ingress = IngressWireguard inbound_candidates | IngressReply bytes | IngressDrop

text \<open>The outer \<open>None\<close> of \<open>probe_answer\<close> and of its callers is a panic; the inner one is silence.\<close>

definition probe_answer ::
  "'g rng \<Rightarrow> probe \<Rightarrow> bytes \<Rightarrow> socket_addr \<Rightarrow> bytes \<Rightarrow> 'g \<Rightarrow> (bytes option \<times> 'g) option" where
  "probe_answer R probe request from software g =
     (case probe of
        ProbeDns \<Rightarrow> Some (servfail request, g)
      | ProbeStun \<Rightarrow> do { reply \<leftarrow> binding_success request from software; Some (reply, g) }
      | ProbeQuic \<Rightarrow> Some (version_negotiation R request g)
      | ProbeSip \<Rightarrow> Some (None, g))"

definition reply_to ::
  "'g rng \<Rightarrow> instant \<Rightarrow> bytes \<Rightarrow> socket_addr \<Rightarrow> imitation_protocol \<Rightarrow> probe_responder \<Rightarrow> 'g
    \<Rightarrow> (bytes option \<times> probe_responder \<times> 'g) option" where
  "reply_to R now request from imitation responder g =
     (if imitation = ImNone then Some (None, responder, g)
      else case reply_target from DoorProbe of
        None \<Rightarrow> Some (None, responder, g)
      | Some from \<Rightarrow>
          (case detect request of
             None \<Rightarrow> Some (None, responder, g)
           | Some probe \<Rightarrow>
               if imitation \<noteq> ImAuto \<and> \<not> probe_is probe imitation then Some (None, responder, g)
               else do {
                 (reply, g) \<leftarrow> probe_answer R probe request from (pr_software responder) g;
                 (case reply of
                    None \<Rightarrow> Some (None, responder, g)
                  | Some reply \<Rightarrow>
                      if length reply > MAX_REPLY_LEN then Some (None, responder, g)
                      else
                        (case try_consume now (length reply) (pr_budget responder) of (admitted, budget) \<Rightarrow>
                           Some (if admitted then Some reply else None,
                                 responder\<lparr> pr_budget := budget \<rparr>, g))) }))"

definition probe_classify ::
  "'g rng \<Rightarrow> stream_cipher \<Rightarrow> instant \<Rightarrow> bytes \<Rightarrow> amnezia_config \<Rightarrow> obfuscation_ranges \<Rightarrow> socket_addr
    \<Rightarrow> probe_responder option \<Rightarrow> 'g \<Rightarrow> (ingress \<times> probe_responder option \<times> 'g) option" where
  "probe_classify R SC now datagram amnezia obf from responder g =
     (let candidates = inbound_candidates SC amnezia obf datagram in
      if \<not> candidates_is_empty candidates then Some (IngressWireguard candidates, responder, g)
      else case responder of
        None \<Rightarrow> Some (IngressDrop, None, g)
      | Some r \<Rightarrow> do {
          (reply, r, g) \<leftarrow> reply_to R now datagram from (im_protocol (cfg_imitation amnezia)) r g;
          Some (case reply of Some reply \<Rightarrow> IngressReply reply | None \<Rightarrow> IngressDrop, Some r, g) })"

section \<open>No answer is a probe\<close>

lemma high_bit_ge: "bit b 7 \<Longrightarrow> 128 \<le> unat b" for b :: u8
proof (rule ccontr)
  assume b: "bit b 7" and "\<not> 128 \<le> unat b"
  then have z: "unat b div 2 ^ 7 = 0" by simp
  have "bit (unat b) 7" using b by (simp add: bit_unsigned_iff)
  then have "odd (unat b div 2 ^ 7)" by (rule bit_iff_odd [THEN iffD1])
  then show False unfolding z by simp
qed

lemma sip_prefix_letters:
  assumes "list_ex (\<lambda>p. length p \<le> length (take (min (length d) 10) d) \<and>
      eq_ignore_ascii_case (take (length p) (take (min (length d) 10) d)) p) SIP_PREFIXES"
    and "i < 3"
  shows "65 \<le> unat (to_ascii_uppercase (d ! i))" "unat (to_ascii_uppercase (d ! i)) \<le> 90"
proof -
  obtain p where p: "p \<in> set SIP_PREFIXES" and l: "length p \<le> length (take (min (length d) 10) d)"
      and e: "map to_ascii_uppercase (take (length p) (take (min (length d) 10) d)) = map to_ascii_uppercase p"
    using assms(1) by (auto simp: list_ex_iff eq_ignore_ascii_case_def)
  have "\<forall>p \<in> set SIP_PREFIXES. 4 \<le> length p \<and> (\<forall>i < 3. 65 \<le> unat (p ! i) \<and> unat (p ! i) \<le> 90)"
    by code_simp
  then have q: "4 \<le> length p" "65 \<le> unat (p ! i)" "unat (p ! i) \<le> 90" using p assms(2) by auto
  have "map to_ascii_uppercase (take (length p) (take (min (length d) 10) d)) ! i = to_ascii_uppercase (d ! i)"
    using q(1) l assms(2) by simp
  then have "to_ascii_uppercase (d ! i) = p ! i"
    unfolding e using q assms(2) by (simp add: to_ascii_uppercase_def)
  then show "65 \<le> unat (to_ascii_uppercase (d ! i))" "unat (to_ascii_uppercase (d ! i)) \<le> 90" using q by simp_all
qed

text \<open>A datagram whose first or third byte is no letter is not taken for SIP.\<close>

lemma detect_none:
  assumes "parse_long_header d = None" "binding_request_len d = None" "has_stun_cookie d \<or> question_end d = None"
    and "i < 3" "unat (d ! i) < 65 \<or> 128 \<le> unat (d ! i)"
  shows "detect d = None"
  using assms sip_prefix_letters [of d i]
  by (auto simp: detect_def Let_def to_ascii_uppercase_def split: if_splits)

lemma detect_servfail:
  assumes "servfail query = Some reply"
  shows "detect reply = None"
proof -
  obtain e where e: "question_end query = Some e"
    and r: "reply = slice 0 2 query @
           [or 0x80 (and (query ! 2) (or 0x78 0x01)), or 0x80 0x02] @
           [0x00, 0x01] @ [0x00, 0x00] @ [0x00, 0x00] @ [0x00, 0x00] @ slice 12 e query"
    using assms by (auto simp: servfail_def DNS_HEADER_LEN_def split: Option.bind_splits)
  have "2 \<le> length query" using question_end_bounds [OF e] by simp
  then obtain a b where "slice 0 2 query = [a, b]"
    by (auto simp: slice_def numeral_2_eq_2 Suc_le_length_iff)
  then obtain x rest where s: "reply = a # b # or 0x80 x # 0x82 # 0 # 1 # 0 # 0 # 0 # 0 # 0 # 0 # rest"
    using r by simp
  have v: "u32_from_be (slice 1 5 reply) = push_bit 8 (of_nat (unat b * 65536 + unat (or 0x80 x) * 256 + 0x82))"
    by (simp add: s slice_def u32_from_be_def be_value_def push_bit_eq_mult)
  have "and (push_bit 8 w) (0xff :: u32) = 0" for w
    using take_bit_push_bit [of 8 8 w] by (simp add: take_bit_eq_mask mask_eq_decr_exp)
  then have "\<not> is_known_version (u32_from_be (slice 1 5 reply))"
    using known_version_low unfolding v by blast
  then have "parse_long_header reply = None" by (simp add: parse_long_header_def)
  moreover have "binding_request_len reply = None"
    by (simp add: binding_request_len_def s slice_def STUN_MAGIC_COOKIE_def)
  moreover have "question_end reply = None"
    using servfail_facts [OF assms] by (simp add: servfail_def split: bind_splits)
  moreover have "128 \<le> unat (reply ! 2)"
    by (rule high_bit_ge) (simp add: s bit_or_iff)
  ultimately show ?thesis by (intro detect_none [of _ 2]) simp_all
qed

lemma detect_binding_success:
  assumes "binding_success request client software = Some (Some reply)"
  shows "detect reply = None"
proof -
  obtain len where req: "binding_request_len request = Some len" and fp: "check_fingerprint request \<noteq> FpInvalid"
      and sw: "length software \<le> MAX_SOFTWARE_LEN"
    using assms by (auto simp: binding_success_def Let_def split: option.splits if_splits)
  obtain k tid rest where r: "reply = stun_header 0x0101 k tid @ rest"
    using binding_success_closed [OF req fp sw, of client] assms by simp
  have "u16_to_be 0x0101 = [1, 1]" by code_simp
  then obtain a b rest' where s: "reply = 1 # 1 # a # b # STUN_MAGIC_COOKIE @ rest'"
    using r be16.enc_width [of "of_nat k", unfolded numeral_2_eq_2 length_Suc_conv] by (auto simp: stun_header_def)
  have "parse_long_header reply = None" by (simp add: parse_long_header_def s)
  moreover have "binding_request_len reply = None"
    by (simp add: binding_request_len_def s u16_at_def u16_from_be_def be_value_def BINDING_REQUEST_def)
  moreover have "has_stun_cookie reply"
    by (simp add: has_stun_cookie_def s stun_cookie_def STUN_MAGIC_COOKIE_def)
  ultimately show ?thesis by (intro detect_none [of _ 0]) (simp_all add: s)
qed

lemma detect_version_negotiation:
  assumes "fst (version_negotiation R initial g) = Some reply"
  shows "detect reply = None"
proof -
  obtain hdr b where hdr: "parse_long_header initial = Some hdr" and none: "parse_long_header reply = None" and b: "bit b 7"
    and r: "reply = [b] @ u32_to_be 0 @ [of_nat (length (lh_scid hdr))] @ lh_scid hdr @
            [of_nat (length (lh_dcid hdr))] @ lh_dcid hdr @ concat (map u32_to_be REAL_SERVER_VERSIONS)"
    using version_negotiation_facts [OF assms] by blast
  have z: "u32_to_be 0 = [0, 0, 0, 0]" by code_simp
  have ge: "128 \<le> unat b" by (rule high_bit_ge [OF b])
  have "binding_request_len reply = None"
  proof -
    have "u16_at reply 0 \<noteq> 1"
    proof
      assume "u16_at reply 0 = 1"
      moreover have "u16_to_be 1 = [0, 1]" by code_simp
      ultimately have "u16_to_be (u16_at reply 0) = [0, 1]" by simp
      moreover have "u16_to_be (u16_at reply 0) = [b, 0]" by (simp add: u16_at_def be16.enc_dec r z)
      ultimately show False using ge by simp
    qed
    then show ?thesis by (simp add: binding_request_len_def BINDING_REQUEST_def)
  qed
  moreover have "question_end reply = None"
  proof (rule ccontr)
    assume q: "question_end reply \<noteq> None"
    have cids: "length (lh_scid hdr) \<le> 255" "length (lh_dcid hdr) \<le> 255" using parse_long_header_cids [OF hdr] by simp_all
    have counts: "u16_at reply 4 = 1" "u16_at reply 6 = 0" and name: "qname_end reply 12 0 \<noteq> None"
      using q by (auto simp: question_end_def Let_def DNS_HEADER_LEN_def split: if_splits bind_splits)
    have "u16_to_be 1 = [0, 1]" "u16_to_be 0 = [0, 0]" by code_simp+
    then have "[reply ! 4, reply ! 5] = [0, 1]" "[reply ! 6, reply ! 7] = [0, 0]"
      using counts be16.enc_dec [of "[reply ! 4, reply ! 5]"] be16.enc_dec [of "[reply ! 6, reply ! 7]"]
      by (simp_all add: u16_at_def)
    then have scid: "(of_nat (length (lh_scid hdr)) :: u8) = 1" and z67: "reply ! 6 = 0" "reply ! 7 = 0" by (simp_all add: r z)
    then have "unat (of_nat (length (lh_scid hdr)) :: u8) = 1" by simp
    then have "length (lh_scid hdr) = 1" using cids by (simp add: unat_of_nat)
    then obtain x where x: "lh_scid hdr = [x]" by (auto simp: length_Suc_conv)
    have "(of_nat (length (lh_dcid hdr)) :: u8) = 0" using z67 by (simp add: r z x)
    then have "unat (of_nat (length (lh_dcid hdr)) :: u8) = 0" by simp
    then have "lh_dcid hdr = []" using cids by (simp add: unat_of_nat)
    moreover have "concat (map u32_to_be REAL_SERVER_VERSIONS) = [0, 0, 0, 1, 0x6b, 0x33, 0x43, 0xcf]"
      using be32.enc_dec [of "[0, 0, 0, 1]"] be32.enc_dec [of "[0x6b, 0x33, 0x43, 0xcf]"]
      by (simp add: REAL_SERVER_VERSIONS_def u32_from_be_def be_value_def)
    ultimately have "reply ! 12 = 0x6b" "length reply = 16" by (simp_all add: r z x)
    then have "qname_end reply 12 0 = None" by (simp add: qname_end.simps)
    with name show False by simp
  qed
  ultimately show ?thesis using none ge by (intro detect_none [of _ 0]) (simp_all add: r)
qed

lemma probe_answer_undetected:
  assumes "probe_answer R probe request from software g = Some (Some reply, g')"
  shows "detect reply = None"
  using assms detect_servfail detect_binding_success detect_version_negotiation [of R request g]
  by (auto simp: probe_answer_def split: probe.splits bind_splits)

text \<open>Every answer is below the size at which it would be dropped.\<close>

lemma probe_answer_small:
  assumes "probe_answer R probe request from software g = Some (Some reply, g')" "ip_wf (sa_ip from)"
  shows "probe \<noteq> ProbeSip" "probe = ProbeStun \<Longrightarrow> length reply \<le> 184" "probe \<noteq> ProbeStun \<Longrightarrow> length reply \<le> length request"
  using assms servfail_facts [of request reply] stun_reply_facts [OF assms(2), of request software]
    version_negotiation_facts [of R request g reply]
  by (auto simp: probe_answer_def split: probe.splits bind_splits dest: less_imp_le)

section \<open>The decision\<close>

text \<open>An address a stranger may be answered at: unicast, of this family, and not of this host.\<close>

fun routable :: "ip_addr \<Rightarrow> bool" where
  "routable (IpV4 v4) \<longleftrightarrow> v4 ! 0 \<noteq> 0 \<and> v4 ! 0 < 224 \<and> v4 ! 0 \<noteq> 127 \<and> \<not> v4_is_link_local v4"
| "routable (IpV6 v6) \<longleftrightarrow> v6 ! 0 \<noteq> 255 \<and> to_ipv4_mapped v6 = None \<and> v6 \<noteq> replicate 16 0 \<and> v6 \<noteq> replicate 15 0 @ [1]"

lemma unmap_wf: "ip_wf (sa_ip from) \<Longrightarrow> ip_wf (sa_ip (unmap from))"
  by (auto simp: unmap_def ip_wf_def to_ipv4_mapped_def split: ip_addr.splits option.splits if_splits)

lemma unmap_unmapped: "sa_ip (unmap from) = IpV6 v6 \<Longrightarrow> to_ipv4_mapped v6 = None"
  by (auto simp: unmap_def split: ip_addr.splits option.splits)

lemma multicast_segment:
  assumes "length v6 = 16" "v6 ! 0 = 255"
  shows "and (v6_segment0 v6) 0xff00 = 0xff00"
proof -
  obtain b where t: "take 2 v6 = [255, b]"
    using assms by (cases v6; cases "tl v6") auto
  have "unat b < 256" using unat_bound [of b] by simp
  then have u: "unat (v6_segment0 v6) = 255 * 256 + unat b"
    by (simp add: v6_segment0_def t u16_from_be_def be_value_def unat_of_nat del: of_nat_add)
  have hi: "(0xff00 :: u16) = push_bit 8 (mask 8)" by (simp add: mask_eq_decr_exp push_bit_eq_mult)
  have "drop_bit 8 (v6_segment0 v6) = (mask 8 :: u16)"
    by (rule word_unat_eq_iff [THEN iffD2])
      (use \<open>unat b < 256\<close> in \<open>simp add: drop_bit_eq_div unat_div u mask_eq_decr_exp\<close>)
  moreover have "and x (push_bit 8 (mask 8)) = push_bit 8 (drop_bit 8 x)" for x :: u16
    by (rule bit_word_eqI) (auto simp: bit_simps)
  ultimately show ?thesis unfolding hi by simp
qed

lemma reply_target_routable:
  assumes "reply_target from DoorProbe = Some target" "ip_wf (sa_ip from)"
  shows "target = unmap from" "sa_port target \<noteq> 0" "routable (sa_ip target)"
proof -
  show t: "target = unmap from" and p: "sa_port target \<noteq> 0"
    using assms(1) by (auto simp: reply_target_def may_reply_to_def Let_def split: if_splits)
  have m: "may_reply_to target DoorProbe" using assms(1) by (auto simp: reply_target_def Let_def split: if_splits)
  show "routable (sa_ip target)"
  proof (cases "sa_ip target")
    case (IpV4 v4)
    then show ?thesis
      using m by (auto simp: may_reply_to_def Let_def v4_is_multicast_def word_le_nat_alt word_less_nat_alt split: if_splits)
  next
    case (IpV6 v6)
    then have "length v6 = 16" "to_ipv4_mapped v6 = None"
      using unmap_wf [OF assms(2)] unmap_unmapped [of "from" v6] t by (simp_all add: ip_wf_def)
    then show ?thesis using m IpV6 multicast_segment [of v6] by (auto simp: may_reply_to_def Let_def split: if_splits)
  qed
qed

lemma probe_answer_total:
  "ip_wf (sa_ip from) \<Longrightarrow> \<exists>reply g'. probe_answer R probe request from software g = Some (reply, g')"
  using stun_reply_facts [of "from" request software]
  by (cases probe; cases "version_negotiation R request g") (auto simp: probe_answer_def)

lemma reply_to_cases:
  assumes wf: "ip_wf (sa_ip from)"
  obtains (silent) r' g' where "reply_to R now request from imitation r g = Some (None, r', g')"
  | (answered) reply g' target probe where
      "reply_to R now request from imitation r g =
         Some (Some reply, r\<lparr> pr_budget := snd (try_consume now (length reply) (pr_budget r)) \<rparr>, g')"
      "reply_target from DoorProbe = Some target" "detect request = Some probe"
      "imitation = ImAuto \<or> imitation = probe_protocol probe"
      "probe_answer R probe request target (pr_software r) g = Some (Some reply, g')"
      "length reply \<le> MAX_REPLY_LEN" "fst (try_consume now (length reply) (pr_budget r))"
proof (cases "imitation = ImNone \<or> reply_target from DoorProbe = None \<or> detect request = None")
  case True
  then have "reply_to R now request from imitation r g = Some (None, r, g)"
    by (auto simp: reply_to_def split: option.splits)
  then show ?thesis by (rule silent)
next
  case False
  then obtain target probe where t: "reply_target from DoorProbe = Some target" and d: "detect request = Some probe" by auto
  have "ip_wf (sa_ip target)"
    using t unmap_wf [OF wf] by (auto simp: reply_target_def Let_def split: if_splits)
  then obtain reply g' where a: "probe_answer R probe request target (pr_software r) g = Some (reply, g')"
    using probe_answer_total [of target R probe request "pr_software r" g] by auto
  obtain ok b where c: "try_consume now (length (the reply)) (pr_budget r) = (ok, b)" by fastforce
  show ?thesis
  proof (cases "(imitation = ImAuto \<or> probe_is probe imitation) \<and> reply \<noteq> None \<and> length (the reply) \<le> MAX_REPLY_LEN \<and> ok")
    case True
    then show ?thesis
      using answered [of "the reply" g' target probe] False t d a c
      by (cases probe) (auto simp: reply_to_def probe_is_def)
  next
    case no: False
    then have "\<exists>r' g'. reply_to R now request from imitation r g = Some (None, r', g')"
      using False t d a c by (cases reply) (auto simp: reply_to_def)
    then show ?thesis using silent by blast
  qed
qed

section \<open>Properties\<close>


definition sample_client :: socket_addr where
  "sample_client = \<lparr> sa_ip = IpV4 [192, 0, 2, 1], sa_port = 51820 \<rparr>"

definition sample_responder :: probe_responder where
  "sample_responder = probe_responder_new (at_nanos 0) (ascii ''Mozilla'') 1000"

lemma sample_budget_admits:
  assumes "n \<le> 184"
  shows "\<exists>b. try_consume (at_nanos 0) n (pr_budget sample_responder) = (True, b)"
proof -
  have st: "pb_state (pr_budget sample_responder) = pb_pack 1000000 0" "pb_bytes_per_sec (pr_budget sample_responder) = 1000"
    "pb_start (pr_budget sample_responder) = at_nanos 0"
    by (simp_all add: sample_responder_def probe_responder_new_def probe_budget_new_def min_def word_le_nat_alt MAX_BYTES_nat MILLI_def)
  have want: "consume_want 1000 n = Some (of_nat n * MILLI)"
    using assms by (simp add: consume_want_def word_le_nat_alt cap_nat MILLI_nat unat_of_nat_u64)
  then have w: "unat (of_nat n * MILLI) \<le> 184000" using want_nat [OF want] assms by simp
  have rate: "(1000 :: u32) \<le> MAX_BYTES_PER_SEC" by (simp add: word_le_nat_alt MAX_BYTES_nat)
  show ?thesis
    using rate w want st
    by (cases rule: consume_attempt_cases [of 1000 "of_nat n * MILLI" "pb_pack 1000000 0" "now_millis (at_nanos 0) (pr_budget sample_responder)"])
      (auto simp: try_consume_def)
qed


end
