(* ===== verification/Hints.thy ===== *)
theory Hints
  imports Probe_Reply
begin

text \<open>
  The evidence a listener in automatic mode keeps about strangers (\<open>device/imitation_auto.rs\<close>): at most
  1024 source addresses, each with the protocol of the first datagram it was recognised by, for thirty
  seconds. The cache is a map beside a queue in the order of arrival, from whose front old entries
  leave. Indexing the map with a source it does not have is a panic, \<open>None\<close> here.

  The cache refines what it is for: a map of the evidence that is still alive.
\<close>

section \<open>The cache\<close>

definition MAX_HINTS :: nat where "MAX_HINTS = 1024"

record pending =
  pe_by_source :: "socket_addr \<rightharpoonup> hint"
  pe_order :: "socket_addr list"

definition pending_default :: pending where
  "pending_default = \<lparr> pe_by_source = Map.empty, pe_order = [] \<rparr>"

definition pop_oldest :: "pending \<Rightarrow> pending" where
  "pop_oldest p =
     (case pe_order p of
        [] \<Rightarrow> p
      | source # rest \<Rightarrow> p\<lparr> pe_order := rest, pe_by_source := (pe_by_source p)(source := None) \<rparr>)"

function pending_expire :: "instant \<Rightarrow> pending \<Rightarrow> pending option" where
  "pending_expire now p =
     (case pe_order p of
        [] \<Rightarrow> Some p
      | source # _ \<Rightarrow> do {
          hint \<leftarrow> pe_by_source p source;
          if \<not> hint_is_live now hint then pending_expire now (pop_oldest p) else Some p })"
  by pat_completeness auto

termination
  by (relation "measure (\<lambda>(now, p). length (pe_order p))") (auto simp: pop_oldest_def)

declare pending_expire.simps [simp del]

definition hints_observe :: "instant \<Rightarrow> socket_addr \<Rightarrow> bytes \<Rightarrow> pending \<Rightarrow> pending option" where
  "hints_observe now source datagram p =
     (case hint_detect now datagram of
        None \<Rightarrow> Some p
      | Some hint \<Rightarrow> do {
          p \<leftarrow> pending_expire now p;
          if pe_by_source p source \<noteq> None then Some p
          else
            let p = (if length (pe_order p) = MAX_HINTS then pop_oldest p else p)
            in Some (p\<lparr> pe_by_source := (pe_by_source p)(source \<mapsto> hint_new now (hint_protocol hint)),
                        pe_order := pe_order p @ [source] \<rparr>) })"

definition hints_get :: "instant \<Rightarrow> socket_addr \<Rightarrow> pending \<Rightarrow> (imitation_protocol option \<times> pending) option" where
  "hints_get now source p = do {
     p \<leftarrow> pending_expire now p;
     Some (map_option hint_protocol (pe_by_source p source), p) }"

definition hints_discard :: "socket_addr \<Rightarrow> pending \<Rightarrow> pending" where
  "hints_discard source p =
     (if pe_by_source p source \<noteq> None
      then p\<lparr> pe_by_source := (pe_by_source p)(source := None), pe_order := filter (\<lambda>e. e \<noteq> source) (pe_order p) \<rparr>
      else p)"

definition hints_clear :: "pending \<Rightarrow> pending" where
  "hints_clear p = pending_default"

definition hints_classify ::
  "'g rng \<Rightarrow> stream_cipher \<Rightarrow> instant \<Rightarrow> bytes \<Rightarrow> amnezia_config \<Rightarrow> obfuscation_ranges \<Rightarrow> socket_addr
    \<Rightarrow> probe_responder option \<Rightarrow> 'g \<Rightarrow> pending \<Rightarrow> (ingress \<times> probe_responder option \<times> 'g \<times> pending) option" where
  "hints_classify R SC now datagram amnezia obf source responder g p = do {
     (ingress, responder, g) \<leftarrow> probe_classify R SC now datagram amnezia obf source responder g;
     p \<leftarrow> (if im_protocol (cfg_imitation amnezia) = ImAuto \<and>
              \<not> (case ingress of IngressWireguard _ \<Rightarrow> True | _ \<Rightarrow> False)
          then hints_observe now source datagram p else Some p);
     Some (ingress, responder, g, p) }"

definition observe_refused :: "instant \<Rightarrow> bytes \<Rightarrow> amnezia_config \<Rightarrow> socket_addr \<Rightarrow> pending \<Rightarrow> pending option" where
  "observe_refused now datagram amnezia source p =
     (if im_protocol (cfg_imitation amnezia) = ImAuto then hints_observe now source datagram p else Some p)"

definition cookie_config ::
  "instant \<Rightarrow> amnezia_config \<Rightarrow> socket_addr \<Rightarrow> bytes \<Rightarrow> pending \<Rightarrow> (amnezia_config \<times> pending) option" where
  "cookie_config now amnezia source datagram p =
     (if im_protocol (cfg_imitation amnezia) \<noteq> ImAuto then Some (amnezia, p)
      else do {
        (found, p) \<leftarrow> hints_get now source p;
        let protocol =
          (case (case found of Some q \<Rightarrow> Some q | None \<Rightarrow> map_option hint_protocol (hint_detect now datagram)) of
             Some q \<Rightarrow> q | None \<Rightarrow> ImNone);
        Some (resolve_imitation amnezia protocol, p) })"

section \<open>Evidence that is alive\<close>

definition live :: "instant \<Rightarrow> pending \<Rightarrow> socket_addr \<Rightarrow> hint option" where
  "live now p source = option_filter (hint_is_live now) (pe_by_source p source)"

definition recorded_at :: "pending \<Rightarrow> socket_addr \<Rightarrow> int" where
  "recorded_at p source = since_origin (hint_received (the (pe_by_source p source)))"

definition hints_ok :: "int \<Rightarrow> pending \<Rightarrow> bool" where
  "hints_ok T p \<longleftrightarrow>
     distinct (pe_order p) \<and> set (pe_order p) = dom (pe_by_source p) \<and> length (pe_order p) \<le> MAX_HINTS \<and>
     sorted (map (recorded_at p) (pe_order p)) \<and>
     (\<forall>source hint. pe_by_source p source = Some hint \<longrightarrow>
        reading (hint_received hint) \<and> since_origin (hint_received hint) \<le> T)"

lemma hints_ok_later: "hints_ok T p \<Longrightarrow> T \<le> T' \<Longrightarrow> hints_ok T' p"
  by (fastforce simp: hints_ok_def)

lemma live_mono:
  assumes "reading now" "reading (hint_received h)" "reading (hint_received k)"
    and "since_origin (hint_received h) \<le> since_origin (hint_received k)" "hint_is_live now h"
  shows "hint_is_live now k"
  using assms duration_since_eq [of now "hint_received h"] duration_since_eq [of now "hint_received k"]
  by (simp add: hint_is_live_def)

text \<open>Leaving a set of sources out, in the order of the others.\<close>

lemma hints_ok_restrict:
  assumes "hints_ok T p" "pe_order q = filter P (pe_order p)"
    and "\<And>s. pe_by_source q s = (if P s then pe_by_source p s else None)"
  shows "hints_ok T q"
proof -
  have "map (recorded_at q) (pe_order q) = map (recorded_at p) (filter P (pe_order p))"
    using assms(2,3) by (simp add: recorded_at_def)
  also have "sorted \<dots>"
    using assms(1) by (simp add: hints_ok_def sorted_filter)
  finally have "sorted (map (recorded_at q) (pe_order q))" .
  moreover have "length (filter P (pe_order p)) \<le> MAX_HINTS"
    using assms(1) by (auto simp: hints_ok_def intro: order_trans [OF length_filter_le])
  ultimately show ?thesis
    using assms by (auto simp: hints_ok_def dom_def split: if_splits)
qed

lemma live_alive: "live now p s = Some h \<Longrightarrow> hint_is_live now h"
  by (simp add: live_def option_filter_def split: option.splits if_splits)

lemma pop_oldest_ok:
  assumes "hints_ok T p" "pe_order p = source # rest"
  shows "hints_ok T (pop_oldest p)" "pe_by_source (pop_oldest p) = (pe_by_source p)(source := None)"
    "pe_order (pop_oldest p) = rest"
proof -
  have "rest = filter (\<lambda>s. s \<noteq> source) (pe_order p)"
    using assms by (auto simp: hints_ok_def intro!: filter_True [symmetric])
  then show "hints_ok T (pop_oldest p)"
    by (intro hints_ok_restrict [OF assms(1), of _ "\<lambda>s. s \<noteq> source"]) (use assms(2) in \<open>auto simp: pop_oldest_def\<close>)
qed (use assms in \<open>simp_all add: pop_oldest_def\<close>)

lemma expire_ok:
  assumes "hints_ok T p" "reading now"
  shows "\<exists>p'. pending_expire now p = Some p' \<and> hints_ok T p' \<and> pe_by_source p' = live now p"
  using assms
proof (induction now p rule: pending_expire.induct)
  case (1 now p)
  show ?case
  proof (cases "pe_order p")
    case Nil
    then have "pe_by_source p = Map.empty" using "1.prems"(1) by (auto simp: hints_ok_def)
    then show ?thesis using Nil "1.prems" by (simp add: pending_expire.simps live_def option_filter_def fun_eq_iff)
  next
    case (Cons source rest)
    then obtain hint where hint: "pe_by_source p source = Some hint"
      using "1.prems"(1) by (force simp: hints_ok_def dom_def)
    show ?thesis
    proof (cases "hint_is_live now hint")
      case True
      have "live now p s = pe_by_source p s" for s
      proof (cases "pe_by_source p s")
        case (Some k)
        then have "s \<in> set (source # rest)" using "1.prems"(1) Cons by (auto simp: hints_ok_def)
        then have "since_origin (hint_received hint) \<le> since_origin (hint_received k)"
          using "1.prems"(1) Cons hint Some by (auto simp: hints_ok_def recorded_at_def)
        then have "hint_is_live now k"
          using live_mono [of now hint k] True "1.prems" hint Some by (auto simp: hints_ok_def)
        then show ?thesis by (simp add: live_def option_filter_def Some)
      qed (simp add: live_def option_filter_def)
      then show ?thesis using True "1.prems"(1) Cons hint by (auto simp: pending_expire.simps)
    next
      case False
      note pop = pop_oldest_ok [OF "1.prems"(1) Cons]
      have same: "live now (pop_oldest p) = live now p"
        using False hint by (auto simp: live_def pop(2) option_filter_def)
      from "1.IH" [OF Cons _ _ pop(1) "1.prems"(2)] hint False
      obtain p' where "pending_expire now (pop_oldest p) = Some p'" "hints_ok T p'" "pe_by_source p' = live now p"
        unfolding same by blast
      then show ?thesis using Cons hint False by (subst pending_expire.simps) simp
    qed
  qed
qed

lemma card_live:
  assumes "hints_ok T p" "pe_by_source p = m"
  shows "card (dom m) = length (pe_order p)"
  using assms distinct_card [of "pe_order p"] by (simp add: hints_ok_def)

lemma append_ok:
  assumes "hints_ok T p" "pe_by_source p source = None" "length (pe_order p) < MAX_HINTS"
    and "reading now" "T \<le> since_origin now"
  shows "hints_ok (since_origin now) (p\<lparr> pe_by_source := (pe_by_source p)(source \<mapsto> hint_new now protocol),
    pe_order := pe_order p @ [source] \<rparr>)" (is "hints_ok _ ?q")
proof -
  have new: "source \<notin> set (pe_order p)" using assms(1,2) by (auto simp: hints_ok_def)
  then have "map (recorded_at ?q) (pe_order p) = map (recorded_at p) (pe_order p)"
    by (auto simp: recorded_at_def)
  moreover have "recorded_at p s \<le> since_origin now" if "s \<in> set (pe_order p)" for s
    using that assms(1,5) by (fastforce simp: hints_ok_def recorded_at_def dom_def)
  moreover have "recorded_at ?q source = since_origin now" by (simp add: recorded_at_def hint_new_def)
  ultimately have "sorted (map (recorded_at ?q) (pe_order ?q))"
    using assms(1) by (simp add: hints_ok_def sorted_append del: map_eq_conv)
  then show ?thesis
    using assms new by (fastforce simp: hints_ok_def hint_new_def)
qed

lemma live_at_once: "reading now \<Longrightarrow> hint_is_live now (hint_new now protocol)"
  using duration_since_eq [of now now] by (simp add: hint_is_live_def hint_new_def HINT_LIFETIME_def from_secs_def NANOS_def)

lemma live_idem:
  assumes "pe_by_source p' = live now p"
  shows "live now p' = live now p"
  by (rule ext) (simp add: live_def assms option_filter_def split: option.split)

lemma hints_get_ok:
  assumes "hints_ok T p" "reading now"
  shows "\<exists>p'. hints_get now source p = Some (map_option hint_protocol (live now p source), p') \<and>
    hints_ok T p' \<and> live now p' = live now p"
proof -
  obtain p' where "pending_expire now p = Some p'" "hints_ok T p'" "pe_by_source p' = live now p"
    using expire_ok [OF assms] by blast
  then show ?thesis using live_idem by (simp add: hints_get_def)
qed

lemma discard_ok: "hints_ok T p \<Longrightarrow> hints_ok T (hints_discard source p)"
  unfolding hints_discard_def
  by (auto intro!: hints_ok_restrict [of T p _ "\<lambda>s. s \<noteq> source"])

text \<open>Recording evidence: unless there is some for the source already, or the datagram is none.\<close>

lemma hints_observe_ok:
  assumes ok: "hints_ok T p" and now: "reading now" "T \<le> since_origin now"
  obtains (same) p' where "hints_observe now source datagram p = Some p'" "hints_ok (since_origin now) p'"
      "live now p' = live now p" "detect datagram = None \<or> live now p source \<noteq> None"
  | (new) p' probe m where "hints_observe now source datagram p = Some p'" "hints_ok (since_origin now) p'"
      "detect datagram = Some probe" "live now p source = None"
      "live now p' = m(source \<mapsto> hint_new now (probe_protocol probe))"
      "m = live now p \<or> (\<exists>oldest. m = (live now p)(oldest := None) \<and> card (dom (live now p)) = MAX_HINTS)"
proof (cases "detect datagram")
  case None
  then show ?thesis using same [of p] hints_ok_later [OF ok now(2)] by (simp add: hints_observe_def hint_detect_def)
next
  case (Some probe)
  obtain q where q: "pending_expire now p = Some q" "hints_ok T q" "pe_by_source q = live now p"
    using expire_ok [OF ok now(1)] by blast
  show ?thesis
  proof (cases "pe_by_source q source")
    case (Some h)
    then show ?thesis
      using same [of q] hints_ok_later [OF q(2) now(2)] live_idem [OF q(3)] q \<open>detect datagram = Some probe\<close>
      by (simp add: hints_observe_def hint_detect_def)
  next
    case none: None
    define r where "r = (if length (pe_order q) = MAX_HINTS then pop_oldest q else q)"
    define p' where "p' = r\<lparr> pe_by_source := (pe_by_source r)(source \<mapsto> hint_new now (probe_protocol probe)),
      pe_order := pe_order r @ [source] \<rparr>"
    have run: "hints_observe now source datagram p = Some p'"
      using q none Some by (simp add: hints_observe_def hint_detect_def hint_new_def p'_def r_def Let_def)
    have full: "length (pe_order q) = MAX_HINTS \<Longrightarrow> \<exists>oldest rest. pe_order q = oldest # rest"
      by (cases "pe_order q") (auto simp: MAX_HINTS_def)
    have r: "hints_ok T r" "length (pe_order r) < MAX_HINTS" "pe_by_source r source = None"
      and m: "pe_by_source r = live now p \<or>
        (\<exists>oldest. pe_by_source r = (live now p)(oldest := None) \<and> card (dom (live now p)) = MAX_HINTS)"
      using full pop_oldest_ok [OF q(2)] q none card_live [OF q(2,3)]
      by (auto simp: r_def hints_ok_def [of T q] split: if_splits)
    have "pe_by_source r s = Some h \<Longrightarrow> hint_is_live now h" for s h
      using m live_alive [of now p] by (auto split: if_splits)
    then have "live now p' s = (pe_by_source p') s" for s
      using live_at_once [OF now(1)] by (auto simp: live_def p'_def option_filter_def split: option.split)
    then have "live now p' = (pe_by_source r)(source \<mapsto> hint_new now (probe_protocol probe))"
      by (auto simp: p'_def)
    then show ?thesis
      using new [OF run _ Some _ _ m] append_ok [OF r(1,3,2) now] none q(3) by (simp add: p'_def)
  qed
qed

section \<open>Every reachable cache\<close>

datatype hint_op = HObserve socket_addr bytes | HGet socket_addr | HDiscard socket_addr | HClear

fun hint_perform :: "instant \<Rightarrow> hint_op \<Rightarrow> pending \<Rightarrow> pending option" where
  "hint_perform now (HObserve source datagram) p = hints_observe now source datagram p"
| "hint_perform now (HGet source) p = map_option snd (hints_get now source p)"
| "hint_perform now (HDiscard source) p = Some (hints_discard source p)"
| "hint_perform now HClear p = Some (hints_clear p)"

text \<open>A cache with the time of its last operation; the clock does not run back.\<close>

definition hints_init :: "int \<times> pending \<Rightarrow> bool" where
  "hints_init s \<longleftrightarrow> snd s = pending_default"

inductive hints_step :: "int \<times> pending \<Rightarrow> int \<times> pending \<Rightarrow> bool" where
  "reading now \<Longrightarrow> T \<le> since_origin now \<Longrightarrow> hint_perform now op p = Some p' \<Longrightarrow>
   hints_step (T, p) (since_origin now, p')"

inductive_cases hints_stepE: "hints_step s s'"

lemma hint_perform_ok:
  assumes "hints_ok T p" "reading now" "T \<le> since_origin now" "hint_perform now op p = Some p'"
  shows "hints_ok (since_origin now) p'"
proof (cases op)
  case (HObserve source datagram)
  from assms(1-3) show ?thesis
    by (cases rule: hints_observe_ok [of T p now source datagram]) (use assms(4) HObserve in auto)
next
  case (HGet source)
  then show ?thesis
    using assms(4) hints_get_ok [OF assms(1,2), of source] hints_ok_later [OF _ assms(3)] by auto
next
  case (HDiscard source)
  then show ?thesis using assms(4) hints_ok_later [OF discard_ok [OF assms(1)] assms(3)] by auto
next
  case HClear
  then show ?thesis using assms(4) by (auto simp: hints_clear_def pending_default_def hints_ok_def)
qed

interpretation evidence: invariant_system hints_init hints_step "\<lambda>(T, p). hints_ok T p"
  by unfold_locales
    (auto simp: hints_init_def pending_default_def hints_ok_def [of _ "\<lparr>pe_by_source = _, pe_order = _\<rparr>"]
      elim!: hints_stepE intro: hint_perform_ok)

lemma live_discard: "live now (hints_discard source p) = (live now p)(source := None)"
  by (auto simp: live_def hints_discard_def option_filter_def)

section \<open>Properties\<close>

text \<open>
  C20. The cache of evidence refines the map of the evidence that is alive: for each source the first
  datagram that was recognised, for thirty seconds. In every state the cache can reach, and as long as
  the clock does not run back, no operation panics, the cache has at most 1024 sources, a look-up answers
  what that map has and changes nothing of it, and a recognised datagram is recorded exactly if there is
  none of its source, at the cost of one other source only when 1024 are alive. What is recorded is never
  replaced or prolonged. Discarding a source removes it alone, and clearing removes all.
\<close>

theorem hints_refine_live_evidence:
  assumes "reachable hints_init hints_step (T, p)" "reading now" "T \<le> since_origin now"
  shows "length (pe_order p) \<le> 1024 \<and>
    (\<exists>p'. hints_get now source p = Some (map_option hint_protocol (live now p source), p') \<and> live now p' = live now p) \<and>
    (\<exists>p'. hints_observe now source datagram p = Some p' \<and>
       (case detect datagram of
          None \<Rightarrow> live now p' = live now p
        | Some probe \<Rightarrow>
            if live now p source \<noteq> None then live now p' = live now p
            else \<exists>m. live now p' = m(source \<mapsto> hint_new now (probe_protocol probe)) \<and>
              (m = live now p \<or> (\<exists>oldest. m = (live now p)(oldest := None) \<and> card (dom (live now p)) = 1024)))) \<and>
    live now (hints_discard source p) = (live now p)(source := None) \<and> live now (hints_clear p) = Map.empty"
proof -
  have ok: "hints_ok T p" using evidence.reachable_inv [OF assms(1)] by simp
  have "\<exists>p'. hints_observe now source datagram p = Some p' \<and>
       (case detect datagram of
          None \<Rightarrow> live now p' = live now p
        | Some probe \<Rightarrow>
            if live now p source \<noteq> None then live now p' = live now p
            else \<exists>m. live now p' = m(source \<mapsto> hint_new now (probe_protocol probe)) \<and>
              (m = live now p \<or> (\<exists>oldest. m = (live now p)(oldest := None) \<and> card (dom (live now p)) = 1024)))"
    using ok assms(2,3)
    by (cases rule: hints_observe_ok [of T p now source datagram]) (auto simp: MAX_HINTS_def split: option.split)
  moreover have "length (pe_order p) \<le> 1024" using ok by (simp add: hints_ok_def MAX_HINTS_def)
  moreover have "live now (hints_clear p) = Map.empty"
    by (auto simp: live_def hints_clear_def pending_default_def option_filter_def)
  ultimately show ?thesis using hints_get_ok [OF ok assms(2), of source] live_discard by blast
qed

theorem hints_refine_live_evidence_witness:
  "reachable hints_init hints_step (0, pending_default) \<and>
   (\<exists>p'. hints_observe (at_nanos 5) sample_client sample_request pending_default = Some p' \<and>
      live (at_nanos 5) p' sample_client = Some (hint_new (at_nanos 5) ImStun))"
proof -
  have r: "reachable hints_init hints_step (0, pending_default)"
    by (intro reachable_init) (simp add: hints_init_def)
  have "binding_request_len sample_request = Some 0" by code_simp
  note d = detect_stun [OF this]
  have e: "live (at_nanos 5) pending_default = Map.empty"
    by (auto simp: live_def pending_default_def option_filter_def)
  show ?thesis
    using r hints_refine_live_evidence [OF r, of "at_nanos 5" sample_client sample_request]
    by (auto simp: d e)
qed

end
