(* ===== verification/Peer.thy ===== *)
theory Peer
  imports Tunn_Machine Hints
begin

text \<open>
  A peer of a device (\<open>device/peer.rs\<close>): its tunnel, its index, and its endpoint, an address with
  possibly a socket connected to it; and what a datagram that a peer authenticated does to it
  (\<open>commit_anonymous\<close> and \<open>receive_on_connection\<close> of \<open>device/mod.rs\<close>), on Linux.

  A socket is not modelled beyond its presence; what the operating system answers is an argument.
  The token that tells a receive handler whether its socket is still the one in use is an
  allocation, compared by identity: here a number the caller takes fresh. Diagnostics are left out.
\<close>

section \<open>Endpoint\<close>

record 'g peer =
  peer_tunnel :: "'g tunn"
  peer_index :: u32
  peer_addr :: "socket_addr option"
  peer_conn :: bool
  peer_psk :: "bytes option"
  peer_suppressed :: bool
  peer_lifetime :: "nat option"

definition canonical_endpoint :: "socket_addr \<Rightarrow> socket_addr" where
  "canonical_endpoint addr =
     (case sa_ip addr of
        IpV6 v6 \<Rightarrow>
          (case to_ipv4_mapped v6 of
             Some v4 \<Rightarrow> \<lparr> sa_ip = IpV4 v4, sa_port = sa_port addr \<rparr>
           | None \<Rightarrow> addr)
      | IpV4 _ \<Rightarrow> addr)"

definition peer_new :: "'g tunn \<Rightarrow> u32 \<Rightarrow> socket_addr option \<Rightarrow> bytes option \<Rightarrow> 'g peer" where
  "peer_new tunnel index endpoint preshared_key =
     \<lparr> peer_tunnel = tunnel, peer_index = index, peer_addr = map_option canonical_endpoint endpoint,
       peer_conn = False, peer_psk = preshared_key, peer_suppressed = False, peer_lifetime = None \<rparr>"

definition suppress_upgrade :: "'g peer \<Rightarrow> bool \<times> 'g peer" where
  "suppress_upgrade p = (\<not> peer_suppressed p, p\<lparr> peer_suppressed := True \<rparr>)"

definition shutdown_endpoint :: "'g peer \<Rightarrow> 'g peer" where
  "shutdown_endpoint p = p\<lparr> peer_conn := False \<rparr>"

definition move_endpoint :: "socket_addr \<Rightarrow> bool \<Rightarrow> 'g peer \<Rightarrow> 'g peer" where
  "move_endpoint addr reset_window p =
     (let addr = canonical_endpoint addr in
      if peer_addr p \<noteq> Some addr then
        p\<lparr> peer_conn := False, peer_addr := Some addr,
           peer_tunnel := (if reset_window then reset_udp_window (peer_tunnel p) else peer_tunnel p),
           peer_suppressed := False \<rparr>
      else p)"

definition set_endpoint :: "socket_addr \<Rightarrow> 'g peer \<Rightarrow> 'g peer" where
  "set_endpoint addr p = move_endpoint addr True p"

definition adopt_endpoint :: "socket_addr \<Rightarrow> 'g peer \<Rightarrow> 'g peer" where
  "adopt_endpoint addr p = move_endpoint addr False p"

text \<open>
  Opening a connected socket. The errors \<open>Error::Connect\<close> are the two of the function itself; an error of
  the operating system carries its number, if it has one.
\<close>

datatype connect_error = AlreadyConnected | NoEndpointAddress | IoError "int option"

definition connect_endpoint :: "int option option \<Rightarrow> 'g peer \<Rightarrow> (connect_error + unit) \<times> 'g peer" where
  "connect_endpoint os_failure p =
     (if peer_conn p then (Err AlreadyConnected, p)
      else if peer_addr p = None then (Err NoEndpointAddress, p)
      else case os_failure of
        Some errno \<Rightarrow> (Err (IoError errno), p)
      | None \<Rightarrow> (Ok (), p\<lparr> peer_conn := True \<rparr>))"

definition is_upgrade_exhaustion :: "connect_error \<Rightarrow> bool" where
  "is_upgrade_exhaustion e \<longleftrightarrow>
     (case e of IoError (Some errno) \<Rightarrow> errno \<in> {24, 23, 12, 105} | _ \<Rightarrow> False)"

definition commit_connection_lifetime :: "nat \<Rightarrow> 'g peer \<Rightarrow> 'g peer" where
  "commit_connection_lifetime token p = p\<lparr> peer_lifetime := Some token \<rparr>"

definition is_current_connection :: "nat \<Rightarrow> socket_addr \<Rightarrow> 'g peer \<Rightarrow> bool" where
  "is_current_connection lifetime endpoint p \<longleftrightarrow>
     peer_conn p \<and> peer_addr p = Some endpoint \<and> peer_lifetime p = Some lifetime"

definition peer_set_preshared_key :: "bytes option \<Rightarrow> 'g peer \<Rightarrow> 'g peer" where
  "peer_set_preshared_key preshared_key p =
     p\<lparr> peer_psk := preshared_key, peer_tunnel := tunn_set_preshared_key preshared_key (peer_tunnel p) \<rparr>"

definition peer_set_keepalive_range :: "'g world \<Rightarrow> u16 \<times> u16 \<Rightarrow> 'g peer \<Rightarrow> 'g peer" where
  "peer_set_keepalive_range W r p =
     p\<lparr> peer_tunnel := snd (set_persistent_keepalive_range W (ucast (fst r)) (ucast (snd r)) (peer_tunnel p)) \<rparr>"

text \<open>
  The upgrade of a peer to a socket of its own, after a packet that moves the endpoint: \<open>disabled\<close> is
  the latch of the listener, \<open>registered\<close> whether the event queue took the handler.
\<close>

definition upgrade_connection ::
  "bool \<Rightarrow> int option option \<Rightarrow> bool \<Rightarrow> nat \<Rightarrow> bool \<Rightarrow> 'g peer \<Rightarrow> bool \<times> 'g peer" where
  "upgrade_connection use_connected_socket os_failure registered token disabled p =
     (if use_connected_socket \<and> \<not> disabled \<and> \<not> peer_suppressed p then
        (case connect_endpoint os_failure p of
           (Inl e, p) \<Rightarrow>
             (case e of
                IoError _ \<Rightarrow>
                  if is_upgrade_exhaustion e then (True, p) else (disabled, snd (suppress_upgrade p))
              | _ \<Rightarrow> (disabled, p))
         | (Inr _, p) \<Rightarrow>
             let p = commit_connection_lifetime token p in
             if \<not> registered then (True, p\<lparr> peer_conn := False \<rparr>) else (disabled, p))
      else (disabled, p))"

section \<open>Committing a packet\<close>

definition commit_anonymous ::
  "'g world \<Rightarrow> call \<Rightarrow> authenticated \<Rightarrow> socket_addr \<Rightarrow> bytes \<Rightarrow> imitation_protocol option \<Rightarrow> bytes \<Rightarrow> 'g peer
    \<Rightarrow> (tunn_result \<times> 'g peer) option" where
  "commit_anonymous W k packet from datagram hint dst p = do {
     let moves = moves_endpoint (authenticated_kind_of packet);
     let (replaced, t) =
       (if moves \<and> peer_addr p \<noteq> Some from
        then (let (w, t) = begin_new_path (peer_tunnel p) in (Some w, t))
        else (None, peer_tunnel p));
     (result, t) \<leftarrow> commit_with_imitation W k packet datagram hint dst t;
     let committed = \<not> is_err result;
     let t = (case replaced of
           Some window \<Rightarrow> if committed then discard_imitation_hint t else restore_udp_window window t
         | None \<Rightarrow> t);
     let p = p\<lparr> peer_tunnel := t \<rparr>;
     Some (result, if moves \<and> committed then adopt_endpoint from p else p) }"

definition receive_on_connection ::
  "'g world \<Rightarrow> call \<Rightarrow> socket_addr \<Rightarrow> bytes \<Rightarrow> bytes \<Rightarrow> 'g tunn \<Rightarrow> (tunn_result \<times> 'g tunn) option" where
  "receive_on_connection W k from datagram dst t =
     (if datagram = [] then Some (TrDone, t) else decapsulate_from W k (Some from) datagram dst t)"

end
