(* ===== verification/Device.thy ===== *)
theory Device
  imports Peer
begin

text \<open>
  The device (\<open>device/mod.rs\<close>, \<open>device/allowed_ips.rs\<close>): the peers and the three tables that find them
  (by public key, by index, by the prefix an address lies in), the key pair, the interface-wide AmneziaWG
  configuration, the rate limiter and the evidence about strangers; the control operations that change
  them; and what one datagram or one packet does, on the shared listener, on a socket connected to a
  peer, on the interface, and when the timers run.

  A peer is shared by the tables (\<open>Arc<Mutex<Peer>>\<close>): the tables hold references, the peers are in
  \<open>dv_store\<close>, and identity is equality of references. The rate limiter is one object too, shared by the
  listener and by every tunnel: \<open>tunnel_at\<close> loads it into the tunnel an operation works on, \<open>put_tunnel\<close>
  stores it back. A hash map is a list of its entries in the order the iteration meets them. The trie of
  prefixes is a data structure of another crate and a parameter, \<open>ip_table\<close>. Sockets, the event loop and
  the interface are outside the model; what is written to them is the list of outputs.
\<close>

section \<open>Peer indices\<close>

record index_lfsr =
  lf_initial :: u32
  lf_lfsr :: u32
  lf_mask :: u32

definition LFSR_POLY :: u32 where "LFSR_POLY = 0xd80000"

definition lfsr_shift :: "u32 \<Rightarrow> u32" where
  "lfsr_shift x = xor (drop_bit 1 x) (and (0 - and x 1) LFSR_POLY)"

partial_function (option) random_index :: "'g rng \<Rightarrow> 'g \<Rightarrow> (u32 \<times> 'g) option" where
  "random_index R g =
     (let (x, g) = next_u32 R g; i = and x 0xffffff
      in if i > 0 then Some (i, g) else random_index R g)"

definition index_lfsr_default :: "'g rng \<Rightarrow> 'g \<Rightarrow> (index_lfsr \<times> 'g) option" where
  "index_lfsr_default R g = do {
     (seed, g) \<leftarrow> random_index R g;
     (mask, g) \<leftarrow> random_index R g;
     Some (\<lparr> lf_initial = seed, lf_lfsr = seed, lf_mask = mask \<rparr>, g) }"

text \<open>\<open>None\<close> is the assertion that indices have run out.\<close>

definition lfsr_next :: "index_lfsr \<Rightarrow> (u32 \<times> index_lfsr) option" where
  "lfsr_next l =
     (let v = lf_lfsr l - 1;
          l = l\<lparr> lf_lfsr := lfsr_shift (lf_lfsr l) \<rparr>
      in if lf_lfsr l = lf_initial l then None else Some (xor v (lf_mask l), l))"

section \<open>Prefixes\<close>

type_synonym network = "ip_addr \<times> u8"

text \<open>
  \<open>IpNetwork\<close> and \<open>IpNetworkTable\<close> of the crates \<open>ip_network\<close> and \<open>ip_network_table\<close>; \<open>it_network\<close> is
  \<open>IpNetwork::new_truncate\<close>.
\<close>

record 't ip_table =
  it_new :: 't
  it_network :: "ip_addr \<Rightarrow> u8 \<Rightarrow> network option"
  it_insert :: "network \<Rightarrow> nat \<Rightarrow> 't \<Rightarrow> 't"
  it_longest :: "ip_addr \<Rightarrow> 't \<Rightarrow> (network \<times> nat) option"
  it_retain :: "(network \<Rightarrow> nat \<Rightarrow> bool) \<Rightarrow> 't \<Rightarrow> 't"
  it_iter :: "'t \<Rightarrow> (network \<times> nat) list"

definition allowed_insert :: "'t ip_table \<Rightarrow> ip_addr \<Rightarrow> u32 \<Rightarrow> nat \<Rightarrow> 't \<Rightarrow> 't option" where
  "allowed_insert T key cidr data t = do {
     net \<leftarrow> it_network T key (ucast cidr);
     Some (it_insert T net data t) }"

definition allowed_find :: "'t ip_table \<Rightarrow> ip_addr \<Rightarrow> 't \<Rightarrow> nat option" where
  "allowed_find T key t = map_option snd (it_longest T key t)"

definition allowed_remove :: "'t ip_table \<Rightarrow> (nat \<Rightarrow> bool) \<Rightarrow> 't \<Rightarrow> 't" where
  "allowed_remove T predicate t = it_retain T (\<lambda>_ v. \<not> predicate v) t"

definition allowed_iter :: "'t ip_table \<Rightarrow> 't \<Rightarrow> (nat \<times> ip_addr \<times> u8) list" where
  "allowed_iter T t = map (\<lambda>(ipa, d). (d, fst ipa, snd ipa)) (it_iter T t)"

definition index_owns :: "'t ip_table \<Rightarrow> 't \<Rightarrow> nat \<Rightarrow> ip_addr \<Rightarrow> bool" where
  "index_owns T index owner addr = (allowed_find T addr index = Some owner)"

definition index_prefixes :: "'t ip_table \<Rightarrow> 't \<Rightarrow> nat \<Rightarrow> (ip_addr \<times> u8) list" where
  "index_prefixes T index owner =
     map (\<lambda>(_, addr, cidr). (addr, cidr)) (filter (\<lambda>(found, _, _). found = owner) (allowed_iter T index))"

section \<open>The device\<close>

definition HANDSHAKE_RATE_LIMIT :: u64 where "HANDSHAKE_RATE_LIMIT = 100"

record ('g, 't) device =
  dv_key_pair :: "(bytes \<times> bytes) option"
  dv_peers :: "(bytes \<times> nat) list"
  dv_by_idx :: "u32 \<rightharpoonup> nat"
  dv_by_ip :: 't
  dv_store :: "nat \<Rightarrow> 'g peer"
  dv_fresh :: nat
  dv_next_index :: index_lfsr
  dv_obf :: obfuscation_ranges
  dv_amnezia :: amnezia_config
  dv_limiter :: "rate_limiter option"
  dv_responder :: "probe_responder option"
  dv_hints :: pending
  dv_mtu :: nat

definition dv_upd_peer :: "nat \<Rightarrow> ('g peer \<Rightarrow> 'g peer) \<Rightarrow> ('g, 't) device \<Rightarrow> ('g, 't) device" where
  "dv_upd_peer r f d = d\<lparr> dv_store := (dv_store d)(r := f (dv_store d r)) \<rparr>"

definition tunnel_at :: "('g, 't) device \<Rightarrow> nat \<Rightarrow> 'g tunn" where
  "tunnel_at d r =
     (let t = peer_tunnel (dv_store d r)
      in case dv_limiter d of Some l \<Rightarrow> t\<lparr> tn_rate_limiter := l \<rparr> | None \<Rightarrow> t)"

definition put_tunnel :: "nat \<Rightarrow> 'g tunn \<Rightarrow> ('g, 't) device \<Rightarrow> ('g, 't) device" where
  "put_tunnel r t d =
     (dv_upd_peer r (\<lambda>p. p\<lparr> peer_tunnel := t \<rparr>) d)\<lparr> dv_limiter := map_option (\<lambda>_. tn_rate_limiter t) (dv_limiter d) \<rparr>"

definition peer_owns :: "'t ip_table \<Rightarrow> ('g, 't) device \<Rightarrow> nat \<Rightarrow> ip_addr \<Rightarrow> bool" where
  "peer_owns T d peer addr = index_owns T (dv_by_ip d) peer addr"

definition peer_allowed_ips :: "'t ip_table \<Rightarrow> ('g, 't) device \<Rightarrow> nat \<Rightarrow> (ip_addr \<times> u8) list" where
  "peer_allowed_ips T d peer = index_prefixes T (dv_by_ip d) peer"

text \<open>\<open>blank\<close> is what the store holds at references that are not allocated yet.\<close>

definition device_new ::
  "'g peer \<Rightarrow> 't ip_table \<Rightarrow> instant \<Rightarrow> bytes \<Rightarrow> index_lfsr \<Rightarrow> obfuscation_ranges \<Rightarrow> amnezia_config \<Rightarrow> u32 option \<Rightarrow> nat \<Rightarrow> ('g, 't) device" where
  "device_new blank T now software indices obf amnezia probe_reply_bytes_per_sec mtu =
     \<lparr> dv_key_pair = None, dv_peers = [], dv_by_idx = Map.empty, dv_by_ip = it_new T,
       dv_store = (\<lambda>_. blank), dv_fresh = 0, dv_next_index = indices, dv_obf = obf,
       dv_amnezia = amnezia\<lparr> content_padding_mtu := of_nat (min mtu 65535) \<rparr>,
       dv_limiter = None,
       dv_responder = map_option (probe_responder_new now software)
         (option_filter (\<lambda>rate. rate > 0) probe_reply_bytes_per_sec),
       dv_hints = pending_default, dv_mtu = mtu \<rparr>"

section \<open>Control operations\<close>

definition remove_peer :: "'t ip_table \<Rightarrow> bytes \<Rightarrow> ('g, 't) device \<Rightarrow> ('g, 't) device" where
  "remove_peer T pub_key d =
     (case map_of (dv_peers d) pub_key of
        None \<Rightarrow> d
      | Some peer \<Rightarrow>
          let d = d\<lparr> dv_peers := filter (\<lambda>e. fst e \<noteq> pub_key) (dv_peers d), dv_hints := hints_clear (dv_hints d) \<rparr>;
              d = dv_upd_peer peer shutdown_endpoint d;
              d = d\<lparr> dv_by_idx := (dv_by_idx d)(peer_index (dv_store d peer) := None) \<rparr>
          in d\<lparr> dv_by_ip := allowed_remove T (\<lambda>p. p = peer) (dv_by_ip d) \<rparr>)"

fun insert_prefixes :: "'t ip_table \<Rightarrow> nat \<Rightarrow> (ip_addr \<times> u8) list \<Rightarrow> 't \<Rightarrow> 't option" where
  "insert_prefixes T peer [] t = Some t"
| "insert_prefixes T peer ((addr, cidr) # rest) t = do {
     t \<leftarrow> allowed_insert T addr (ucast cidr) peer t;
     insert_prefixes T peer rest t }"

definition merge_peer ::
  "'g world \<Rightarrow> 't ip_table \<Rightarrow> nat \<Rightarrow> bool \<Rightarrow> socket_addr option \<Rightarrow> (ip_addr \<times> u8) list \<Rightarrow> (u16 \<times> u16) option
    \<Rightarrow> bytes option \<Rightarrow> ('g, 't) device \<Rightarrow> ('g, 't) device option" where
  "merge_peer W T peer replace_ips endpoint allowed_ips keepalive0 preshared_key d =
     (let d = (case endpoint of
           Some addr \<Rightarrow>
             let addr = canonical_endpoint addr;
                 d = (if peer_addr (dv_store d peer) \<noteq> Some addr
                      then dv_upd_peer peer (\<lambda>p. p\<lparr> peer_tunnel := discard_imitation_hint (peer_tunnel p) \<rparr>) d
                      else d)
             in dv_upd_peer peer (set_endpoint addr) d
         | None \<Rightarrow> d);
          d = (case keepalive0 of Some r \<Rightarrow> dv_upd_peer peer (peer_set_keepalive_range W r) d | None \<Rightarrow> d);
          d = (if preshared_key \<noteq> None then dv_upd_peer peer (peer_set_preshared_key preshared_key) d else d)
      in if replace_ips \<or> allowed_ips \<noteq> [] then do {
           let prefixes = (if replace_ips then [] else peer_allowed_ips T d peer) @ allowed_ips;
           t \<leftarrow> insert_prefixes T peer prefixes (allowed_remove T (\<lambda>p. p = peer) (dv_by_ip d));
           Some (d\<lparr> dv_by_ip := t \<rparr>) }
         else Some d)"

text \<open>What the creation of a tunnel draws: see \<open>new_with_obfuscation\<close>.\<close>

record 'g tunn_seed =
  se_limiter :: limiter_seed
  se_rng :: "string + 'g"
  se_jitter :: 'g
  se_stamper :: time_stamper

datatype device_error = PeerSetupNoKey | PeerSetup new_error

definition update_peer ::
  "'g world \<Rightarrow> 't ip_table \<Rightarrow> call \<Rightarrow> 'g tunn_seed \<Rightarrow> bytes \<Rightarrow> bool \<Rightarrow> bool \<Rightarrow> socket_addr option \<Rightarrow> (ip_addr \<times> u8) list
    \<Rightarrow> (u16 \<times> u16) option \<Rightarrow> bytes option \<Rightarrow> ('g, 't) device \<Rightarrow> ((device_error + unit) \<times> ('g, 't) device) option" where
  "update_peer W T k se pub_key remove replace_ips endpoint allowed_ips keepalive0 preshared_key d =
     (if remove then Some (Ok (), remove_peer T pub_key d)
      else case map_of (dv_peers d) pub_key of
        Some peer \<Rightarrow> do {
          d \<leftarrow> merge_peer W T peer replace_ips endpoint allowed_ips keepalive0 preshared_key d;
          Some (Ok (), d) }
      | None \<Rightarrow> do {
          (next_index, l) \<leftarrow> lfsr_next (dv_next_index d);
          let d = d\<lparr> dv_next_index := l \<rparr>;
          (case dv_key_pair d of
             None \<Rightarrow> Some (Err PeerSetupNoKey, d)
           | Some (private_key, _) \<Rightarrow>
               (case new_with_obfuscation W k (se_limiter se) (se_rng se) (se_jitter se) (se_stamper se) private_key pub_key
                       preshared_key (option_filter (\<lambda>lo. lo > 0) (map_option fst keepalive0)) next_index (dv_limiter d)
                       (dv_obf d) (dv_amnezia d) of
                  Inl e \<Rightarrow> Some (Err (PeerSetup e), d)
                | Inr tunn \<Rightarrow> do {
                    let peer = peer_new tunn next_index endpoint preshared_key;
                    let peer = (case keepalive0 of Some r \<Rightarrow> peer_set_keepalive_range W r peer | None \<Rightarrow> peer);
                    let r = dv_fresh d;
                    t \<leftarrow> insert_prefixes T r allowed_ips (dv_by_ip d);
                    Some (Ok (), d\<lparr> dv_store := (dv_store d)(r := peer), dv_fresh := r + 1,
                      dv_peers := (pub_key, r) # dv_peers d, dv_by_idx := (dv_by_idx d)(next_index \<mapsto> r),
                      dv_by_ip := t \<rparr>) })) })"

text \<open>Running an operation on the tunnel of every peer.\<close>

fun each_tunnel :: "('g tunn \<Rightarrow> 'g tunn option) \<Rightarrow> nat list \<Rightarrow> (nat \<Rightarrow> 'g peer) \<Rightarrow> (nat \<Rightarrow> 'g peer) option" where
  "each_tunnel f [] s = Some s"
| "each_tunnel f (r # rest) s = do {
     t \<leftarrow> f (peer_tunnel (s r));
     each_tunnel f rest (s(r := (s r)\<lparr> peer_tunnel := t \<rparr>)) }"

definition set_key ::
  "'g world \<Rightarrow> call \<Rightarrow> limiter_seed \<Rightarrow> bytes \<Rightarrow> ('g, 't) device \<Rightarrow> ('g, 't) device option" where
  "set_key W k ls private_key d =
     (let public_key = x25519_public (w_crypto W) private_key in
      if Some public_key = map_option snd (dv_key_pair d) then Some d
      else
        let limiter = rate_limiter_new (w_crypto W) public_key HANDSHAKE_RATE_LIMIT (ls_secret ls) (ls_nonce_key ls)
              (at_now k) (at_now k) (ls_hash1 ls) (ls_hash2 ls)
        in do {
          s \<leftarrow> each_tunnel (tunn_set_static_private W k ls private_key public_key (Some limiter))
            (map snd (dv_peers d)) (dv_store d);
          Some (d\<lparr> dv_store := s, dv_key_pair := Some (private_key, public_key),
                   dv_hints := hints_clear (dv_hints d), dv_limiter := Some limiter \<rparr>) })"

definition device_set_obfuscation ::
  "'g world \<Rightarrow> obfuscation_ranges \<Rightarrow> amnezia_config \<Rightarrow> ('g, 't) device \<Rightarrow> (bool \<times> ('g, 't) device) option" where
  "device_set_obfuscation W obf amnezia d =
     (if dv_obf d = obf \<and> dv_amnezia d = amnezia then Some (False, d)
      else do {
        let d = d\<lparr> dv_obf := obf, dv_amnezia := amnezia, dv_hints := hints_clear (dv_hints d) \<rparr>;
        s \<leftarrow> each_tunnel (set_obfuscation W obf amnezia) (map snd (dv_peers d)) (dv_store d);
        Some (True, d\<lparr> dv_store := s \<rparr>) })"

definition clear_peers :: "'t ip_table \<Rightarrow> ('g, 't) device \<Rightarrow> ('g, 't) device" where
  "clear_peers T d =
     d\<lparr> dv_hints := hints_clear (dv_hints d),
        dv_store := (\<lambda>r. if r \<in> snd ` set (dv_peers d) then shutdown_endpoint (dv_store d r) else dv_store d r),
        dv_peers := [], dv_by_idx := Map.empty, dv_by_ip := it_new T \<rparr>"

text \<open>The monitor of the interface's MTU (\<open>register_mtu_monitor\<close> of \<open>device/api.rs\<close>).\<close>

definition refresh_mtu :: "nat option \<Rightarrow> ('g, 't) device \<Rightarrow> ('g, 't) device option" where
  "refresh_mtu read d =
     (case read of
        None \<Rightarrow> Some d
      | Some n \<Rightarrow>
          let d = d\<lparr> dv_mtu := n \<rparr>; mtu = of_nat (min n 65535)
          in if content_padding_mtu (dv_amnezia d) \<noteq> mtu then do {
               s \<leftarrow> each_tunnel (\<lambda>t. Some (set_content_padding_mtu mtu t)) (map snd (dv_peers d)) (dv_store d);
               Some (d\<lparr> dv_amnezia := (dv_amnezia d)\<lparr> content_padding_mtu := mtu \<rparr>, dv_store := s \<rparr>) }
             else Some d)"

end
