(* ===== verification/Device_Io.thy ===== *)
theory Device_Io
  imports Device
begin

text \<open>
  What the event handlers of the device do (\<open>device/mod.rs\<close>): one datagram on the shared listener
  (\<open>register_udp_handler\<close>), one on a socket connected to a peer (\<open>register_conn_handler\<close>), one packet of
  the interface (\<open>register_iface_handler\<close>), and the periodic timers (\<open>register_timers\<close>). A handler's
  buffer is an argument, given for each call. What it sends is the list of outputs, in order.
\<close>

datatype dev_out = OutUdp socket_addr bytes | OutTun bytes

text \<open>The generators of a worker: for probe replies, for junk, and of the operating system.\<close>

record 'g worker_rngs =
  wk_probe :: 'g
  wk_junk :: 'g
  wk_os :: 'g

section \<open>Authentication\<close>

definition peer_named ::
  "'g world \<Rightarrow> bytes \<Rightarrow> bytes \<Rightarrow> packet \<Rightarrow> ('g, 't) device \<Rightarrow> wg_error + nat" where
  "peer_named W private_key public_key packet d =
     (let by_index = (\<lambda>idx. case dv_by_idx d (drop_bit 8 idx) of Some r \<Rightarrow> Ok r | None \<Rightarrow> Err WrongIndex)
      in case packet of
           PHandshakeInit p \<Rightarrow>
             (case parse_handshake_anon (w_crypto W) private_key public_key p of
                Inr hh \<Rightarrow>
                  (case map_of (dv_peers d) (hh_peer_static_public hh) of Some r \<Rightarrow> Ok r | None \<Rightarrow> Err WrongKey)
              | Inl _ \<Rightarrow> Err WrongKey)
         | PHandshakeResponse p \<Rightarrow> by_index (hr_receiver_idx p)
         | PPacketCookieReply p \<Rightarrow> by_index (cr_receiver_idx p)
         | PPacketData p \<Rightarrow> by_index (pd_receiver_idx p))"

definition authenticate_anonymous ::
  "'g world \<Rightarrow> call \<Rightarrow> nat \<Rightarrow> bytes \<Rightarrow> bytes \<Rightarrow> packet \<Rightarrow> ('g, 't) device
    \<Rightarrow> (wg_error + (nat \<times> authenticated)) \<times> ('g, 't) device" where
  "authenticate_anonymous W k dst_len private_key public_key packet d =
     (case peer_named W private_key public_key packet d of
        Inl e \<Rightarrow> (Err e, d)
      | Inr r \<Rightarrow>
          (case tunn_authenticate W k dst_len packet (peer_tunnel (dv_store d r)) of
             (Inl e, t) \<Rightarrow> (Err e, dv_upd_peer r (\<lambda>p. p\<lparr> peer_tunnel := t \<rparr>) d)
           | (Inr a, t) \<Rightarrow> (Ok (r, a), dv_upd_peer r (\<lambda>p. p\<lparr> peer_tunnel := t \<rparr>) d)))"

section \<open>The shared listener\<close>

text \<open>
  Sending what a tunnel has queued, until it has nothing more for the network. The loop ends when the
  tunnel says so; \<open>None\<close> is a panic or a loop that does not end.
\<close>

partial_function (option) flush_queue ::
  "'g world \<Rightarrow> call \<Rightarrow> bytes \<Rightarrow> 'g tunn \<Rightarrow> (bytes list \<times> 'g tunn) option" where
  "flush_queue W k dst t = do {
     (result, t) \<leftarrow> decapsulate W k None [] dst t;
     (case result of
        TrWriteToNetwork packet \<Rightarrow> do {
          (packets, t) \<leftarrow> flush_queue W k dst t;
          Some (packet # packets, t) }
      | _ \<Rightarrow> Some ([], t)) }"

text \<open>The outputs of a result, and of the queue behind it when it went to the network.\<close>

definition carry_result ::
  "'g world \<Rightarrow> 't ip_table \<Rightarrow> call \<Rightarrow> bytes \<Rightarrow> nat \<Rightarrow> socket_addr \<Rightarrow> tunn_result \<Rightarrow> ('g, 't) device
    \<Rightarrow> (dev_out list \<times> ('g, 't) device) option" where
  "carry_result W T k dst r addr result d =
     (case result of
        TrWriteToNetwork packet \<Rightarrow> do {
          (packets, t) \<leftarrow> flush_queue W k dst (tunnel_at d r);
          Some (map (OutUdp addr) (packet # packets), put_tunnel r t d) }
      | TrWriteToTunnelV4 packet a \<Rightarrow> Some (if peer_owns T d r (IpV4 a) then [OutTun packet] else [], d)
      | TrWriteToTunnelV6 packet a \<Rightarrow> Some (if peer_owns T d r (IpV6 a) then [OutTun packet] else [], d)
      | _ \<Rightarrow> Some ([], d))"

definition listener_accepted ::
  "'g world \<Rightarrow> 't ip_table \<Rightarrow> call \<Rightarrow> bytes \<Rightarrow> socket_addr \<Rightarrow> bytes \<Rightarrow> nat \<Rightarrow> authenticated \<Rightarrow> ('g, 't) device
    \<Rightarrow> (dev_out list \<times> ('g, 't) device) option" where
  "listener_accepted W T k dst from datagram r packet d = do {
     let auto_initiation = (im_protocol (cfg_imitation (dv_amnezia d)) = ImAuto \<and> is_auth_init packet);
     (found, hints) \<leftarrow> (if auto_initiation then hints_get (at_now k) from (dv_hints d) else Some (None, dv_hints d));
     let d = d\<lparr> dv_hints := hints \<rparr>;
     (result, p) \<leftarrow> commit_anonymous W k packet from datagram found dst
       ((dv_store d r)\<lparr> peer_tunnel := tunnel_at d r \<rparr>);
     let d = put_tunnel r (peer_tunnel p) (dv_upd_peer r (\<lambda>_. p) d);
     (if is_err result then Some ([], d)
      else do {
        let d = (if auto_initiation \<and> imitation_protocol_of (peer_tunnel p) \<noteq> ImNone
                 then d\<lparr> dv_hints := hints_discard from (dv_hints d) \<rparr> else d);
        carry_result W T k dst r from result d }) }"

definition listener_cookie ::
  "'g world \<Rightarrow> call \<Rightarrow> bytes \<Rightarrow> socket_addr \<Rightarrow> bytes \<Rightarrow> cookie_demand \<Rightarrow> rate_limiter \<Rightarrow> 'g worker_rngs \<Rightarrow> ('g, 't) device
    \<Rightarrow> (dev_out list \<times> 'g worker_rngs \<times> ('g, 't) device) option" where
  "listener_cookie W k dst from datagram demand l ws d =
     (case format_cookie_demand (w_crypto W) (w_rng W) (dv_obf d) (wk_os ws) demand (length dst) l of (cookie, g, l) \<Rightarrow>
      let ws = ws\<lparr> wk_os := g \<rparr>; d = d\<lparr> dv_limiter := Some l \<rparr> in
      (case cookie of
         Inl _ \<Rightarrow> Some ([], ws, d)
       | Inr cookie \<Rightarrow>
           let packet_len = length datagram; reply_len = cookie_reply_len (dv_amnezia d) (length cookie) in
           (case cookie_verdict_for from packet_len reply_len of
              CvSend \<Rightarrow> do {
                (c, hints) \<leftarrow> cookie_config (at_now k) (dv_amnezia d) from datagram (dv_hints d);
                (out, g) \<leftarrow> prepend_outbound_with_trailer (w_rng W) (w_cipher W) c (dv_obf d) (into_dst cookie dst)
                  (length cookie) (Some (trailer_room_cookie_reply packet_len)) (wk_junk ws);
                Some (case out of
                        Inr out \<Rightarrow> if \<not> reply_amplifies packet_len (length out) then [OutUdp from out] else []
                      | Inl _ \<Rightarrow> [],
                      ws\<lparr> wk_junk := g \<rparr>, d\<lparr> dv_hints := hints \<rparr>) }
            | _ \<Rightarrow> Some ([], ws, d))))"

definition listener_datagram ::
  "'g world \<Rightarrow> 't ip_table \<Rightarrow> call \<Rightarrow> bytes \<Rightarrow> socket_addr \<Rightarrow> bytes \<Rightarrow> 'g worker_rngs \<Rightarrow> ('g, 't) device
    \<Rightarrow> (dev_out list \<times> 'g worker_rngs \<times> ('g, 't) device) option" where
  "listener_datagram W T k dst from datagram ws d =
     (case (dv_key_pair d, dv_limiter d) of
        (Some (private_key, public_key), Some l) \<Rightarrow> do {
          (ingress, responder, g, hints) \<leftarrow> hints_classify (w_rng W) (w_cipher W) (at_now k) datagram (dv_amnezia d)
            (dv_obf d) from (dv_responder d) (wk_probe ws) (dv_hints d);
          let ws = ws\<lparr> wk_probe := g \<rparr>;
          let d = d\<lparr> dv_responder := responder, dv_hints := hints \<rparr>;
          (case ingress of
             IngressReply reply \<Rightarrow> Some ([OutUdp from reply], ws, d)
           | IngressDrop \<Rightarrow> Some ([], ws, d)
           | IngressWireguard candidates \<Rightarrow>
               (case receive (w_crypto W) (w_cipher W) (gate_clock_of k) (dv_amnezia d) (dv_obf d)
                       (Some (SrcEndpoint from)) candidates datagram
                       (authenticate_anonymous W k (length dst) private_key public_key) l d of
                  (outcome, l, d) \<Rightarrow>
                    let d = d\<lparr> dv_limiter := Some l \<rparr> in
                    (case outcome of
                       Accepted (r, packet) \<Rightarrow> do {
                         (outs, d) \<leftarrow> listener_accepted W T k dst from datagram r packet d;
                         Some (outs, ws, d) }
                     | InCookie demand \<Rightarrow> listener_cookie W k dst from datagram demand l ws d
                     | Refused _ hint_allowed \<Rightarrow> do {
                         hints \<leftarrow> (if hint_allowed then observe_refused (at_now k) datagram (dv_amnezia d) from (dv_hints d)
                                  else Some (dv_hints d));
                         Some ([], ws, d\<lparr> dv_hints := hints \<rparr>) }
                     | NotOurs \<Rightarrow> Some ([], ws, d)))) }
      | _ \<Rightarrow> Some ([], ws, d))"

section \<open>Connected sockets, the interface and the timers\<close>

definition conn_datagram ::
  "'g world \<Rightarrow> 't ip_table \<Rightarrow> call \<Rightarrow> bytes \<Rightarrow> nat \<Rightarrow> nat \<Rightarrow> socket_addr \<Rightarrow> bytes \<Rightarrow> ('g, 't) device
    \<Rightarrow> (dev_out list \<times> ('g, 't) device) option" where
  "conn_datagram W T k dst r lifetime endpoint datagram d =
     (if \<not> is_current_connection lifetime endpoint (dv_store d r) then Some ([], d)
      else do {
        (result, t) \<leftarrow> receive_on_connection W k endpoint datagram dst (tunnel_at d r);
        carry_result W T k dst r endpoint result (put_tunnel r t d) })"

definition iface_packet ::
  "'g world \<Rightarrow> 't ip_table \<Rightarrow> call \<Rightarrow> bytes \<Rightarrow> bytes \<Rightarrow> ('g, 't) device \<Rightarrow> (dev_out list \<times> ('g, 't) device) option" where
  "iface_packet W T k dst src d =
     (case dst_address src of
        None \<Rightarrow> Some ([], d)
      | Some dst_addr \<Rightarrow>
          (case allowed_find T dst_addr (dv_by_ip d) of
             None \<Rightarrow> Some ([], d)
           | Some r \<Rightarrow> do {
               (result, t) \<leftarrow> encapsulate W k src dst (tunnel_at d r);
               Some (case (result, peer_addr (dv_store d r)) of
                       (TrWriteToNetwork packet, Some addr) \<Rightarrow> [OutUdp addr packet]
                     | _ \<Rightarrow> [],
                     put_tunnel r t d) }))"

fun run_timers ::
  "'g world \<Rightarrow> call \<Rightarrow> bytes \<Rightarrow> nat list \<Rightarrow> ('g, 't) device \<Rightarrow> (dev_out list \<times> ('g, 't) device) option" where
  "run_timers W k dst [] d = Some ([], d)"
| "run_timers W k dst (r # rest) d =
     (case peer_addr (dv_store d r) of
        None \<Rightarrow> run_timers W k dst rest d
      | Some addr \<Rightarrow> do {
          (result, t) \<leftarrow> update_timers W k dst (tunnel_at d r);
          let d = put_tunnel r t d;
          let d = (if result = TrErr ConnectionExpired then dv_upd_peer r shutdown_endpoint d else d);
          (outs, d) \<leftarrow> run_timers W k dst rest d;
          Some ((case result of TrWriteToNetwork packet \<Rightarrow> [OutUdp addr packet] | _ \<Rightarrow> []) @ outs, d) })"

definition device_timers ::
  "'g world \<Rightarrow> call \<Rightarrow> bytes \<Rightarrow> ('g, 't) device \<Rightarrow> (dev_out list \<times> ('g, 't) device) option" where
  "device_timers W k dst d = run_timers W k dst (map snd (dv_peers d)) d"

definition limiter_tick :: "call \<Rightarrow> ('g, 't) device \<Rightarrow> ('g, 't) device" where
  "limiter_tick k d = d\<lparr> dv_limiter := map_option (reset_count (at_now k)) (dv_limiter d) \<rparr>"

end
