(* ===== verification/Tunn_Address.thy ===== *)
theory Tunn_Address
  imports Tunn_Machine
begin

text \<open>
  What traffic and time leave alone in a tunnel, whatever they carry: the configuration it frames with,
  the keys of its handshake, and the upper 24 bits of its indices. All the indices a tunnel has given
  out (of its sessions, of the initiations in flight, of the message a cookie reply may answer) share
  these bits, by which a device finds the peer a datagram is for.
\<close>

record placement =
  pl_amnezia :: amnezia_config
  pl_params :: noise_params
  pl_obf :: obfuscation_ranges
  pl_index :: u32

definition session_addressed :: "u32 \<Rightarrow> session \<Rightarrow> bool" where
  "session_addressed i s \<longleftrightarrow> drop_bit 8 (receiving_index s) = i"

definition sessions_addressed :: "u32 \<Rightarrow> session option list \<Rightarrow> bool" where
  "sessions_addressed i ss \<longleftrightarrow> (\<forall>s. Some s \<in> set ss \<longrightarrow> session_addressed i s)"

definition placed :: "placement \<Rightarrow> 'g tunn \<Rightarrow> bool" where
  "placed c t \<longleftrightarrow>
     tn_amnezia t = pl_amnezia c \<and> hs_params (tn_handshake t) = pl_params c \<and> hs_obf (tn_handshake t) = pl_obf c \<and>
     hs_addressed (pl_index c) (tn_handshake t) \<and> sessions_addressed (pl_index c) (tn_sessions t)"

lemma placed_fields [simp]:
  "placed c (t\<lparr> tn_rate_limiter := l \<rparr>) = placed c t"
  "placed c (t\<lparr> tn_auto_imitation := a \<rparr>) = placed c t"
  "placed c (t\<lparr> tn_pending := p \<rparr>) = placed c t"
  "placed c (t\<lparr> tn_udp_window := w \<rparr>) = placed c t"
  "placed c (t\<lparr> tn_rx_bytes := n \<rparr>) = placed c t"
  "placed c (t\<lparr> tn_tx_bytes := n \<rparr>) = placed c t"
  "placed c (t\<lparr> tn_current := k \<rparr>) = placed c t"
  "placed c (t\<lparr> tn_packet_queue := q \<rparr>) = placed c t"
  "placed c (t\<lparr> tn_timers := tm \<rparr>) = placed c t"
  "placed c (t\<lparr> tn_meta := m \<rparr>) = placed c t"
  by (simp_all add: placed_def)

lemma placed_notes [simp]:
  "placed c (note_event e t) = placed c t" "placed c (note_output kind r t) = placed c t" "placed c (set_rng g t) = placed c t"
  by (simp_all add: placed_def note_event_def note_output_def set_rng_def)

lemma kept_placed: "kept t t' \<Longrightarrow> placed c t \<Longrightarrow> placed c t'"
  by (simp add: kept_def placed_def)

lemma placed_tick [simp]: "placed c t \<Longrightarrow> placed c (timer_tick W n t)"
  by (rule kept_placed [OF kept_timer_tick])

lemma sessions_addressed_update:
  "sessions_addressed i ss \<Longrightarrow> session_addressed i s \<Longrightarrow> sessions_addressed i (ss[k := Some s])"
  "sessions_addressed i ss \<Longrightarrow> sessions_addressed i (ss[k := None])"
  "sessions_addressed i (replicate n None)"
  by (auto simp: sessions_addressed_def dest!: set_update_subset_insert [THEN subsetD])

lemma sessions_addressed_nth: "sessions_addressed i ss \<Longrightarrow> k < length ss \<Longrightarrow> ss ! k = Some s \<Longrightarrow> session_addressed i s"
  unfolding sessions_addressed_def by (metis nth_mem)

lemma placed_sessions:
  "placed c t \<Longrightarrow> session_addressed (pl_index c) s \<Longrightarrow> placed c (t\<lparr> tn_sessions := (tn_sessions t)[k := Some s] \<rparr>)"
  "placed c t \<Longrightarrow> placed c (t\<lparr> tn_sessions := (tn_sessions t)[k := None] \<rparr>)"
  "placed c t \<Longrightarrow> placed c (t\<lparr> tn_sessions := replicate n None \<rparr>)"
  by (simp_all add: placed_def sessions_addressed_update)

lemma placed_handshake:
  "placed c t \<Longrightarrow> hs_params h = hs_params (tn_handshake t) \<Longrightarrow> hs_obf h = hs_obf (tn_handshake t) \<Longrightarrow>
   (\<And>i. hs_addressed i (tn_handshake t) \<Longrightarrow> hs_addressed i h) \<Longrightarrow> placed c (t\<lparr> tn_handshake := h \<rparr>)"
  by (simp add: placed_def)

text \<open>A stored session replaced by itself with other counters, or by one the handshake has just made.\<close>

lemma placed_continues:
  assumes "placed c t" "tn_sessions t ! k = Some s" "continues s s'"
  shows "placed c (t\<lparr> tn_sessions := (tn_sessions t)[k := Some s'] \<rparr>)"
proof (cases "k < length (tn_sessions t)")
  case True
  then have "session_addressed (pl_index c) s'"
    using assms sessions_addressed_nth [OF _ True assms(2)]
    by (auto simp: placed_def session_addressed_def continues_def)
  then show ?thesis by (rule placed_sessions(1) [OF assms(1)])
next
  case False
  then show ?thesis using assms(1) by (simp add: placed_def list_update_beyond)
qed

section \<open>Sending\<close>

lemma encapsulate_on_session_placed:
  assumes "placed c t" "encapsulate_on_session W src dst budget t = Some (r, t')"
  shows "placed c t'"
  using encapsulate_on_session_frame [OF assms(2)]
proof (elim disjE exE conjE)
  fix s s' t1
  assume s: "tn_sessions t ! selected_slot t = Some s" "continues s s'"
    "t1 = t\<lparr> tn_sessions := (tn_sessions t)[selected_slot t := Some s'] \<rparr>" and k: "kept t1 t'"
  show ?thesis using kept_placed [OF k] placed_continues [OF assms(1) s(1,2)] s(3) by simp
qed (use assms in simp)

lemma queue_packet_placed: "queue_packet p t = (r, t') \<Longrightarrow> placed c t \<Longrightarrow> placed c t'"
  by (auto simp: queue_packet_def split: if_splits)

lemma dequeue_packet_placed: "placed c t \<Longrightarrow> placed c (snd (dequeue_packet t))"
  by (auto simp: dequeue_packet_def split: list.splits)

lemma format_initiation_placed:
  "format_handshake_initiation_with_budget W k dst force budget t = Some (r, t') \<Longrightarrow> placed c t \<Longrightarrow> placed c t'"
  by (rule kept_placed [OF kept_format_initiation])

lemma encapsulate_with_budget_placed:
  "placed c t \<Longrightarrow> encapsulate_with_budget W k src dst budget t = Some (r, t') \<Longrightarrow> placed c t'"
  by (auto simp: encapsulate_with_budget_def admit_without_session_def
      intro: encapsulate_on_session_placed queue_packet_placed format_initiation_placed
      split: if_splits bind_splits prod.splits sum.splits)

lemma drain_queue_placed:
  "placed c t \<Longrightarrow> drain_queue n W dst budget t = Some (r, t') \<Longrightarrow> placed c t'"
proof (induction n arbitrary: t)
  case (Suc n)
  note d = dequeue_packet_placed [OF Suc.prems(1)]
  show ?case
    using Suc.prems(2) d Suc.IH [of "note_event EV_QUEUE_HEAD_DROPPED (snd (dequeue_packet t))"]
      encapsulate_on_session_placed [OF d] Suc.prems(1)
    by (auto simp: requeue_packet_def split: list.splits if_splits bind_splits tunn_result.splits)
qed simp

lemma send_queued_packet_placed:
  "placed c t \<Longrightarrow> send_queued_packet W k dst budget t = Some (r, t') \<Longrightarrow> placed c t'"
  by (auto simp: send_queued_packet_def intro: drain_queue_placed format_initiation_placed split: if_splits)

section \<open>Receiving\<close>

fun token_addressed :: "u32 \<Rightarrow> authenticated \<Rightarrow> bool" where
  "token_addressed i (AuthResponse r) = session_addressed i (ar_session r)"
| "token_addressed i _ = True"

lemma authenticate_placed:
  assumes "placed c t" "authenticate_with_budget W k n budget p t = (r, t')"
  shows "placed c t'" "r = Inr a \<Longrightarrow> token_addressed (pl_index c) a"
proof -
  have "placed c t' \<and> (r = Inr a \<longrightarrow> token_addressed (pl_index c) a)"
  proof (cases p)
    case (PPacketData d)
    show ?thesis
    proof (cases "tn_sessions t ! (unat (pd_receiver_idx d) mod N_SESSIONS)")
      case (Some s)
      obtain r1 s' where r1: "receive_packet_data (w_crypto W) s d n = (r1, s')" by fastforce
      have "continues s s'" using receive_packet_data_continues [of s "w_crypto W" d n] r1 by simp
      from placed_continues [OF assms(1) Some this] show ?thesis using assms(2) PPacketData Some r1
        by (auto simp: authenticate_with_budget_def Let_def and_then_Inr_iff)
    qed (use assms PPacketData in \<open>auto simp: authenticate_with_budget_def Let_def\<close>)
  next
    case (PHandshakeResponse d)
    then show ?thesis using assms authenticate_response_addressed
      by (fastforce simp: authenticate_with_budget_def and_then_Inr_iff placed_def session_addressed_def)
  qed (use assms in \<open>auto simp: authenticate_with_budget_def and_then_Inr_iff\<close>)
  then show "placed c t'" "r = Inr a \<Longrightarrow> token_addressed (pl_index c) a" by simp_all
qed

lemma receive_placed:
  assumes "placed c t"
    "receive C SC now a0 obf src candidates datagram (authenticate_with_budget W k n budget) l t = (out, l', t')"
  shows "placed c t'" "out = Accepted a \<Longrightarrow> token_addressed (pl_index c) a"
proof -
  note d = tunnel_trial.receive_decides [OF assms(2)]
  have "placed c t' \<and> (out = Accepted a \<longrightarrow> token_addressed (pl_index c) a)"
  proof (cases out)
    case (Accepted x)
    then obtain p where "authenticate_with_budget W k n budget p t = (Inr x, t')" using d by auto
    then show ?thesis using authenticate_placed [OF assms(1)] Accepted by blast
  qed (use d assms(1) in auto)
  then show "placed c t'" "out = Accepted a \<Longrightarrow> token_addressed (pl_index c) a" by simp_all
qed

section \<open>Committing\<close>

lemma session_established_placed [simp]:
  "placed c t \<Longrightarrow> placed c (timer_tick_session_established W initiator i t)"
  by (simp add: timer_tick_session_established_def Let_def case_prod_beta)

lemma set_current_session_placed [simp]: "placed c (set_current_session i t) = placed c t"
  by (simp add: set_current_session_def Let_def)

lemma validate_placed: "placed c t \<Longrightarrow> placed c (snd (validate_decapsulated_packet W p t))"
  by (simp add: validate_decapsulated_packet_def Let_def split: list.splits option.splits ip_addr.splits)

lemma write_placed:
  "write_to_network W dst n t = Some (r, t') \<Longrightarrow> placed c t \<Longrightarrow> placed c t'"
  "write_handshake_to_network W dst n ceil t = Some (r, t') \<Longrightarrow> placed c t \<Longrightarrow> placed c t'"
  "write_to_network_with_imitation W dst n room protocol t = Some (r, t') \<Longrightarrow> placed c t \<Longrightarrow> placed c t'"
  by (rule kept_placed, erule kept_write, assumption)+

lemma commit_initiation_obf: "commit_initiation C R eph ini dst slot h = Some (r, h') \<Longrightarrow> hs_obf h' = hs_obf h"
  by (auto simp: commit_initiation_def format_handshake_response_def Let_def case_prod_beta append_mac_simps
      inc_index_avoiding_frame split: if_splits)

lemma commit_handshake_init_placed:
  assumes p: "placed c t" and c: "commit_handshake_init W k ini dst budget t = Some (r, t')"
  shows "placed c t'"
proof -
  obtain r1 h where h: "commit_initiation (w_crypto W) (w_rng W) (at_eph k) ini (length dst) (selected_slot t)
      (tn_handshake t) = Some (r1, h)"
    using c by (auto simp: commit_handshake_init_def Let_def split: bind_splits)
  have p1: "placed c (t\<lparr> tn_handshake := h \<rparr>)"
    by (rule placed_handshake [OF p]) (use h commit_initiation_addressed(1) commit_initiation_obf in \<open>auto simp: commit_initiation_frame\<close>)
  show ?thesis
  proof (cases r1)
    case (Inl e)
    then show ?thesis using c h p1 by (auto simp: commit_handshake_init_def Let_def)
  next
    case (Inr ps)
    obtain packet s where ps: "ps = (packet, s)" by fastforce
    let ?i = "session_local_index s"
    obtain m where m: "session_stored (?i mod N_SESSIONS) (tn_meta t) = Some m"
      using c h Inr ps by (auto simp: commit_handshake_init_def Let_def split: bind_splits)
    let ?t = "(t\<lparr> tn_handshake := h \<rparr>)\<lparr> tn_sessions := (tn_sessions t)[?i mod N_SESSIONS := Some s], tn_meta := m \<rparr>"
    have "session_addressed (pl_index c) s"
      using commit_initiation_addressed(2) [OF _ h, of "pl_index c" packet s] p Inr ps by (simp add: placed_def session_addressed_def)
    from placed_sessions(1) [OF p1 this] have "placed c ?t" by simp
    then have p2: "placed c (timer_tick_session_established W False ?i
        (timer_tick W TimeLastPacketSent (timer_tick W TimeLastPacketReceived ?t)))"
      by simp
    show ?thesis using c h Inr ps m write_placed(2) [OF _ p2]
      by (auto simp: commit_handshake_init_def Let_def split: bind_splits)
  qed
qed

lemma commit_handshake_response_placed:
  assumes p: "placed c t" "session_addressed (pl_index c) (ar_session response)"
    and c: "commit_handshake_response W response dst budget t = Some (r, t')"
  shows "placed c t'"
proof -
  define t1 where "t1 = t\<lparr> tn_handshake := snd (commit_response response (tn_handshake t)),
    tn_udp_window := grown_window (tn_udp_window t) (transport_window_observation (tn_amnezia t) 0) \<rparr>"
  define pg where "pg = content_padding_for_frame (w_rng W) (tn_amnezia t1) 0 (budget_ceiling (length dst) (ob_transport budget))
    (transport_junk_size (tn_amnezia t)) (tn_udp_window t1) (tn_rng t1)"
  define f where "f = format_packet_data (w_crypto W) (w_rng W) (hs_obf (tn_handshake t1)) (snd pg) (ar_session response) []
    (fst pg) (length dst)"
  define t2 where "t2 = set_rng (snd (snd f)) t1"
  define s where "s = fst (snd f)"
  have s: "session_addressed (pl_index c) s"
    using format_packet_data_continues [of "ar_session response" "w_crypto W" "w_rng W" "hs_obf (tn_handshake t1)" "snd pg" "[]"
        "fst pg" "length dst"] p(2)
    by (simp add: s_def f_def continues_def session_addressed_def)
  have "placed c (t\<lparr> tn_handshake := snd (commit_response response (tn_handshake t)) \<rparr>)"
    by (rule placed_handshake [OF p(1)]) (simp_all add: commit_response_frame commit_response_addressed)
  then have p2: "placed c t2" by (simp add: t2_def t1_def)
  let ?est = "\<lambda>m. timer_tick W TimeLastPacketSent (set_current_session (session_local_index s)
    (timer_tick_session_established W True (session_local_index s mod N_SESSIONS)
      (timer_tick W TimeLastPacketReceived
        (t2\<lparr> tn_sessions := (tn_sessions t2)[session_local_index s mod N_SESSIONS := Some s], tn_meta := m \<rparr>))))"
  have "placed c (?est m)" for m using placed_sessions(1) [OF p2 s] by simp
  then have "placed c t3" if "write_to_network W b n (?est m) = Some (r, t3)" for b n m t3
    using write_placed(1) [OF that] by simp
  then show ?thesis using c p2
    by (auto simp: commit_handshake_response_def Let_def case_prod_beta commit_response_frame(3)
        t1_def [symmetric] pg_def [symmetric] f_def [symmetric] t2_def [symmetric] s_def [symmetric]
        split: sum.splits bind_splits)
qed

lemma commit_cookie_reply_placed: "placed c t \<Longrightarrow> placed c (snd (commit_cookie_reply W cookie t))"
  unfolding commit_cookie_reply_def snd_conv
  by (intro placed_tick placed_handshake) (simp_all add: commit_cookie_def hs_addressed_def)

lemma commit_data_placed: "placed c t \<Longrightarrow> placed c (snd (commit_data W i p t))"
  by (simp add: commit_data_def Let_def validate_placed)

lemma commit_with_budget_placed:
  assumes "placed c t" "token_addressed (pl_index c) packet" "commit_with_budget W k packet dst budget t = Some (r, t')"
  shows "placed c t'"
proof -
  let ?t = "t\<lparr> tn_meta := note_input (input_kind_of packet) (authenticated_kind_of packet) (tn_meta t) \<rparr>"
  have p: "placed c ?t" using assms(1) by simp
  show ?thesis
  proof (cases packet)
    case (AuthInit a)
    then show ?thesis using assms(3) commit_handshake_init_placed [OF p] by (simp add: commit_with_budget_def Let_def)
  next
    case (AuthResponse a)
    then show ?thesis using assms(2,3) commit_handshake_response_placed [OF p] by (simp add: commit_with_budget_def Let_def)
  next
    case (AuthCookie a)
    then show ?thesis using assms(3) commit_cookie_reply_placed [OF p, of W a] by (auto simp: commit_with_budget_def Let_def)
  next
    case (AuthData i q)
    then show ?thesis using assms(3) commit_data_placed [OF p, of W i q] by (auto simp: commit_with_budget_def Let_def)
  qed
qed

lemma learn_imitation_placed [simp]: "placed c (learn_imitation datagram hint0 t) = placed c t"
  by (subst learn_imitation_frame) simp

lemma commit_with_imitation_placed:
  assumes "placed c t" "token_addressed (pl_index c) packet"
    "commit_with_imitation_and_budget W k packet datagram hint0 dst budget t = Some (r, t')"
  shows "placed c t'"
proof -
  define t1 where "t1 = (if (im_protocol (cfg_imitation (tn_amnezia t)) = ImAuto \<and> is_auth_init packet) \<and>
      ai_learned (tn_auto_imitation t) = None then learn_imitation datagram hint0 t else t)"
  have "placed c t1" using assms(1) by (simp add: t1_def)
  then have "placed c t2" if "commit_with_budget W k packet dst budget t1 = Some (r1, t2)" for r1 t2
    using commit_with_budget_placed [OF _ assms(2) that] by simp
  then show ?thesis using assms(1,3)
    unfolding commit_with_imitation_and_budget_def Let_def t1_def [symmetric]
    by (cases "commit_with_budget W k packet dst budget t1") (auto split: if_split_asm)
qed

lemma answer_cookie_placed:
  assumes "placed c t" "answer_cookie W k src datagram demand0 dst t = Some (r, t')"
  shows "placed c t'"
proof -
  define f where "f = format_cookie_demand (w_crypto W) (w_rng W) (hs_obf (tn_handshake t)) (tn_rng t) demand0
            COOKIE_REPLY_SZ (tn_rate_limiter t)"
  define t1 where "t1 = (set_rng (fst (snd f)) t)\<lparr> tn_rate_limiter := snd (snd f) \<rparr>"
  have "placed c t1" using assms(1) by (simp add: t1_def)
  then show ?thesis using assms(2)
    by (auto simp: answer_cookie_def Let_def f_def [symmetric] case_prod_beta t1_def [symmetric]
        intro: write_placed(3) split: sum.splits if_splits bind_splits)
qed

lemma decapsulate_source_placed:
  assumes p: "placed c t" and d: "decapsulate_source W k src datagram dst budget t = Some (r, t')"
  shows "placed c t'"
proof (cases "datagram = []")
  case True
  then show ?thesis using p d send_queued_packet_placed by (auto simp: decapsulate_source_def Let_def)
next
  case False
  from decapsulate_source_cases [OF False, of W k src dst budget t] show ?thesis
  proof cases
    case (1 a)
    then show ?thesis using p d by auto
  next
    case (2 a out l t1)
    have "placed c (t\<lparr> tn_auto_imitation := a \<rparr>)" using p by simp
    note rc = receive_placed [OF this 2(1)]
    have p1: "placed c (t1\<lparr> tn_rate_limiter := l \<rparr>)" using rc(1) by simp
    show ?thesis
      using d 2(2) p1 commit_with_imitation_placed [OF p1 rc(2)] answer_cookie_placed [OF p1]
      by (cases out) (auto simp: carry_out_def Let_def)
  qed
qed

section \<open>The periodic poll\<close>

lemma expire_cycle_placed: "placed c t \<Longrightarrow> placed c (expire_cycle k t)"
proof -
  assume "placed c t"
  then have "placed c (t\<lparr> tn_handshake := set_expired (tn_handshake t) \<rparr>)"
    by (rule placed_handshake) (simp_all add: set_expired_def hs_addressed_def)
  then show ?thesis using placed_sessions(3) by (fastforce simp: expire_cycle_def clear_all_def)
qed

lemma age_session_placed: "placed c t \<Longrightarrow> age_session after now i t = Some t' \<Longrightarrow> placed c t'"
  using placed_sessions(2) [of c t i] by (auto simp: age_session_def Let_def split: bind_splits if_splits)

lemma age_sessions_placed: "placed c t \<Longrightarrow> age_sessions after now is t = Some t' \<Longrightarrow> placed c t'"
proof (induction "is" arbitrary: t)
  case (Cons i js)
  from Cons.prems(2) obtain t1 where t1: "age_session after now i t = Some t1" "age_sessions after now js t1 = Some t'"
    by (auto split: bind_splits)
  show ?case by (rule Cons.IH [OF age_session_placed [OF Cons.prems(1) t1(1)] t1(2)])
qed simp

lemma expire_bounds_placed:
  "placed c t \<Longrightarrow> expire_past_absolute_bounds k now t = Some (b, t') \<Longrightarrow> placed c t'"
  by (auto simp: expire_past_absolute_bounds_def Let_def expire_cycle_placed split: if_splits bind_splits)

lemma send_keepalive_placed:
  "placed c t \<Longrightarrow> send_keepalive W k dst rollback budget t = Some (r, t') \<Longrightarrow> placed c t'"
  by (auto simp: send_keepalive_def Let_def dest: encapsulate_with_budget_placed split: if_splits bind_splits prod.splits)

lemma select_demand_placed: "placed c t \<Longrightarrow> select_demand W k now t = Some (d, t') \<Longrightarrow> placed c t'"
  by (auto simp: select_demand_def Let_def case_prod_beta take_handshake_latch_def take_passive_keepalive_def
      take_persistent_keepalive_def expire_cycle_placed split: option.splits if_splits bind_splits)

lemma serve_initiation_placed:
  "placed c t \<Longrightarrow> serve_initiation W k dst latch budget t = Some (r, t') \<Longrightarrow> placed c t'"
  by (auto simp: serve_initiation_def Let_def dest: format_initiation_placed split: bind_splits option.splits if_splits)

lemma cookie_aged_placed:
  assumes "placed c t"
  shows "placed c (t\<lparr> tn_handshake := clear_cookie (tn_handshake t) \<rparr>)"
  by (rule placed_handshake [OF assms]) (simp_all add: clear_cookie_def hs_addressed_def)

lemma poll_placed:
  assumes p: "placed c t" and r: "poll W k dst rollback budget now t = Some (r, t')"
  shows "placed c t'"
proof -
  have adv: "advance_amnezia_junk W k dst budget t1 = Some (r1, t2) \<Longrightarrow> placed c t1 \<Longrightarrow> placed c t2" for t1 t2 :: "'a tunn" and r1
    by (rule kept_placed [OF kept_advance])
  have tail: "placed c t3"
    if "placed c t1" "(do {
           (d, t) \<leftarrow> select_demand W k now t1;
           (case d of
              Inl _ \<Rightarrow> Some (TrErr ConnectionExpired, t)
            | Inr (WantInitiation latch) \<Rightarrow> serve_initiation W k dst latch budget t
            | Inr WantKeepalive \<Rightarrow> send_keepalive W k dst rollback budget t
            | Inr NoDemand \<Rightarrow> Some (TrDone, t)) }) = Some (r1, t3)" for t1 t3 :: "'a tunn" and r1
  proof -
    note h = that
    obtain d t2 where d: "select_demand W k now t1 = Some (d, t2)" using h(2) by (auto split: bind_splits)
    note p2 = select_demand_placed [OF h(1) d]
    show ?thesis using h(2) d p2 serve_initiation_placed [OF p2] send_keepalive_placed [OF p2]
      by (auto split: sum.splits demand.splits)
  qed
  show ?thesis
  proof (cases "burst_owes_expired_reset t \<or> tn_pending t \<noteq> None \<or> hs_is_expired (tn_handshake t)")
    case True
    have sk: "send_keepalive W k dst rollback budget t1 = Some (r, t') \<Longrightarrow> placed c t1 \<Longrightarrow> placed c t'" for t1
      by (rule send_keepalive_placed)
    have ex: "expire_past_absolute_bounds k now t = Some (b, t1) \<Longrightarrow> placed c t1" for b t1
      by (rule expire_bounds_placed [OF p])
    show ?thesis using True r p unfolding poll_def
      by (auto simp: Let_def dest!: ex dest: adv sk split: if_splits bind_splits)
  next
    case False
    define cookie where "cookie = (if has_cookie (tn_handshake t) then do {
         age \<leftarrow> duration_minus now (tm_timers (tn_timers t) TimeCookieReceived);
         Some (if age \<ge> COOKIE_EXPIRATION_TIME then t\<lparr> tn_handshake := clear_cookie (tn_handshake t) \<rparr> else t) }
       else Some t)"
    obtain t1 b t2 where t1: "cookie = Some t1" and t2: "expire_past_absolute_bounds k now t1 = Some (b, t2)"
      and rest: "(if b then Some (TrErr ConnectionExpired, t2) else do {
           (d, t) \<leftarrow> select_demand W k now t2;
           (case d of
              Inl _ \<Rightarrow> Some (TrErr ConnectionExpired, t)
            | Inr (WantInitiation latch) \<Rightarrow> serve_initiation W k dst latch budget t
            | Inr WantKeepalive \<Rightarrow> send_keepalive W k dst rollback budget t
            | Inr NoDemand \<Rightarrow> Some (TrDone, t)) }) = Some (r, t')"
      using r False unfolding poll_def cookie_def [symmetric] by (auto split: bind_splits)
    have "placed c t1"
      using t1 p cookie_aged_placed [OF p] unfolding cookie_def by (auto split: if_splits bind_splits)
    then have p2: "placed c t2" using t2 by (rule expire_bounds_placed)
    show ?thesis
    proof (cases b)
      case True
      then show ?thesis using rest p2 by simp
    next
      case False
      then show ?thesis using tail [OF p2] rest by simp
    qed
  qed
qed

lemma update_timers_placed:
  assumes p: "placed c t" and u: "update_timers_with_budget W k dst budget t = Some (r, t')"
  shows "placed c t'"
proof -
  define now where "now = monotonic_now (at_now k) (tn_timers t)"
  define t1 where "t1 = (if tm_should_reset_rr (tn_timers t)
      then t\<lparr> tn_rate_limiter := reset_count (at_now k) (tn_rate_limiter t) \<rparr> else t)
    \<lparr> tn_timers := set_timer TimeCurrent now (tn_timers t) \<rparr>"
  have p1: "placed c t1" using p by (simp add: t1_def)
  obtain t2 where "update_session_timers now t1 = Some t2"
    and r: "poll W k dst (keepalive_rollback_of t) budget now t2 = Some (r, t')"
    using u by (auto simp: update_timers_with_budget_def Let_def now_def t1_def split: bind_splits if_splits)
  then have "placed c t2" using age_sessions_placed [OF p1] unfolding update_session_timers_def by blast
  then show ?thesis using r by (rule poll_placed)
qed

section \<open>Construction and reconfiguration\<close>

lemma new_placed:
  assumes "new_with_obfuscation W k ls seed jseed ts sk ppk psk ka index limiter obf amnezia = Ok t"
  shows "placed \<lparr> pl_amnezia = amnezia,
      pl_params = noise_params_new (w_crypto W) sk (x25519_public (w_crypto W) sk) ppk psk, pl_obf = obf,
      pl_index = drop_bit 8 (push_bit 8 index) \<rparr> t"
  using assms
  by (auto simp: new_with_obfuscation_def Let_def handshake_new_def and_then_Inr_iff placed_def sessions_addressed_update(3)
      hs_addressed_def split: sum.splits)

lemma set_static_private_placed:
  assumes "placed c t" "tunn_set_static_private W k ls sk pk limiter t = Some t'"
  shows "placed (c\<lparr> pl_params := (pl_params c)\<lparr> np_static_private := sk, np_static_public := pk,
      np_static_shared := x25519_dh (w_crypto W) sk (np_peer_static_public (pl_params c)) \<rparr> \<rparr>) t'"
  using assms
  by (auto simp: tunn_set_static_private_def Let_def hs_set_static_private_def noise_params_set_static_private_def placed_def
      hs_addressed_def sessions_addressed_update(3) split: bind_splits if_splits)

lemma set_preshared_key_placed:
  "placed c t \<Longrightarrow> placed (c\<lparr> pl_params := (pl_params c)\<lparr> np_preshared_key := psk \<rparr> \<rparr>) (tunn_set_preshared_key psk t)"
  by (auto simp: tunn_set_preshared_key_def Let_def placed_def hs_set_preshared_key_def hs_addressed_def
      sessions_addressed_update(3))

lemma set_mtu_placed:
  "placed c t \<Longrightarrow> placed (c\<lparr> pl_amnezia := (pl_amnezia c)\<lparr> content_padding_mtu := mtu \<rparr> \<rparr>) (set_content_padding_mtu mtu t)"
  by (simp add: set_content_padding_mtu_def placed_def)

lemma path_placed [simp]:
  "placed c (reset_udp_window t) = placed c t" "placed c (snd (begin_new_path t)) = placed c t"
  "placed c (restore_udp_window w t) = placed c t" "placed c (discard_imitation_hint t) = placed c t"
  "placed c (snd (set_persistent_keepalive_range W low high t)) = placed c t"
  by (simp_all add: reset_udp_window_def begin_new_path_def restore_udp_window_def discard_imitation_hint_def
      set_persistent_keepalive_range_def split: option.splits)

lemma set_obfuscation_placed:
  assumes "placed c t" "check_header_protection_nonce amnezia = Ok ()" "set_obfuscation W obf amnezia t = Some t'"
  shows "placed (c\<lparr> pl_amnezia := amnezia, pl_obf := obf \<rparr>) t'"
proof -
  let ?c = "c\<lparr> pl_amnezia := amnezia, pl_obf := obf \<rparr>"
  define t1 where "t1 = carry_imitation obf amnezia t"
  have "t1 = t\<lparr> tn_auto_imitation := tn_auto_imitation t1 \<rparr>"
    by (simp add: t1_def carry_imitation_def Let_def split: option.splits)
  then have "placed c t1" using assms(1) by (metis placed_fields(2))
  then have p: "placed ?c (t1\<lparr> tn_handshake := hs_set_obfuscation obf (tn_handshake t1), tn_amnezia := amnezia \<rparr>)"
    (is "placed _ ?t2") by (simp add: placed_def hs_set_obfuscation_def hs_addressed_def)
  have "placed ?c t3" if "restart_pending_burst W ?t2 = Some t3" for t3
    using that p by (auto simp: restart_pending_burst_def dest: kept_placed [OF kept_new_burst] split: option.splits bind_splits)
  moreover have "placed ?c (redraw_tunable_timers W t3)" if "placed ?c t3" for t3 :: "'a tunn"
    using that by (simp add: redraw_tunable_timers_def Let_def case_prod_beta)
  ultimately show ?thesis using assms(2,3) p
    unfolding set_obfuscation_def try_set_obfuscation_def apply_obfuscation_def Let_def t1_def [symmetric]
    by (auto split: if_splits bind_splits)
qed

end
