(* ===== verification/Tunn_Properties.thy ===== *)
theory Tunn_Properties
  imports Tunn_Machine
begin

text \<open>
  The properties of the tunnel: what every reachable tunnel satisfies, that no operation panics, who
  owns a packet handed to the tunnel, what a datagram may change before it is authenticated, and what is
  delivered.
\<close>

section \<open>A sample tunnel\<close>

definition sample_world :: "unit world" where
  "sample_world = \<lparr> w_crypto = sample_crypto, w_rng = zero_rng, w_jitter = zero_rng, w_cipher = (\<lambda>_ _ _. 0),
     w_cover = sample_cover \<rparr>"

definition sample_call :: "nat \<Rightarrow> call" where
  "sample_call ns = \<lparr> at_now = at_nanos ns, at_eph = [5] \<rparr>"

definition sample_limiter_seed :: limiter_seed where
  "sample_limiter_seed = \<lparr> ls_secret = [], ls_nonce_key = [], ls_hash1 = (\<lambda>_. 0), ls_hash2 = (\<lambda>_. 0) \<rparr>"

definition sample_new :: "bytes \<Rightarrow> bytes \<Rightarrow> u32 \<Rightarrow> new_error + unit tunn" where
  "sample_new sk ppk index = new_with_obfuscation sample_world (sample_call 0) sample_limiter_seed (Inr ()) () sample_stamper sk ppk
     None None index None obfuscation_default (config_new 0 0 0 0)"

definition sample_tunn :: "unit tunn" where
  "sample_tunn = (case sample_new [1] [2] 1 of Inr t \<Rightarrow> t)"

lemma config_wf_new: "config_wf (config_new a b c d)"
  by (simp add: config_wf_def config_new_def)
    (rule exI [of _ ImNone], rule exI [of _ None], rule exI [of _ BrDefault],
     simp add: imitation_default_def imitation_new_def option_filter_def)

lemma config_new_unprotected: "\<not> header_protection_enabled (config_new a b c d)"
  by (simp add: header_protection_enabled_def config_new_def hp_default_def hp_is_set_def)

lemma sample_new_ok: "sample_new [1] [2] 1 = Ok sample_tunn"
proof -
  have "is_ok (sample_new [1] [2] 1)"
    by (simp add: sample_new_def new_with_obfuscation_def handshake_new_def check_header_protection_nonce_def
        config_new_unprotected Let_def)
  then show ?thesis by (auto simp: sample_tunn_def split: sum.splits)
qed

lemma sample_reachable: "reachable (tunn_init sample_world) (tunn_step sample_world) sample_tunn"
  by (rule reachable_init, rule constructed [OF config_wf_new sample_new_ok [unfolded sample_new_def]])

lemma sample_world_ok: "world_ok sample_world"
  using zero_rng_fills sample_quic_sizes
  by (auto simp: world_ok_def sample_world_def sample_cover_def ascii_def)

lemma sample_tunn_fields:
  "tn_packet_queue sample_tunn = []" "tn_current sample_tunn = 0" "tn_sessions sample_tunn = replicate 8 None"
  "tn_amnezia sample_tunn = config_new 0 0 0 0" "tn_pending sample_tunn = None"
  "tn_timers sample_tunn = timers_new (at_nanos 0) () None True"
  by (simp_all add: sample_tunn_def sample_new_def new_with_obfuscation_def handshake_new_def check_header_protection_nonce_def
      config_new_unprotected Let_def N_SESSIONS_def sample_call_def)

lemma returnsE: "returns m \<Longrightarrow> \<exists>r t. m = Some (r, t)"
  by (cases m) (auto simp: returns_def)

section \<open>Reachable tunnels\<close>

text \<open>
  C1. Every tunnel a caller can reach is well formed, whatever was sent to it and however it was
  configured. Its ring has eight slots, a session sits only in the slot of its own index and its
  replay window is sound. The queue never exceeds its depth. No timer runs ahead of the last poll, so
  that no age is negative.
\<close>

theorem reachable_tunnel_well_formed:
  assumes "reachable (tunn_init W) (tunn_step W) t"
  shows "length (tn_sessions t) = 8 \<and>
    (\<forall>i < 8. \<forall>s. tn_sessions t ! i = Some s \<longrightarrow> unat (receiving_index s) mod 8 = i \<and> session_ok s) \<and>
    length (tn_packet_queue t) \<le> 256 \<and>
    (\<forall>n. tm_timers (tn_timers t) n \<le> tm_timers (tn_timers t) TimeCurrent) \<and>
    (\<forall>i < 8. tm_session_timers (tn_timers t) ! i \<le> tm_timers (tn_timers t) TimeCurrent)"
proof -
  have "tunn_ok W t" by (rule tunnel.reachable_inv [OF assms])
  then show ?thesis
    by (auto simp: tunn_ok_def ring_ok_def clocks_ok_def session_local_index_def N_SESSIONS_def MAX_QUEUE_DEPTH_def)
qed

theorem reachable_tunnel_well_formed_witness:
  "reachable (tunn_init sample_world) (tunn_step sample_world) sample_tunn \<and> length (tn_sessions sample_tunn) = 8"
  using reachable_tunnel_well_formed [OF sample_reachable] sample_reachable by simp

text \<open>
  C26. Serials name sessions. In every reachable tunnel the serial of a slot is zero exactly when the
  slot is empty, and until the counter of serials is exhausted no two sessions carry the same serial,
  so that a change of the selected serial between two reports is a change of session.
\<close>

theorem serials_name_sessions:
  assumes "reachable (tunn_init W) (tunn_step W) t"
  shows "(selected_session_serial t = 0 \<longleftrightarrow> tn_sessions t ! selected_slot t = None) \<and>
    (\<forall>i < 8. os_slot_serial (tn_meta t) ! i = 0 \<longleftrightarrow> tn_sessions t ! i = None) \<and>
    (os_next_session_serial (tn_meta t) \<noteq> - 1 \<longrightarrow>
      (\<forall>i < 8. \<forall>j < 8. i \<noteq> j \<longrightarrow> tn_sessions t ! i \<noteq> None \<longrightarrow>
         os_slot_serial (tn_meta t) ! i \<noteq> os_slot_serial (tn_meta t) ! j))"
proof -
  have "tunn_ok W t" by (rule tunnel.reachable_inv [OF assms])
  then have s: "serials_ok (tn_sessions t) (tn_meta t)" by (simp add: tunn_ok_def)
  have "selected_slot t < 8" using selected_slot_less [of t] by (simp add: N_SESSIONS_def)
  then show ?thesis using s unfolding serials_ok_def N_SESSIONS_def selected_session_serial_def by auto
qed

theorem serials_name_sessions_witness:
  "reachable (tunn_init sample_world) (tunn_step sample_world) sample_tunn \<and>
   (selected_session_serial sample_tunn = 0 \<longleftrightarrow> tn_sessions sample_tunn ! selected_slot sample_tunn = None)"
  using serials_name_sessions [OF sample_reachable] sample_reachable by blast



section \<open>Who owns a packet\<close>

lemma queue_keeps [simp]:
  "tn_packet_queue (note_event e t) = tn_packet_queue t" "tn_packet_queue (note_output kind r t) = tn_packet_queue t"
  by (simp_all add: note_event_def note_output_def)

lemma on_session_keeps_queue:
  assumes "encapsulate_on_session W src dst budget t = Some (r, t')"
  shows "tn_packet_queue t' = tn_packet_queue t" "tn_current t' = tn_current t" "tn_amnezia t' = tn_amnezia t"
  using encapsulate_on_session_frame [OF assms] by (auto simp: kept_def)

lemma write_result: "write_to_network W dst n t = Some (r, t') \<Longrightarrow> is_err r \<or> is_network r"
  by (auto simp: write_to_network_def write_to_network_with_def write_to_network_with_imitation_def is_err_def is_network_def
      split: bind_splits sum.splits)

lemma on_session_result:
  assumes "encapsulate_on_session W src dst budget t = Some (r, t')"
  shows "is_err r \<or> is_network r"
  using assms by (auto simp: encapsulate_on_session_def Let_def case_prod_beta dest: write_result
      split: option.splits sum.splits bind_splits) (auto simp: is_err_def)

lemma without_session_queue:
  assumes "admit_without_session W k src dst budget t = Some (r, t')"
  shows "if is_err r then tn_packet_queue t' = tn_packet_queue t
    else tn_packet_queue t' = tn_packet_queue t @ [src] \<and> length (tn_packet_queue t) < MAX_QUEUE_DEPTH"
proof (cases "queue_has_room t")
  case True
  then obtain r1 t1 where f: "format_handshake_initiation_with_budget W k dst False budget t = Some (r1, t1)"
    and rest: "(if is_err r1 then Some (r1, t1) else (case queue_packet src t1 of
                (Inl e, t) \<Rightarrow> Some (TrErr e, t) | (Inr _, t) \<Rightarrow> Some (r1, t))) = Some (r, t')"
    using assms by (auto simp: admit_without_session_def split: bind_splits)
  have q: "tn_packet_queue t1 = tn_packet_queue t" using kept_format_initiation [OF f] by (simp add: kept_def)
  then have "queue_packet src t1 = (Ok (), note_event EV_QUEUE_ADMITTED (t1\<lparr> tn_packet_queue := tn_packet_queue t @ [src] \<rparr>))"
    using True by (simp add: queue_packet_def queue_has_room_def)
  then show ?thesis using rest q True by (auto simp: queue_has_room_def split: if_splits)
qed (use assms in \<open>auto simp: admit_without_session_def is_err_def\<close>)

text \<open>
  C7. A packet handed to the tunnel has one owner. An error gives it back: nothing is queued, and
  what was queued before stays. Without an error it is on the wire, when a session could send it, or
  it is the new last entry of the queue, which then had room, and never both.
\<close>

theorem encapsulate_ownership:
  assumes "encapsulate_with_budget W k src dst budget t = Some (r, t')"
  shows "if is_err r then tn_packet_queue t' = tn_packet_queue t
    else if has_current_session t then is_network r \<and> tn_packet_queue t' = tn_packet_queue t
    else tn_packet_queue t' = tn_packet_queue t @ [src] \<and> length (tn_packet_queue t') \<le> 256"
proof (cases "has_current_session t")
  case True
  then have "encapsulate_on_session W src dst budget t = Some (r, t')"
    using assms by (simp add: encapsulate_with_budget_def)
  from on_session_keeps_queue(1) [OF this] on_session_result [OF this] show ?thesis using True by auto
next
  case False
  then have "admit_without_session W k src dst budget t = Some (r, t')"
    using assms by (simp add: encapsulate_with_budget_def)
  from without_session_queue [OF this] show ?thesis using False by (auto simp: MAX_QUEUE_DEPTH_def)
qed

theorem encapsulate_ownership_witness:
  "\<exists>r t'. encapsulate_with_budget sample_world (sample_call 7) [69] (replicate 200 0) budget_UNBOUNDED sample_tunn = Some (r, t') \<and>
     tn_packet_queue t' = (if is_err r then [] else [[69]])"
proof -
  have ok: "tunn_ok sample_world sample_tunn" by (rule tunnel.reachable_inv [OF sample_reachable])
  obtain r t' where e: "encapsulate_with_budget sample_world (sample_call 7) [69] (replicate 200 0) budget_UNBOUNDED sample_tunn = Some (r, t')"
    using returnsE [OF encapsulate_returns [OF sample_world_ok ok]] by blast
  have "tn_packet_queue sample_tunn = []" "\<not> has_current_session sample_tunn"
    by (simp_all add: sample_tunn_fields has_current_session_def selected_slot_def)
  then show ?thesis using encapsulate_ownership [OF e] e by auto
qed

definition undeliverable :: "amnezia_config \<Rightarrow> output_budget \<Rightarrow> bytes \<Rightarrow> bool" where
  "undeliverable c budget packet = exceeds (transport_frame (length packet) (transport_junk_size c)) (ob_transport budget)"

lemma drain_queue_prefix:
  assumes "drain_queue n W dst budget t = Some (r, t')"
  shows "\<exists>dropped. (\<forall>p \<in> set dropped. undeliverable (tn_amnezia t) budget p) \<and>
    (if is_network r
     then \<exists>p t1. tn_packet_queue t = dropped @ p # tn_packet_queue t' \<and> \<not> undeliverable (tn_amnezia t) budget p \<and>
        encapsulate_on_session W p dst budget t1 = Some (r, t')
     else tn_packet_queue t = dropped @ tn_packet_queue t')"
  using assms
proof (induction n arbitrary: t)
  case 0
  then show ?case by (auto simp: is_network_def intro: exI [of _ "[]"])
next
  case (Suc n)
  show ?case
  proof (cases "tn_packet_queue t")
    case Nil
    then show ?thesis using Suc.prems by (auto simp: is_network_def intro: exI [of _ "[]"])
  next
    case (Cons h q)
    let ?d = "snd (dequeue_packet t)"
    have d: "tn_packet_queue ?d = q" and d2: "tn_amnezia (note_event e ?d) = tn_amnezia t" "tn_packet_queue (note_event e ?d) = q" for e
      using Cons by (simp_all add: dequeue_packet_def note_event_def)
    show ?thesis
    proof (cases "undeliverable (tn_amnezia t) budget h")
      case True
      then have "drain_queue n W dst budget (note_event EV_QUEUE_HEAD_DROPPED ?d) = Some (r, t')"
        using Suc.prems Cons by (simp add: undeliverable_def)
      from Suc.IH [OF this] obtain dropped where dr: "\<forall>p \<in> set dropped. undeliverable (tn_amnezia t) budget p"
        "if is_network r
         then \<exists>p t1. q = dropped @ p # tn_packet_queue t' \<and> \<not> undeliverable (tn_amnezia t) budget p \<and>
           encapsulate_on_session W p dst budget t1 = Some (r, t')
         else q = dropped @ tn_packet_queue t'"
        unfolding d2 by blast
      show ?thesis by (rule exI [of _ "h # dropped"]) (use dr True Cons in auto)
    next
      case False
      then obtain r1 t1 where e: "encapsulate_on_session W h dst budget ?d = Some (r1, t1)"
        and rest: "(case r1 of
               TrErr e \<Rightarrow> Some (if e = DestinationBufferTooSmall \<or> e = OutputBudgetExceeded then TrErr e else TrDone,
                       requeue_packet h t1)
             | r \<Rightarrow> Some (r, t1)) = Some (r, t')"
        using Suc.prems Cons by (auto simp: undeliverable_def split: bind_splits)
      note q1 = on_session_keeps_queue(1) [OF e, unfolded d]
      have "is_network r \<and> r1 = r \<and> t1 = t' \<or> \<not> is_network r \<and> t' = requeue_packet h t1"
        using rest on_session_result [OF e] by (auto simp: is_err_def is_network_def split: tunn_result.splits if_splits)
      then show ?thesis using False Cons q1 e
        by (intro exI [of _ "[]"]) (auto simp: requeue_packet_def)
    qed
  qed
qed

text \<open>
  C24. Queued packets leave in the order they were queued. What a call to send one takes from the queue
  is a prefix of it. When a datagram goes out, the prefix ends with the packet it carries; when none
  does, the call sent nothing. Every other packet of the prefix was dropped because no datagram of the
  budget could carry it, and a packet that failed for any other reason is back at the head.
\<close>

theorem queue_leaves_in_order:
  assumes "send_queued_packet W k dst budget t = Some (r, t')" "has_current_session t"
  shows "\<exists>dropped. (\<forall>p \<in> set dropped. undeliverable (tn_amnezia t) budget p) \<and>
    (if is_network r
     then \<exists>p t1. tn_packet_queue t = dropped @ p # tn_packet_queue t' \<and> \<not> undeliverable (tn_amnezia t) budget p \<and>
        encapsulate_on_session W p dst budget t1 = Some (r, t')
     else tn_packet_queue t = dropped @ tn_packet_queue t')"
proof (cases "tn_packet_queue t = []")
  case True
  then show ?thesis using assms by (auto simp: send_queued_packet_def is_network_def intro: exI [of _ "[]"])
next
  case False
  then have "drain_queue (length (tn_packet_queue t)) W dst budget t = Some (r, t')"
    using assms by (simp add: send_queued_packet_def)
  then show ?thesis by (rule drain_queue_prefix)
qed

theorem queue_leaves_in_order_witness:
  "\<exists>t r t'. has_current_session t \<and> tn_packet_queue t = [[69], [70]] \<and>
     send_queued_packet sample_world (sample_call 7) (replicate 200 0) budget_UNBOUNDED t = Some (r, t') \<and>
     (\<exists>dropped. tn_packet_queue t = dropped @ tn_packet_queue t' \<or> (\<exists>p. tn_packet_queue t = dropped @ p # tn_packet_queue t'))"
proof -
  let ?t = "sample_tunn\<lparr> tn_sessions := replicate 8 (Some (session_new 0 1 [] [])), tn_packet_queue := [[69], [70]] \<rparr>"
  have h: "has_current_session ?t" "tn_packet_queue ?t = [[69], [70]]"
    by (simp_all add: has_current_session_def selected_slot_def N_SESSIONS_def sending_exhausted_def session_new_def
        REJECT_AFTER_MESSAGES_def)
  then have "send_queued_packet sample_world (sample_call 7) (replicate 200 0) budget_UNBOUNDED ?t =
      drain_queue 2 sample_world (replicate 200 0) budget_UNBOUNDED ?t"
    by (simp add: send_queued_packet_def numeral_2_eq_2)
  then obtain r t' where s: "send_queued_packet sample_world (sample_call 7) (replicate 200 0) budget_UNBOUNDED ?t = Some (r, t')"
    using returnsE [OF drain_returns [of 2 sample_world "replicate 200 0" budget_UNBOUNDED ?t]] by auto
  have "\<exists>dropped. tn_packet_queue ?t = dropped @ tn_packet_queue t' \<or> (\<exists>p. tn_packet_queue ?t = dropped @ p # tn_packet_queue t')"
    using queue_leaves_in_order [OF s h(1)] by (cases "is_network r") (simp_all only: if_True if_False, blast+)
  then show ?thesis using h s by blast
qed


section \<open>What a datagram may change\<close>



lemma commit_initiation_avoids:
  assumes "commit_initiation C R eph ini dst slot h = Some (Ok (packet, s), h')"
  shows "session_local_index s mod N_SESSIONS \<noteq> slot"
proof -
  have "\<exists>h0. receiving_index s = fst (inc_index_avoiding slot (h0 :: 'a handshake))"
    using assms by (auto simp: commit_initiation_def format_handshake_response_def Let_def case_prod_beta session_new_def
        split: if_splits)
  then show ?thesis using inc_index_avoiding_slot unfolding session_local_index_def by metis
qed

lemma established_frame:
  "tn_sessions (timer_tick_session_established W b i t) = tn_sessions t"
  "tn_current (timer_tick_session_established W b i t) = tn_current t"
  by (simp_all add: timer_tick_session_established_def Let_def case_prod_beta set_rng_def timer_tick_rest)

text \<open>
  C25. Answering an initiation never touches the session in use: the session a responder sets up goes
  to another slot than the selected one, so that the selection and the session it names are the same
  after the answer. The peer's first transport packet on the new session is what selects it.
\<close>

theorem responder_keeps_selected_session:
  assumes "commit_handshake_init W k ini dst budget t = Some (r, t')"
  shows "tn_current t' = tn_current t \<and> tn_sessions t' ! selected_slot t' = tn_sessions t ! selected_slot t"
proof -
  obtain r1 h where h: "commit_initiation (w_crypto W) (w_rng W) (at_eph k) ini (length dst) (selected_slot t)
      (tn_handshake t) = Some (r1, h)"
    using assms by (auto simp: commit_handshake_init_def Let_def split: bind_splits)
  show ?thesis
  proof (cases r1)
    case (Inl e)
    then show ?thesis using assms h by (auto simp: commit_handshake_init_def Let_def selected_slot_def)
  next
    case (Inr ps)
    obtain packet s where ps: "ps = (packet, s)" by fastforce
    let ?i = "session_local_index s"
    have ne: "?i mod N_SESSIONS \<noteq> selected_slot t" using commit_initiation_avoids h Inr ps by blast
    obtain m t1 where w: "write_handshake_to_network W (into_dst packet dst) (length packet)
        (budget_ceiling (length dst) (control_for budget OtherControl))
        (timer_tick_session_established W False ?i (timer_tick W TimeLastPacketSent (timer_tick W TimeLastPacketReceived
          (t\<lparr> tn_handshake := h, tn_sessions := (tn_sessions t)[?i mod N_SESSIONS := Some s], tn_meta := m \<rparr>)))) = Some (r, t1)"
      and t': "t' = note_output OpHandshakeResponse r t1"
      using assms h Inr ps by (auto simp: commit_handshake_init_def Let_def split: bind_splits)
    have "tn_current t' = tn_current t" "tn_sessions t' = (tn_sessions t)[?i mod N_SESSIONS := Some s]"
      using kept_write(3) [OF w] unfolding t' by (simp_all add: kept_def note_output_def established_frame timer_tick_rest)
    then show ?thesis using ne by (simp add: selected_slot_def)
  qed
qed

theorem responder_keeps_selected_session_witness:
  "\<exists>r t'. commit_handshake_init sample_world (sample_call 7) \<lparr> ai_chaining_key = [], ai_hash = [], ai_peer_ephemeral_public = [],
       ai_peer_index = 9, ai_timestamp = tai_zero \<rparr> (replicate 200 0) budget_UNBOUNDED sample_tunn = Some (r, t') \<and>
     tn_current t' = tn_current sample_tunn"
proof -
  let ?ini = "\<lparr> ai_chaining_key = [], ai_hash = [], ai_peer_ephemeral_public = [], ai_peer_index = 9, ai_timestamp = tai_zero \<rparr>"
  obtain r t' where "commit_handshake_init sample_world (sample_call 7) ?ini (replicate 200 0) budget_UNBOUNDED sample_tunn = Some (r, t')"
    using returnsE [OF commit_init_returns [OF tunnel.reachable_inv [OF sample_reachable]]] by blast
  from responder_keeps_selected_session [OF this] this show ?thesis by blast
qed

section \<open>What reaches the tunnel interface\<close>

lemma timer_tick_rx: "tn_rx_bytes (timer_tick W n t) = tn_rx_bytes t"
  by (rule timer_tick_rest)

lemma commit_data_unfold:
  "\<exists>u. tn_rx_bytes u = tn_rx_bytes t \<and> commit_data W i plaintext t = validate_decapsulated_packet W plaintext u"
  by (rule exI [of _ "let t = set_current_session (unat i) t; t = timer_tick W TimeLastPacketReceived t
      in t\<lparr> tn_udp_window := grown_window (tn_udp_window t) (received_window_observation (tn_amnezia t) (length plaintext)) \<rparr>"])
    (simp add: commit_data_def Let_def timer_tick_rx set_current_session_def)

lemma slice_take: "b \<le> n \<Longrightarrow> slice a b (take n xs) = slice a b xs"
  by (cases "a \<le> b") (simp_all add: slice_def take_drop min_def)

lemma delivered_facts:
  "case commit_data W i plaintext t of
     (TrWriteToTunnelV4 p a, t') \<Rightarrow>
       drop_bit 4 (hd p) = 4 \<and> 20 \<le> length p \<and> 4 * unat (hd p AND 0x0f) \<le> length p \<and>
       length p = unat (u16_from_be (slice 2 4 p)) \<and> a = slice 12 16 p \<and> p = take (length p) plaintext \<and>
       tn_rx_bytes t' = tn_rx_bytes t + length p
   | (TrWriteToTunnelV6 p a, t') \<Rightarrow>
       drop_bit 4 (hd p) = 6 \<and> length p = 40 + unat (u16_from_be (slice 4 6 p)) \<and> a = slice 8 24 p \<and>
       p = take (length p) plaintext \<and> tn_rx_bytes t' = tn_rx_bytes t + length p
   | (TrDone, t') \<Rightarrow> (plaintext = [] \<or> hd plaintext = 0) \<and> tn_rx_bytes t' = tn_rx_bytes t
   | (TrErr e, t') \<Rightarrow> e = InvalidPacket \<and> tn_rx_bytes t' = tn_rx_bytes t
   | (TrWriteToNetwork _, t') \<Rightarrow> False"
proof -
  obtain u where u: "tn_rx_bytes u = tn_rx_bytes t" "commit_data W i plaintext t = validate_decapsulated_packet W plaintext u"
    using commit_data_unfold by blast
  show ?thesis
    unfolding u(2) u(1) [symmetric]
    by (cases plaintext)
      (auto simp: validate_decapsulated_packet_def Let_def timer_tick_rx slice_take
        IPV4_MIN_HEADER_SIZE_def IPV6_MIN_HEADER_SIZE_def IPV4_LEN_OFF_def IPV6_LEN_OFF_def IP_LEN_SZ_def
        IPV4_SRC_IP_OFF_def IPV4_IP_SZ_def IPV6_SRC_IP_OFF_def IPV6_IP_SZ_def
        split: if_splits option.splits ip_addr.splits)
qed

text \<open>
  C27. Whatever the peer sent, what is written to the interface is one whole IP packet: for IPv4 the
  bytes of the length its header gives, at least a header and at least the header's own length, with
  the source address of that header, and likewise for IPv6. A plaintext that is empty or starts with a
  zero byte is a keepalive. Anything else is refused, and only a delivered packet is counted.
\<close>

theorem delivered_is_one_ip_packet:
  "case commit_data W i plaintext t of
     (TrWriteToTunnelV4 p a, t') \<Rightarrow>
       drop_bit 4 (hd p) = 4 \<and> 20 \<le> length p \<and> 4 * unat (hd p AND 0x0f) \<le> length p \<and>
       length p = unat (u16_from_be (slice 2 4 p)) \<and> a = slice 12 16 p \<and> p = take (length p) plaintext \<and>
       tn_rx_bytes t' = tn_rx_bytes t + length p
   | (TrWriteToTunnelV6 p a, t') \<Rightarrow>
       drop_bit 4 (hd p) = 6 \<and> length p = 40 + unat (u16_from_be (slice 4 6 p)) \<and> a = slice 8 24 p \<and>
       p = take (length p) plaintext \<and> tn_rx_bytes t' = tn_rx_bytes t + length p
   | (TrDone, t') \<Rightarrow> (plaintext = [] \<or> hd plaintext = 0) \<and> tn_rx_bytes t' = tn_rx_bytes t
   | (TrErr e, t') \<Rightarrow> e = InvalidPacket \<and> tn_rx_bytes t' = tn_rx_bytes t
   | (TrWriteToNetwork _, t') \<Rightarrow> False"
  by (rule delivered_facts)

text \<open>
  Content padding never shows: a whole IPv4 packet is delivered as it was sent, whatever number of
  bytes the sender's padding added behind it.
\<close>

lemma padding_is_stripped:
  assumes "20 \<le> length p" "drop_bit 4 (hd p) = 4" "unat (u16_from_be (slice 2 4 p)) = length p"
    "5 \<le> unat (hd p AND 0x0f)" "4 * unat (hd p AND 0x0f) \<le> length p"
  shows "fst (commit_data W i (p @ pad) t) = TrWriteToTunnelV4 p (slice 12 16 p)"
proof -
  obtain u where u: "commit_data W i (p @ pad) t = validate_decapsulated_packet W (p @ pad) u"
    using commit_data_unfold by blast
  obtain b q where b: "p = b # q" using assms(1) by (cases p) auto
  have "b \<noteq> 0" using assms(2) b by auto
  moreover have "slice 2 4 (p @ pad) = slice 2 4 p" "slice 12 16 (p @ pad) = slice 12 16 p"
    using assms(1) by (simp_all add: slice_def)
  ultimately show ?thesis
    using assms unfolding u
    by (auto simp: b validate_decapsulated_packet_def Let_def IPV4_MIN_HEADER_SIZE_def IPV4_LEN_OFF_def IP_LEN_SZ_def
        IPV4_SRC_IP_OFF_def IPV4_IP_SZ_def)
qed

end
