(* ===== verification/Tunn_Liveness.thy ===== *)
theory Tunn_Liveness
  imports Tunn_Properties
begin

text \<open>
  A handshake that nobody answers does not last. Between its first initiation and its end nothing a
  poll does moves the time it started (\<open>steady\<close>), neither retransmissions nor the bursts before them,
  so that the deadline it set is reached by any run of polls that goes on long enough, whatever
  buffers and budgets they are given.
\<close>

section \<open>What a poll leaves of an unanswered handshake\<close>

definition awaiting :: "'g tunn \<Rightarrow> bool" where
  "awaiting t \<longleftrightarrow> hs_timer (tn_handshake t) \<noteq> None"

definition started_at :: "'g tunn \<Rightarrow> duration" where
  "started_at t = tm_timers (tn_timers t) TimeLastHandshakeStarted"

definition steady :: "'g tunn \<Rightarrow> 'g tunn \<Rightarrow> bool" where
  "steady t t' \<longleftrightarrow> (awaiting t \<longrightarrow> awaiting t' \<and> started_at t' = started_at t \<and> tn_amnezia t' = tn_amnezia t \<and>
     tm_time_started (tn_timers t') = tm_time_started (tn_timers t))"

named_theorems steadying

lemma steady_refl [simp, intro]: "steady t t"
  by (simp add: steady_def)

lemma steady_trans [trans]: "steady t t' \<Longrightarrow> steady t' t'' \<Longrightarrow> steady t t''"
  by (auto simp: steady_def)

lemma awaiting_live: "awaiting t \<Longrightarrow> is_in_progress (tn_handshake t)" "awaiting t \<Longrightarrow> \<not> hs_is_expired (tn_handshake t)"
  by (auto simp: awaiting_def hs_timer_def is_in_progress_def hs_is_expired_def split: handshake_state.splits)

lemma steady_rng [steadying]: "steady t (set_rng g t)"
  by (simp add: steady_def awaiting_def started_at_def set_rng_def hs_timer_def)

lemma steady_notes [steadying]: "steady t (note_event e t)" "steady t (note_output kind r t)"
  by (simp_all add: steady_def awaiting_def started_at_def note_event_def note_output_def)

lemma steady_timers:
  "tm_timers tm TimeLastHandshakeStarted = started_at t \<Longrightarrow> tm_time_started tm = tm_time_started (tn_timers t) \<Longrightarrow>
   steady t (t\<lparr> tn_timers := tm \<rparr>)"
  by (simp add: steady_def awaiting_def started_at_def)

lemma rearm_started [simp]: "tm_time_started (rearm_persistent_keepalive J tm) = tm_time_started tm"
  by (simp add: rearm_persistent_keepalive_def case_prod_beta Let_def)

lemma jitter_started [simp]: "tm_time_started (snd (jitter J tm)) = tm_time_started tm"
  by (simp add: jitter_def case_prod_beta Let_def)

lemma timer_tick_started:
  "n \<noteq> TimeLastHandshakeStarted \<Longrightarrow> started_at (timer_tick W n t) = started_at t"
  "tm_time_started (tn_timers (timer_tick W n t)) = tm_time_started (tn_timers t)"
  "hs_state (tn_handshake (timer_tick W n t)) = hs_state (tn_handshake t)"
  by (cases n; simp add: started_at_def timer_tick_def Let_def case_prod_beta set_timer_def set_rng_def)+

lemma steady_tick [steadying]: "n \<noteq> TimeLastHandshakeStarted \<Longrightarrow> steady t (timer_tick W n t)"
  by (simp add: steady_def awaiting_def hs_timer_def timer_tick_started timer_tick_rest)

lemma steady_fields [steadying]:
  "steady t (t\<lparr> tn_pending := p \<rparr>)" "steady t (t\<lparr> tn_rate_limiter := l \<rparr>)" "steady t (t\<lparr> tn_tx_bytes := n \<rparr>)"
  "steady t (t\<lparr> tn_sessions := ss \<rparr>)" "steady t (t\<lparr> tn_meta := m \<rparr>)" "steady t (t\<lparr> tn_udp_window := w \<rparr>)"
  by (simp_all add: steady_def awaiting_def started_at_def)

lemma steady_write [steadying]: "write_handshake_to_network W dst n ceil t = Some (r, t') \<Longrightarrow> steady t t'"
  unfolding write_handshake_to_network_def write_to_network_with_def by (auto dest: write_frame intro: steady_rng)

lemma steady_arm [steadying]: "steady t (arm_initiation W False t)"
proof -
  let ?r = "retransmit_timeout (w_rng W) (cfg_timers (tn_amnezia t)) (tn_rng t)"
  let ?j = "jitter (w_jitter W) (tn_timers t)"
  let ?t = "(set_rng (snd ?r) t)\<lparr> tn_timers := (snd ?j)\<lparr> tm_retransmit_current := fst ?r + fst ?j,
      tm_handshake_attempts := min (tm_handshake_attempts (snd ?j) + 1) (2 ^ 32 - 1) \<rparr> \<rparr>"
  have "steady t ?t"
    by (rule steady_trans [OF steady_rng steady_timers]) (simp_all add: started_at_def set_rng_def)
  moreover have "arm_initiation W False t = timer_tick W TimeLastPacketSent ?t"
    by (simp add: arm_initiation_def Let_def case_prod_beta)
  ultimately show ?thesis using steady_tick [of TimeLastPacketSent ?t W] steady_trans by auto
qed

lemma format_initiation_awaiting:
  "fst (format_handshake_initiation C R eph sn tn dst h) = Inr msg \<Longrightarrow> hs_timer (snd (format_handshake_initiation C R eph sn tn dst h)) = Some tn"
  "fst (format_handshake_initiation C R eph sn tn dst h) = Inl e \<Longrightarrow> snd (format_handshake_initiation C R eph sn tn dst h) = h"
  by (auto simp: format_handshake_initiation_def Let_def case_prod_beta append_mac_simps hs_timer_def split: if_splits)

lemma steady_format_now [steadying]:
  assumes "format_handshake_initiation_now_with_budget W k dst force reset budget t = Some (r, t')"
  shows "steady t t'"
proof (cases "awaiting t")
  case True
  note live = awaiting_live [OF True]
  define f where "f = format_handshake_initiation (w_crypto W) (w_rng W) (at_eph k) (at_now k) (at_now k) (length dst) (tn_handshake t)"
  define t2 where "t2 = t\<lparr> tn_handshake := snd f \<rparr>"
  have "hs_timer (snd f) \<noteq> None"
    using format_initiation_awaiting [of "w_crypto W" "w_rng W" "at_eph k" "at_now k" "at_now k" "length dst" "tn_handshake t"] True
    by (cases "fst f") (auto simp: f_def awaiting_def)
  then have t2: "steady t t2" by (simp add: t2_def steady_def awaiting_def started_at_def)
  consider "t' = t" | "t' = t2"
    | packet ceil t3 where "write_handshake_to_network W (into_dst packet dst) (length packet) ceil (arm_initiation W False t2) = Some (r, t3)"
        "t' = note_output OpHandshakeInitiation r (if is_network r then note_event EV_INITIATION_PRODUCED t3 else t3)"
    using assms live unfolding format_handshake_initiation_now_with_budget_def Let_def
    by (auto simp: f_def [symmetric] case_prod_beta t2_def [symmetric] split: if_splits sum.splits bind_splits)
  then show ?thesis
  proof cases
    case 3
    have "steady t t3" using t2 steady_arm steady_write [OF 3(1)] by (metis steady_trans)
    then have "steady t (if is_network r then note_event EV_INITIATION_PRODUCED t3 else t3)"
      using steady_trans [OF _ steady_notes(1)] by auto
    then show ?thesis unfolding 3(2) by (rule steady_trans [OF _ steady_notes(2)])
  qed (use t2 in simp_all)
qed (simp add: steady_def)

lemma steady_first_emit [steadying]: "steady t (reset_expired_timers_on_first_emit k t)"
proof (cases "awaiting t")
  case True
  then show ?thesis using awaiting_live(2) [OF True]
    by (auto simp: reset_expired_timers_on_first_emit_def Let_def intro: steady_fields split: option.splits)
qed (simp add: steady_def)

lemma steady_advance [steadying]:
  assumes "advance_amnezia_junk W k dst budget t = Some (r, t')"
  shows "steady t t'"
proof -
  let ?e = "\<lambda>t. reset_expired_timers_on_first_emit k t"
  from advance_cases [OF assms] show ?thesis
  proof cases
    case (2 kind q)
    then show ?thesis using steady_trans [OF steady_trans [OF steady_fields(1) steady_first_emit] steady_notes(2)] by simp
  next
    case (3 force reset t1)
    then show ?thesis using steady_format_now steady_trans [OF _ steady_fields(1)] by blast
  next
    case (4 g q)
    have "steady t (set_rng g (?e t))" by (rule steady_trans [OF steady_first_emit steady_rng])
    then show ?thesis using 4 steady_notes(2) steady_fields(1) by (metis steady_trans)
  qed simp
qed

lemma steady_new_burst: "new_pre_handshake_burst W last0 reset t = Some (b, t') \<Longrightarrow> steady t t'"
  by (auto simp: new_pre_handshake_burst_def steady_rng split: if_splits bind_splits)

lemma steady_format_initiation [steadying]:
  assumes "format_handshake_initiation_with_budget W k dst force budget t = Some (r, t')"
  shows "steady t t'"
  using assms
proof (cases rule: format_initiation_cases)
  case (4 b t1)
  have "steady t (note_event EV_BURST_PREPARED (t1\<lparr> tn_pending := Some b \<rparr>))"
    using steady_trans [OF steady_trans [OF steady_new_burst [OF 4(1)] steady_fields(1)] steady_notes(1)] .
  then show ?thesis using steady_advance [OF 4(2)] by (rule steady_trans)
qed (auto intro: steadying)

lemma steady_serve_initiation [steadying]:
  assumes "serve_initiation W k dst latch budget t = Some (r, t')"
  shows "steady t t'"
proof -
  have k: "steady t1 (t1\<lparr> tn_timers := (tn_timers t1)\<lparr> tm_want_handshake := x \<rparr> \<rparr>)" for t1 :: "'a tunn" and x
    by (rule steady_timers) (simp_all add: started_at_def)
  obtain r1 t1 where f: "format_handshake_initiation_with_budget W k dst True budget t = Some (r1, t1)"
    using assms by (auto simp: serve_initiation_def split: bind_splits)
  obtain t2 where t2: "t2 = t1 \<or> (\<exists>x. t2 = t1\<lparr> tn_timers := (tn_timers t1)\<lparr> tm_want_handshake := x \<rparr> \<rparr>)"
    "t' = t2 \<or> t' = note_event EV_TICK_DEMAND_REFUSED t2"
    using assms f by (auto simp: serve_initiation_def Let_def split: option.splits if_splits)
  have "steady t t2" using steady_format_initiation [OF f] t2(1) k steady_trans by blast
  then show ?thesis using t2(2) steady_notes(1) steady_trans by blast
qed

lemma steady_age_sessions: "age_sessions after now is t = Some t' \<Longrightarrow> steady t t'"
proof (induction "is" arbitrary: t)
  case (Cons i js)
  from Cons.prems obtain t1 where t1: "age_session after now i t = Some t1" "age_sessions after now js t1 = Some t'"
    by (auto split: bind_splits)
  have "steady t t1" using t1(1)
    by (auto simp: age_session_def Let_def steady_def awaiting_def started_at_def note_event_def split: if_splits bind_splits)
  then show ?case using Cons.IH [OF t1(2)] by (rule steady_trans)
qed simp

text \<open>The end of a cycle: everything the tunnel held for it is gone.\<close>

definition spent :: "'g tunn \<Rightarrow> bool" where
  "spent t \<longleftrightarrow> hs_is_expired (tn_handshake t) \<and> tn_sessions t = replicate N_SESSIONS None \<and> tn_packet_queue t = [] \<and>
     tn_pending t = None"

lemma expire_cycle_spent: "spent (expire_cycle k t)"
  by (simp add: spent_def expire_cycle_def clear_all_def set_expired_def note_event_def hs_is_expired_def)

lemma expired_spent: "expire_past_absolute_bounds k now t = Some (True, t') \<Longrightarrow> spent t'"
  by (auto simp: expire_past_absolute_bounds_def Let_def expire_cycle_spent split: if_splits bind_splits)

definition untuned :: "'g tunn \<Rightarrow> bool" where
  "untuned t \<longleftrightarrow> max_handshake_attempts (cfg_timers (tn_amnezia t)) = (0, 0) \<and> rekey_timeout (cfg_timers (tn_amnezia t)) = (0, 0)"

lemma deadline_expires:
  assumes "awaiting t" "untuned t" "started_at t + untuned_attempt_window \<le> now"
    "expire_past_absolute_bounds k now t = Some (b, t')"
  shows b
  using assms by (auto simp: expire_past_absolute_bounds_def Let_def awaiting_def untuned_def started_at_def
      split: if_splits bind_splits)

text \<open>
  A poll either ends the cycle, which it does once the deadline has passed, or leaves the wait as it was.
\<close>

definition cookie_checked :: "duration \<Rightarrow> 'g tunn \<Rightarrow> 'g tunn option" where
  "cookie_checked now t = (if has_cookie (tn_handshake t) then do {
           age \<leftarrow> duration_minus now (tm_timers (tn_timers t) TimeCookieReceived);
           Some (if age \<ge> COOKIE_EXPIRATION_TIME then t\<lparr> tn_handshake := clear_cookie (tn_handshake t) \<rparr> else t) }
         else Some t)"

lemma cookie_checked_steady: "cookie_checked now t = Some t' \<Longrightarrow> steady t t'"
  by (auto simp: cookie_checked_def steady_def awaiting_def started_at_def clear_cookie_def hs_timer_def
      split: if_splits bind_splits)

lemma poll_cases:
  assumes "awaiting t" "poll W k dst rollback budget now t = Some (r, t')"
  obtains t1 where "steady t t1" "expire_past_absolute_bounds k now t1 = Some (True, t')" "r = TrErr ConnectionExpired"
  | t1 where "steady t t1" "expire_past_absolute_bounds k now t1 = Some (False, t1)"
      "r = TrErr ConnectionExpired \<and> spent t' \<or> steady t1 t'"
proof -
  note live = awaiting_live [OF assms(1)]
  have nb: "\<not> burst_owes_expired_reset t" using live(2) by (simp add: burst_owes_expired_reset_def)
  show thesis
  proof (cases "tn_pending t = None")
    case False
    then obtain b t2 where e: "expire_past_absolute_bounds k now t = Some (b, t2)"
      and rest: "(if b then Some (TrErr ConnectionExpired, t2) else advance_amnezia_junk W k dst budget t2) = Some (r, t')"
      using assms(2) nb by (auto simp: poll_def split: bind_splits)
    show thesis
    proof (cases b)
      case True
      then show thesis using that(1) [of t] e rest by simp
    next
      case b: False
      then have "t2 = t" using e unexpired_unchanged [of k now t t2] by simp
      then show thesis using that(2) [of t] e rest b steady_advance [of W k dst budget t r t'] by simp
    qed
  next
    case True
    obtain t1 b t2 where t1: "cookie_checked now t = Some t1" and e: "expire_past_absolute_bounds k now t1 = Some (b, t2)"
      and rest: "(if b then Some (TrErr ConnectionExpired, t2)
         else do {
           (d, t) \<leftarrow> select_demand W k now t2;
           (case d of
              Inl _ \<Rightarrow> Some (TrErr ConnectionExpired, t)
            | Inr (WantInitiation latch) \<Rightarrow> serve_initiation W k dst latch budget t
            | Inr WantKeepalive \<Rightarrow> send_keepalive W k dst rollback budget t
            | Inr NoDemand \<Rightarrow> Some (TrDone, t)) }) = Some (r, t')"
      using assms(2) nb True live(2) unfolding poll_def cookie_checked_def [symmetric] by (auto split: bind_splits)
    note s1 = cookie_checked_steady [OF t1]
    then obtain s where s: "hs_timer (tn_handshake t1) = Some s" using assms(1) by (auto simp: steady_def awaiting_def)
    show thesis
    proof (cases b)
      case True
      then show thesis using that(1) [OF s1] e rest by simp
    next
      case b: False
      then have t2: "t2 = t1" using e unexpired_unchanged [of k now t1 t2] by simp
      have "r = TrErr ConnectionExpired \<and> spent t' \<or> steady t1 t'"
        using rest b s unfolding t2
        by (auto simp: select_demand_def Let_def expire_cycle_spent dest: steady_serve_initiation split: if_splits)
      then show thesis using that(2) [OF s1] e b t2 by simp
    qed
  qed
qed

lemma poll_ends_or_waits:
  assumes "awaiting t" "poll W k dst rollback budget now t = Some (r, t')"
  shows "r = TrErr ConnectionExpired \<and> spent t' \<or> steady t t' \<and> \<not> (untuned t \<and> started_at t + untuned_attempt_window \<le> now)"
  using assms
proof (cases rule: poll_cases)
  case (1 t1)
  then show ?thesis using expired_spent by blast
next
  case (2 t1)
  have "awaiting t1" "untuned t1 = untuned t" "started_at t1 = started_at t"
    using 2(1) assms(1) by (auto simp: steady_def untuned_def)
  then have "\<not> (untuned t \<and> started_at t + untuned_attempt_window \<le> now)" using deadline_expires [OF _ _ _ 2(2)] by auto
  then show ?thesis using 2(1,3) steady_trans by blast
qed

lemma update_timers_ends_or_waits:
  assumes "awaiting t" "update_timers_with_budget W k dst budget t = Some (r, t')"
  shows "r = TrErr ConnectionExpired \<and> spent t' \<or> steady t t' \<and>
    \<not> (untuned t \<and> started_at t + untuned_attempt_window \<le> duration_since (at_now k) (tm_time_started (tn_timers t)))"
proof -
  define l where "l = (if tm_should_reset_rr (tn_timers t) then reset_count (at_now k) (tn_rate_limiter t) else tn_rate_limiter t)"
  define now where "now = monotonic_now (at_now k) (tn_timers t)"
  define t1 where "t1 = t\<lparr> tn_rate_limiter := l, tn_timers := set_timer TimeCurrent now (tn_timers t) \<rparr>"
  obtain t2 where t2: "update_session_timers now t1 = Some t2"
    and p: "poll W k dst (keepalive_rollback_of t) budget now t2 = Some (r, t')"
    using assms(2) by (auto simp: update_timers_with_budget_def Let_def l_def now_def t1_def split: bind_splits if_splits)
  have "steady t t1" by (simp add: steady_def t1_def awaiting_def started_at_def set_timer_def)
  also have "steady t1 t2" using t2 unfolding update_session_timers_def by (rule steady_age_sessions)
  finally have s: "steady t t2" .
  then have a: "awaiting t2" "untuned t2 = untuned t" "started_at t2 = started_at t"
    using assms(1) by (auto simp: steady_def untuned_def)
  have "duration_since (at_now k) (tm_time_started (tn_timers t)) \<le> now" by (simp add: now_def monotonic_now_def)
  then show ?thesis using poll_ends_or_waits [OF a(1) p] a(2,3) steady_trans [OF s] by auto
qed

section \<open>Runs of polls\<close>

fun polls :: "'g world \<Rightarrow> (call \<times> bytes \<times> output_budget) list \<Rightarrow> 'g tunn \<Rightarrow> (tunn_result list \<times> 'g tunn) option" where
  "polls W [] t = Some ([], t)"
| "polls W ((k, dst, budget) # cs) t = do {
     (r, t) \<leftarrow> update_timers_with_budget W k dst budget t;
     (rs, t) \<leftarrow> polls W cs t;
     Some (r # rs, t) }"

lemma polls_end:
  assumes "world_ok W" "tunn_ok W t" "awaiting t" "untuned t" "cs \<noteq> []"
    "started_at t + untuned_attempt_window \<le> duration_since (at_now (fst (last cs))) (tm_time_started (tn_timers t))"
  shows "\<exists>before k dst budget rest rs t1 t2. cs = before @ (k, dst, budget) # rest \<and> polls W before t = Some (rs, t1) \<and>
    update_timers_with_budget W k dst budget t1 = Some (TrErr ConnectionExpired, t2) \<and> spent t2"
  using assms(2-)
proof (induction cs arbitrary: t)
  case (Cons c cs)
  obtain k dst budget where c: "c = (k, dst, budget)" by (cases c)
  obtain r t1 where u: "update_timers_with_budget W k dst budget t = Some (r, t1)"
    using returnsE [OF update_timers_returns [OF assms(1) Cons.prems(1)]] by blast
  show ?case
  proof (cases "r = TrErr ConnectionExpired \<and> spent t1")
    case True
    then show ?thesis using u c by (intro exI [of _ "[]"]) auto
  next
    case False
    then have s: "steady t t1"
      and nd: "\<not> started_at t + untuned_attempt_window \<le> duration_since (at_now k) (tm_time_started (tn_timers t))"
      using update_timers_ends_or_waits [OF Cons.prems(2) u] Cons.prems(3) by auto
    have ne: "cs \<noteq> []" using nd Cons.prems(5) c by auto
    have a: "awaiting t1" "untuned t1" "started_at t1 = started_at t" "tm_time_started (tn_timers t1) = tm_time_started (tn_timers t)"
      using s Cons.prems(2,3) by (auto simp: steady_def untuned_def)
    have d: "started_at t1 + untuned_attempt_window \<le> duration_since (at_now (fst (last cs))) (tm_time_started (tn_timers t1))"
      using Cons.prems(5) ne a(3,4) by simp
    obtain before k' dst' budget' rest rs t2 t3 where "cs = before @ (k', dst', budget') # rest" "polls W before t1 = Some (rs, t2)"
      "update_timers_with_budget W k' dst' budget' t2 = Some (TrErr ConnectionExpired, t3)" "spent t3"
      using Cons.IH [OF update_timers_with_budget_ok [OF Cons.prems(1) u] a(1,2) ne d] by blast
    then show ?thesis using u c by (intro exI [of _ "c # before"]) auto
  qed
qed simp

lemma arm_frame:
  "hs_state (tn_handshake (arm_initiation W fresh t)) = hs_state (tn_handshake t)"
  "tm_time_started (tn_timers (arm_initiation W fresh t)) = tm_time_started (tn_timers t)"
  by (simp_all add: arm_initiation_def Let_def case_prod_beta timer_tick_started set_rng_def)

lemma initiation_awaits:
  assumes "\<not> is_in_progress (tn_handshake t)" "admit (Some (initiation_wire_floor t)) (length dst) (control_for budget OtherControl) = Inr ceil"
    "format_handshake_initiation_now_with_budget W k dst force False budget t = Some (r, t')"
  shows "awaiting t'" "tm_time_started (tn_timers t') = tm_time_started (tn_timers t)"
proof -
  define f where "f = format_handshake_initiation (w_crypto W) (w_rng W) (at_eph k) (at_now k) (at_now k) (length dst) (tn_handshake t)"
  have "HANDSHAKE_INIT_SZ \<le> length dst"
    using assms(2) by (auto simp: admit_def initiation_wire_floor_def split: if_splits)
  then obtain msg where m: "fst f = Inr msg"
    by (auto simp: f_def format_handshake_initiation_def Let_def case_prod_beta)
  have h: "hs_timer (snd f) = Some (at_now k)" using format_initiation_awaiting(1) m by (simp add: f_def)
  obtain t3 where w: "write_handshake_to_network W (into_dst msg dst) (length msg) ceil
      (arm_initiation W True (t\<lparr> tn_handshake := snd f \<rparr>)) = Some (r, t3)"
    and t': "t' = note_output OpHandshakeInitiation r (if is_network r then note_event EV_INITIATION_PRODUCED t3 else t3)"
    using assms m by (auto simp: format_handshake_initiation_now_with_budget_def Let_def f_def [symmetric] case_prod_beta
        split: bind_splits)
  obtain g where "t3 = set_rng g (arm_initiation W True (t\<lparr> tn_handshake := snd f \<rparr>))"
    using w unfolding write_handshake_to_network_def write_to_network_with_def by (blast dest: write_frame)
  then show "awaiting t'" "tm_time_started (tn_timers t') = tm_time_started (tn_timers t)"
    using h by (auto simp: t' awaiting_def hs_timer_def arm_frame set_rng_def note_output_def note_event_def)
qed

text \<open>
  C8. A handshake that nobody answers ends. Take a reachable tunnel that waits for a response under the
  standard timers, and any run of polls whose last one comes after the attempt window has passed,
  whatever buffers and budgets the polls were given. One of them reports that the connection has
  expired, and it leaves the tunnel with no session, no queued packet and no burst.
\<close>

theorem unanswered_handshake_ends:
  assumes "world_ok W" "reachable (tunn_init W) (tunn_step W) t" "awaiting t" "untuned t" "cs \<noteq> []"
    "started_at t + untuned_attempt_window \<le> duration_since (at_now (fst (last cs))) (tm_time_started (tn_timers t))"
  shows "\<exists>before k dst budget rest rs t1 t2. cs = before @ (k, dst, budget) # rest \<and> polls W before t = Some (rs, t1) \<and>
    update_timers_with_budget W k dst budget t1 = Some (TrErr ConnectionExpired, t2) \<and> spent t2"
  by (rule polls_end [OF assms(1) tunnel.reachable_inv [OF assms(2)] assms(3-)])

theorem unanswered_handshake_ends_witness:
  "\<exists>t cs. reachable (tunn_init sample_world) (tunn_step sample_world) t \<and> awaiting t \<and> length cs = 1 \<and>
     (\<exists>k dst budget t2. cs = [(k, dst, budget)] \<and>
        update_timers_with_budget sample_world k dst budget t = Some (TrErr ConnectionExpired, t2) \<and> spent t2)"
proof -
  let ?dst = "replicate 200 0 :: bytes"
  let ?op = "DoInitiate (sample_call 7) ?dst False budget_UNBOUNDED"
  obtain r t where f: "format_handshake_initiation_with_budget sample_world (sample_call 7) ?dst False budget_UNBOUNDED sample_tunn = Some (r, t)"
    using returnsE [OF initiation_returns [OF sample_world_ok tunnel.reachable_inv [OF sample_reachable]]] by blast
  have st: "hs_state (tn_handshake sample_tunn) = HsNone"
    by (simp add: sample_tunn_def sample_new_def new_with_obfuscation_def handshake_new_def check_header_protection_nonce_def
        config_new_unprotected Let_def)
  have n: "format_handshake_initiation_now_with_budget sample_world (sample_call 7) ?dst False False budget_UNBOUNDED sample_tunn = Some (r, t)"
    using f st by (simp add: format_handshake_initiation_with_budget_def sample_tunn_fields is_in_progress_def hs_is_expired_def
        emits_pre_handshake_def config_new_def junk_is_enabled_def pre_handshake_junk_default_def has_imitation_sequence_def
        imitation_default_def)
  have p: "\<not> is_in_progress (tn_handshake sample_tunn)" using st by (simp add: is_in_progress_def)
  have a: "admit (Some (initiation_wire_floor sample_tunn)) (length ?dst) (control_for budget_UNBOUNDED OtherControl) = Inr 200"
    by (simp add: admit_def initiation_wire_floor_def sample_tunn_fields handshake_init_junk_size_def outbound_junk_size_def config_new_def exceeds_def
        budget_UNBOUNDED_def control_for_def HANDSHAKE_INIT_SZ_def budget_ceiling_def)
  note aw = initiation_awaits [OF p a n]
  have r: "reachable (tunn_init sample_world) (tunn_step sample_world) t"
    by (rule reachable_step [OF sample_reachable performed [of _ ?op]]) (simp_all add: perform_def f)
  have "tn_amnezia t = config_new 0 0 0 0" using kept_format_initiation [OF f] by (simp add: kept_def sample_tunn_fields)
  then have un: "untuned t" by (simp add: untuned_def config_new_def awg_timers_default_def)
  let ?k = "sample_call (started_at t + untuned_attempt_window)"
  have ts: "tm_time_started (tn_timers t) = at_nanos 0" using aw(2) by (simp add: sample_tunn_fields timers_new_def Let_def)
  have "int (duration_since (at_nanos m) (at_nanos 0)) = int m" for m by (simp add: duration_since_eq)
  then have "duration_since (at_now (fst (last [(?k, [], budget_UNBOUNDED)]))) (tm_time_started (tn_timers t)) =
      started_at t + untuned_attempt_window"
    unfolding ts by (simp add: sample_call_def)
  then have d: "started_at t + untuned_attempt_window \<le>
      duration_since (at_now (fst (last [(?k, [], budget_UNBOUNDED)]))) (tm_time_started (tn_timers t))" by simp
  obtain before k dst budget rest rs t1 t2 where x: "[(?k, [], budget_UNBOUNDED)] = before @ (k, dst, budget) # rest"
    "polls sample_world before t = Some (rs, t1)"
    "update_timers_with_budget sample_world k dst budget t1 = Some (TrErr ConnectionExpired, t2)" "spent t2"
    using unanswered_handshake_ends [OF sample_world_ok r aw(1) un _ d] by blast
  then have "before = []" by (cases before) auto
  then show ?thesis using x r aw(1) by (intro exI [of _ t] exI [of _ "[(k, dst, budget)]"]) auto
qed


end
