(* ===== verification/Device_Flush.thy ===== *)
theory Device_Flush
  imports Device_Io Tunn_Address Tunn_Liveness
begin

text \<open>
  The loop that sends what a tunnel has queued ends. Every datagram it takes from the tunnel shortens
  the queue, or the burst in front of an initiation, or is the initiation itself, after which the tunnel
  has nothing to send until it is answered.
\<close>

definition burst_left :: "'g tunn \<Rightarrow> nat" where
  "burst_left t = (case tn_pending t of None \<Rightarrow> 0 | Some p \<Rightarrow> length (pj_imitation_datagrams p) + unat (pj_remaining p))"

definition initiation_phase :: "'g tunn \<Rightarrow> nat" where
  "initiation_phase t = (if tn_pending t \<noteq> None then 1 else if is_in_progress (tn_handshake t) then 0 else 2)"

definition unsent :: "'g tunn \<Rightarrow> nat \<times> nat \<times> nat" where
  "unsent t = (length (tn_packet_queue t), initiation_phase t, burst_left t)"

definition fewer :: "((nat \<times> nat \<times> nat) \<times> (nat \<times> nat \<times> nat)) set" where
  "fewer = less_than <*lex*> less_than <*lex*> less_than"

lemma wf_fewer: "wf fewer"
  by (simp add: fewer_def wf_lex_prod)

lemma fewerI:
  "length (tn_packet_queue t') < length (tn_packet_queue t) \<Longrightarrow> (unsent t', unsent t) \<in> fewer"
  "tn_packet_queue t' = tn_packet_queue t \<Longrightarrow> initiation_phase t' < initiation_phase t \<Longrightarrow> (unsent t', unsent t) \<in> fewer"
  "tn_packet_queue t' = tn_packet_queue t \<Longrightarrow> initiation_phase t' = initiation_phase t \<Longrightarrow> burst_left t' < burst_left t \<Longrightarrow>
   (unsent t', unsent t) \<in> fewer"
  by (auto simp: fewer_def unsent_def)

text \<open>A datagram that is an initiation leaves the handshake in progress.\<close>

lemma initiation_in_progress:
  assumes "format_handshake_initiation_now_with_budget W k dst force reset budget t = Some (TrWriteToNetwork packet, t')"
  shows "is_in_progress (tn_handshake t')" "tn_pending t' = tn_pending t"
proof -
  define t1 where "t1 = (if reset \<and> hs_is_expired (tn_handshake t)
    then t\<lparr> tn_timers := timers_clear (at_now k) (tn_timers t) \<rparr> else t)"
  define f where "f = format_handshake_initiation (w_crypto W) (w_rng W) (at_eph k) (at_now k) (at_now k) (length dst)
    (tn_handshake t1)"
  let ?a = "arm_initiation W (\<not> is_in_progress (tn_handshake t1)) (t1\<lparr> tn_handshake := snd f \<rparr>)"
  obtain m ceil t3 where m: "fst f = Inr m"
    and w: "write_handshake_to_network W (into_dst m dst) (length m) ceil ?a = Some (TrWriteToNetwork packet, t3)"
    and t': "t' = note_output OpHandshakeInitiation (TrWriteToNetwork packet) (note_event EV_INITIATION_PRODUCED t3)"
    using assms unfolding format_handshake_initiation_now_with_budget_def Let_def
      t1_def [symmetric] f_def [symmetric] case_prod_beta
    by (auto simp: is_network_def split: if_splits sum.splits bind_splits)
  obtain g where t3: "t3 = set_rng g ?a"
    using write_frame w unfolding write_handshake_to_network_def write_to_network_with_def by blast
  have "hs_timer (snd f) \<noteq> None" using format_initiation_awaiting(1) m unfolding f_def by blast
  then have "hs_timer (tn_handshake t') \<noteq> None"
    by (simp add: t' t3 note_output_def note_event_def set_rng_def hs_timer_def arm_frame)
  then show "is_in_progress (tn_handshake t')"
    by (auto simp: hs_timer_def is_in_progress_def split: handshake_state.splits)
  have "tn_pending ?a = tn_pending t"
    by (simp add: arm_initiation_def Let_def case_prod_beta timer_tick_rest set_rng_def t1_def)
  then show "tn_pending t' = tn_pending t"
    by (simp add: t' t3 note_output_def note_event_def set_rng_def)
qed

lemma first_emit_pending:
  "tn_pending (reset_expired_timers_on_first_emit k t) =
     map_option (\<lambda>p. p\<lparr> pj_reset_expired_timers := False \<rparr>) (tn_pending t)"
  by (simp add: reset_expired_timers_on_first_emit_def Let_def split: option.splits)

text \<open>One datagram of a burst.\<close>

lemma advance_progresses:
  assumes "tn_pending t = Some p" "advance_amnezia_junk W k dst budget t = Some (TrWriteToNetwork packet, t')"
  shows "initiation_phase t' = 0 \<or> initiation_phase t' = 1 \<and> burst_left t' < burst_left t"
proof (cases "pj_imitation_datagrams p")
  case (Cons d ds)
  then have "\<exists>q. tn_pending t' = Some q \<and> pj_imitation_datagrams q = ds \<and> pj_remaining q = pj_remaining p"
    using assms by (auto simp: advance_amnezia_junk_def Let_def case_prod_beta note_output_def first_emit_pending
        split: sum.splits if_splits)
  then show ?thesis using assms(1) Cons by (auto simp: initiation_phase_def burst_left_def)
next
  case Nil
  show ?thesis
  proof (cases "pj_remaining p = 0")
    case True
    then obtain r t1 where f: "format_handshake_initiation_now_with_budget W k dst True (pj_reset_expired_timers p) budget t = Some (r, t1)"
      and "r = TrWriteToNetwork packet" "t' = t1\<lparr> tn_pending := None \<rparr>"
      using assms Nil by (auto simp: advance_amnezia_junk_def is_network_def split: if_splits bind_splits)
    then have "tn_pending t' = None" "is_in_progress (tn_handshake t')" using initiation_in_progress(1) by auto
    then show ?thesis by (simp add: initiation_phase_def)
  next
    case False
    then have "\<exists>q. tn_pending t' = Some q \<and> pj_imitation_datagrams q = [] \<and> pj_remaining q = pj_remaining p - 1"
      using assms Nil by (auto simp: advance_amnezia_junk_def Let_def note_output_def first_emit_pending set_rng_def
          split: sum.splits if_splits bind_splits option.splits)
    moreover have "unat (pj_remaining p - 1) < unat (pj_remaining p)"
      using False measure_unat by blast
    ultimately show ?thesis using assms(1) Nil by (auto simp: initiation_phase_def burst_left_def)
  qed
qed

lemma initiation_progresses:
  assumes "format_handshake_initiation_with_budget W k dst False budget t = Some (TrWriteToNetwork packet, t')"
  shows "(unsent t', unsent t) \<in> fewer"
proof -
  have q: "tn_packet_queue t' = tn_packet_queue t" using kept_format_initiation [OF assms] by (simp add: kept_def)
  show ?thesis
  proof (cases "tn_pending t")
    case (Some p)
    then have "advance_amnezia_junk W k dst budget t = Some (TrWriteToNetwork packet, t')"
      using assms by (simp add: format_handshake_initiation_with_budget_def)
    from advance_progresses [OF Some this] show ?thesis
      using fewerI(2,3) [OF q] Some by (auto simp: initiation_phase_def)
  next
    case None
    have np: "\<not> is_in_progress (tn_handshake t)"
      using assms None by (auto simp: format_handshake_initiation_with_budget_def split: if_splits)
    then have phase: "initiation_phase t = 2" using None by (simp add: initiation_phase_def)
    have "initiation_phase t' < 2"
    proof (cases "emits_pre_handshake (tn_amnezia t)")
      case True
      then obtain b t1 where b: "new_pre_handshake_burst W None (hs_is_expired (tn_handshake t)) t = Some (b, t1)"
        and a: "advance_amnezia_junk W k dst budget (note_event EV_BURST_PREPARED (t1\<lparr> tn_pending := Some b \<rparr>)) =
          Some (TrWriteToNetwork packet, t')"
        using assms None np by (auto simp: format_handshake_initiation_with_budget_def Let_def split: bind_splits)
      show ?thesis using advance_progresses [OF _ a] by (auto simp: note_event_def)
    next
      case False
      then obtain reset where "format_handshake_initiation_now_with_budget W k dst False reset budget t = Some (TrWriteToNetwork packet, t')"
        using assms None np by (auto simp: format_handshake_initiation_with_budget_def Let_def)
      from initiation_in_progress [OF this] show ?thesis using None by (simp add: initiation_phase_def)
    qed
    then show ?thesis using fewerI(2) [OF q] phase by simp
  qed
qed

lemma send_queued_progresses:
  assumes "send_queued_packet W k dst budget t = Some (TrWriteToNetwork packet, t')"
  shows "(unsent t', unsent t) \<in> fewer"
proof (cases "has_current_session t")
  case True
  then have "drain_queue (length (tn_packet_queue t)) W dst budget t = Some (TrWriteToNetwork packet, t')"
    using assms by (auto simp: send_queued_packet_def split: if_splits)
  from drain_queue_prefix [OF this] obtain dropped p where "tn_packet_queue t = dropped @ p # tn_packet_queue t'"
    by (auto simp: is_network_def)
  then show ?thesis by (intro fewerI(1)) simp
next
  case False
  then show ?thesis using assms initiation_progresses by (auto simp: send_queued_packet_def split: if_splits)
qed

text \<open>So the loop returns, and keeps what its steps keep.\<close>

lemma flush_queue_returns:
  assumes "world_ok W" "tunn_ok W t"
  shows "\<exists>packets t'. flush_queue W k dst t = Some (packets, t') \<and> tunn_ok W t' \<and> (\<forall>c. placed c t \<longrightarrow> placed c t')"
  using assms(2)
proof (induction t rule: wf_induct_rule [OF wf_inv_image [OF wf_fewer, of unsent]])
  case (1 t)
  have d: "decapsulate W k None [] dst t = send_queued_packet W k dst budget_UNBOUNDED t"
    by (simp add: decapsulate_def decapsulate_source_def)
  obtain r t1 where s: "send_queued_packet W k dst budget_UNBOUNDED t = Some (r, t1)"
    using returnsE [OF send_queued_returns [OF assms(1) "1.prems"]] by blast
  note ok = send_queued_packet_ok [OF "1.prems" s]
  have p: "placed c t1" if "placed c t" for c by (rule send_queued_packet_placed [OF that s])
  show ?case
  proof (cases r)
    case (TrWriteToNetwork packet)
    then have "(t1, t) \<in> inv_image fewer unsent" using send_queued_progresses s by (auto simp: in_inv_image)
    from "1.IH" [OF this ok] obtain packets t' where "flush_queue W k dst t1 = Some (packets, t')" "tunn_ok W t'"
      "\<forall>c. placed c t1 \<longrightarrow> placed c t'" by blast
    then show ?thesis using d s p TrWriteToNetwork by (subst flush_queue.simps) simp
  qed (use d s p ok in \<open>subst flush_queue.simps, simp\<close>)+
qed

end
