(* ===== verification/Device_Tables.thy ===== *)
theory Device_Tables
  imports Device_Flush
begin

text \<open>
  The invariant of a device, and that the control operations keep it. The three tables agree: every
  peer has its own key, reference and index, the table of indices is the inverse of the peers' indices,
  and a prefix belongs to one peer, which is in the tables. Every peer's tunnel is well formed, has the keys,
  the header ranges and the AmneziaWG configuration of the device, and gives out indices by which the
  device finds it. Indices do not repeat because the register that draws them is injective on 24 bits.

  What the trie of prefixes must do is stated of its entries (\<open>table_laws\<close>): what it promises of
  insertion, of retention and of the longest match; a list of entries satisfies it.
\<close>

section \<open>Peer indices do not repeat\<close>

definition narrow :: "u32 \<Rightarrow> bool" where
  "narrow x \<longleftrightarrow> take_bit 24 x = x"

lemma narrow_bits: "narrow x \<longleftrightarrow> (\<forall>n \<ge> 24. \<not> bit x n)"
proof
  assume "narrow x"
  then have "bit (take_bit 24 x) n = bit x n" for n by (simp add: narrow_def)
  then show "\<forall>n \<ge> 24. \<not> bit x n" by (metis bit_take_bit_iff not_less)
next
  assume "\<forall>n \<ge> 24. \<not> bit x n"
  then show "narrow x" unfolding narrow_def by (intro bit_word_eqI) (auto simp: bit_take_bit_iff not_less intro: ccontr)
qed

lemma narrow_nat: "narrow x \<longleftrightarrow> unat x < 2 ^ 24"
  by (simp add: narrow_def word_unat_eq_iff unsigned_take_bit_eq take_bit_nat_eq_self_iff)

lemma narrow_xor: "narrow x \<Longrightarrow> narrow y \<Longrightarrow> narrow (xor x y)"
  by (auto simp: narrow_bits bit_simps)

lemma narrow_pred: "narrow x \<Longrightarrow> x \<noteq> 0 \<Longrightarrow> narrow (x - 1)"
  using measure_unat [of x] by (simp add: narrow_nat)

lemma narrow_upper: "narrow x \<Longrightarrow> drop_bit 8 (push_bit 8 x) = x"
  by (rule bit_word_eqI) (auto simp: bit_simps narrow_bits not_less intro: ccontr)

text \<open>The register shifted: the top bit of the new value is the bottom bit of the old.\<close>

lemma lfsr_shift_alt: "lfsr_shift x = xor (drop_bit 1 x) (if bit x 0 then LFSR_POLY else 0)"
  by (auto simp: lfsr_shift_def bit_0 and_one_eq odd_iff_mod_2_eq_one)

lemma poly_bits: "bit LFSR_POLY 23" "narrow LFSR_POLY"
  by (simp_all add: LFSR_POLY_def narrow_nat)

lemma narrow_shift: "narrow x \<Longrightarrow> narrow (lfsr_shift x)"
proof -
  assume "narrow x"
  then have "narrow (drop_bit 1 x)" unfolding narrow_bits by (simp add: bit_simps)
  then show ?thesis unfolding lfsr_shift_alt by (rule narrow_xor) (simp add: poly_bits narrow_nat [of 0])
qed

lemma lfsr_shift_inj:
  assumes "narrow x" "narrow y" "lfsr_shift x = lfsr_shift y"
  shows "x = y"
proof -
  have "bit (lfsr_shift z) 23 = bit z 0" if "narrow z" for z
    using that poly_bits(1) by (simp add: lfsr_shift_alt narrow_bits bit_simps)
  then have low: "bit x 0 = bit y 0" using assms by metis
  then have "drop_bit 1 x = drop_bit 1 y"
  proof -
    have cancel: "xor a c = xor b c \<Longrightarrow> a = b" for a b c :: u32
      by (rule bit_word_eqI) (metis bit_xor_iff)
    show ?thesis using assms(3) low unfolding lfsr_shift_alt by (auto intro: cancel split: if_splits)
  qed
  then have "bit x (Suc n) = bit y (Suc n)" for n
    by (metis bit_drop_bit_eq comp_apply plus_1_eq_Suc)
  then show ?thesis using low by (metis bit_word_eqI not0_implies_Suc)
qed

lemma lfsr_shift_zero: "narrow x \<Longrightarrow> x \<noteq> 0 \<Longrightarrow> lfsr_shift x \<noteq> 0"
  using lfsr_shift_inj [of x 0] by (auto simp: narrow_nat lfsr_shift_def)

lemma funpow_cancel:
  assumes "\<And>x. P x \<Longrightarrow> P (f x)" "\<And>x y. P x \<Longrightarrow> P y \<Longrightarrow> f x = f y \<Longrightarrow> x = y" "P a"
    and "(f ^^ m) a = (f ^^ n) a" "m < n"
  shows "(f ^^ (n - m)) a = a"
  using assms(4,5)
proof (induction m arbitrary: n)
  case (Suc m)
  obtain k where n: "n = Suc k" using Suc.prems(2) by (cases n) auto
  have "P ((f ^^ j) a)" for j by (induction j) (use assms(1,3) in auto)
  then have "(f ^^ m) a = (f ^^ k) a" using Suc.prems(1) assms(2) by (simp add: n)
  then show ?case using Suc.IH [of k] Suc.prems(2) n by simp
qed simp

lemma random_index_narrow: "random_index R g = Some (i, g') \<Longrightarrow> narrow i \<and> i \<noteq> 0"
proof -
  have "narrow (fst r) \<and> fst r \<noteq> 0" if "random_index R g = Some r" for r
    using that
  proof (rule random_index.raw_induct [of "\<lambda>R g r. narrow (fst r) \<and> fst r \<noteq> 0", rotated])
    fix rec and R :: "'b rng" and g r
    assume IH: "\<And>R g r. rec R g = Some r \<Longrightarrow> narrow (fst r) \<and> fst r \<noteq> 0"
      and r: "(let (x, g) = next_u32 R g; i = and x 0xffffff in if i > 0 then Some (i, g) else rec R g) = Some r"
    have "narrow (and x 0xffffff)" for x :: u32
    proof -
      have "(0xffffff :: u32) = mask 24" by (simp add: mask_eq_exp_minus_1)
      then show ?thesis by (simp only: narrow_bits bit_simps) simp
    qed
    then show "narrow (fst r) \<and> fst r \<noteq> 0" using r IH by (auto simp: Let_def split: if_splits prod.splits)
  qed
  then show "random_index R g = Some (i, g') \<Longrightarrow> narrow i \<and> i \<noteq> 0" by fastforce
qed

lemma shift_run:
  assumes "narrow a" "a \<noteq> 0"
  shows "narrow ((lfsr_shift ^^ n) a) \<and> (lfsr_shift ^^ n) a \<noteq> 0"
  by (induction n) (use assms narrow_shift lfsr_shift_zero in auto)

definition lfsr_used :: "index_lfsr \<Rightarrow> u32 set \<Rightarrow> bool" where
  "lfsr_used l used \<longleftrightarrow>
     narrow (lf_initial l) \<and> lf_initial l \<noteq> 0 \<and> narrow (lf_mask l) \<and>
     (\<exists>n. lf_lfsr l = (lfsr_shift ^^ n) (lf_initial l) \<and>
        (\<forall>m. 0 < m \<and> m \<le> n \<longrightarrow> (lfsr_shift ^^ m) (lf_initial l) \<noteq> lf_initial l) \<and>
        (\<forall>i \<in> used. \<exists>m < n. i = xor ((lfsr_shift ^^ m) (lf_initial l) - 1) (lf_mask l)))"

lemma lfsr_used_mono: "lfsr_used l used \<Longrightarrow> used' \<subseteq> used \<Longrightarrow> lfsr_used l used'"
  unfolding lfsr_used_def by blast

lemma index_lfsr_default_used: "index_lfsr_default R g = Some (l, g') \<Longrightarrow> lfsr_used l {}"
  by (auto simp: index_lfsr_default_def lfsr_used_def dest!: random_index_narrow split: bind_splits) (rule exI [of _ 0], auto)

lemma lfsr_next_fresh:
  assumes "lfsr_used l used" "lfsr_next l = Some (i, l')"
  shows "i \<notin> used" "narrow i" "lfsr_used l' (insert i used)"
proof -
  let ?a = "lf_initial l"
  obtain n where a: "narrow ?a" "?a \<noteq> 0" "narrow (lf_mask l)" and n: "lf_lfsr l = (lfsr_shift ^^ n) ?a"
    and run: "\<And>m. 0 < m \<Longrightarrow> m \<le> n \<Longrightarrow> (lfsr_shift ^^ m) ?a \<noteq> ?a"
    and used: "\<And>i. i \<in> used \<Longrightarrow> \<exists>m < n. i = xor ((lfsr_shift ^^ m) ?a - 1) (lf_mask l)"
    using assms(1) unfolding lfsr_used_def by blast
  have i: "i = xor ((lfsr_shift ^^ n) ?a - 1) (lf_mask l)" and l': "l' = l\<lparr> lf_lfsr := (lfsr_shift ^^ Suc n) ?a \<rparr>"
    and more: "(lfsr_shift ^^ Suc n) ?a \<noteq> ?a"
    using assms(2) by (auto simp: lfsr_next_def Let_def n split: if_splits)
  show "i \<notin> used"
  proof
    assume "i \<in> used"
    then obtain m where m: "m < n" "i = xor ((lfsr_shift ^^ m) ?a - 1) (lf_mask l)" using used by blast
    have "xor (xor ((lfsr_shift ^^ m) ?a - 1) (lf_mask l)) (lf_mask l) =
        xor (xor ((lfsr_shift ^^ n) ?a - 1) (lf_mask l)) (lf_mask l)"
      using m(2) i by simp
    then have same: "(lfsr_shift ^^ m) ?a = (lfsr_shift ^^ n) ?a" by (simp add: xor.assoc)
    have "(lfsr_shift ^^ (n - m)) ?a = ?a"
      by (rule funpow_cancel [of narrow lfsr_shift ?a m n]) (use narrow_shift lfsr_shift_inj a(1) same m(1) in auto)
    then show False using run [of "n - m"] m(1) by simp
  qed
  show "narrow i" unfolding i using shift_run [OF a(1,2), of n] by (intro narrow_xor narrow_pred a(3)) auto
  have "(lfsr_shift ^^ m) ?a \<noteq> ?a" if "0 < m" "m \<le> Suc n" for m
    using that run more by (cases "m = Suc n") auto
  moreover have "\<exists>m < Suc n. j = xor ((lfsr_shift ^^ m) ?a - 1) (lf_mask l)" if "j \<in> insert i used" for j
    using that used i less_Suc_eq by auto
  ultimately show "lfsr_used l' (insert i used)"
    unfolding lfsr_used_def l' using a by (intro conjI exI [of _ "Suc n"]) auto
qed

section \<open>The table of prefixes\<close>

text \<open>A network covers an address that truncation to its length turns into it.\<close>

definition covers :: "'t ip_table \<Rightarrow> network \<Rightarrow> ip_addr \<Rightarrow> bool" where
  "covers T net addr \<longleftrightarrow> it_network T addr (snd net) = Some net"

definition entries :: "'t ip_table \<Rightarrow> 't \<Rightarrow> (network \<times> nat) set" where
  "entries T t = set (it_iter T t)"

definition table_laws :: "'t ip_table \<Rightarrow> bool" where
  "table_laws T \<longleftrightarrow>
     entries T (it_new T) = {} \<and>
     (\<forall>net v t. entries T (it_insert T net v t) = insert (net, v) {e \<in> entries T t. fst e \<noteq> net}) \<and>
     (\<forall>P t. entries T (it_retain T P t) = {e \<in> entries T t. P (fst e) (snd e)}) \<and>
     (\<forall>addr t. case it_longest T addr t of
        None \<Rightarrow> \<forall>e \<in> entries T t. \<not> covers T (fst e) addr
      | Some e \<Rightarrow> e \<in> entries T t \<and> covers T (fst e) addr \<and>
          (\<forall>e' \<in> entries T t. covers T (fst e') addr \<longrightarrow> snd (fst e') \<le> snd (fst e))) \<and>
     (\<forall>addr cidr net. it_network T addr cidr = Some net \<longrightarrow> snd net = cidr \<and> it_network T (fst net) cidr = Some net)"

lemma table_lawsD:
  assumes "table_laws T"
  shows "entries T (it_new T) = {}"
    "entries T (it_insert T net v t) = insert (net, v) {e \<in> entries T t. fst e \<noteq> net}"
    "entries T (allowed_remove T P t) = {e \<in> entries T t. \<not> P (snd e)}"
    "it_network T addr cidr = Some net \<Longrightarrow> snd net = cidr \<and> it_network T (fst net) cidr = Some net"
  using assms unfolding table_laws_def allowed_remove_def by (simp_all only: simp_thms)

lemma table_longest:
  assumes "table_laws T"
  shows "case it_longest T addr t of
      None \<Rightarrow> \<forall>e \<in> entries T t. \<not> covers T (fst e) addr
    | Some e \<Rightarrow> e \<in> entries T t \<and> covers T (fst e) addr \<and>
        (\<forall>e' \<in> entries T t. covers T (fst e') addr \<longrightarrow> snd (fst e') \<le> snd (fst e))"
  using assms unfolding table_laws_def by (simp only: simp_thms)

lemma allowed_find_entry:
  assumes "table_laws T" "allowed_find T addr t = Some r"
  shows "\<exists>net. (net, r) \<in> entries T t \<and> covers T net addr"
proof -
  obtain net where "it_longest T addr t = Some (net, r)" using assms(2) by (auto simp: allowed_find_def)
  then show ?thesis
    using table_longest [OF assms(1), where addr = addr and t = t] by (intro exI [of _ net]) simp
qed

lemma ucast_u8_u32 [simp]: "ucast (ucast c :: u32) = (c :: u8)"
  by (rule bit_word_eqI) (simp add: bit_simps)

text \<open>Inserting prefixes for a peer: they become its own, and the others stay where they were.\<close>

lemma insert_prefixes_entries:
  assumes "table_laws T" "insert_prefixes T r ps t = Some t'"
  shows "\<exists>nets. list_all2 (\<lambda>(addr, cidr) net. it_network T addr cidr = Some net) ps nets \<and>
    entries T t' = {(net, r) | net. net \<in> set nets} \<union> {e \<in> entries T t. fst e \<notin> set nets}"
  using assms(2)
proof (induction ps arbitrary: t)
  case (Cons p ps)
  obtain addr cidr where p: "p = (addr, cidr)" by fastforce
  obtain net where net: "it_network T addr cidr = Some net" and i: "insert_prefixes T r ps (it_insert T net r t) = Some t'"
    using Cons.prems by (auto simp: p allowed_insert_def split: bind_splits)
  from Cons.IH [OF i] obtain nets where n: "list_all2 (\<lambda>(addr, cidr) net. it_network T addr cidr = Some net) ps nets"
    "entries T t' = {(net, r) | net. net \<in> set nets} \<union> {e \<in> entries T (it_insert T net r t). fst e \<notin> set nets}" by blast
  then show ?case using net p by (intro exI [of _ "net # nets"]) (auto simp: table_lawsD(2) [OF assms(1)])
qed (simp add: exI [of _ "[]"])

text \<open>No prefix has two owners, and every prefix is one that truncation leaves alone.\<close>

definition entries_ok :: "'t ip_table \<Rightarrow> 't \<Rightarrow> bool" where
  "entries_ok T t \<longleftrightarrow> single_valued (entries T t) \<and> (\<forall>e \<in> entries T t. it_network T (fst (fst e)) (snd (fst e)) = Some (fst e))"

lemma entries_ok_new: "table_laws T \<Longrightarrow> entries_ok T (it_new T)"
  by (simp add: entries_ok_def table_lawsD(1))

lemma entries_ok_subset: "entries_ok T t \<Longrightarrow> entries T t' \<subseteq> entries T t \<Longrightarrow> entries_ok T t'"
  unfolding entries_ok_def by (meson single_valued_subset subsetD)

lemma insert_prefixes_owners:
  assumes "table_laws T" "insert_prefixes T r ps t = Some t'"
  shows "snd ` entries T t' \<subseteq> insert r (snd ` entries T t)" "entries_ok T t \<Longrightarrow> entries_ok T t'"
proof -
  obtain nets where n: "list_all2 (\<lambda>(addr, cidr) net. it_network T addr cidr = Some net) ps nets"
    and e: "entries T t' = {(net, r) | net. net \<in> set nets} \<union> {e \<in> entries T t. fst e \<notin> set nets}"
    using insert_prefixes_entries [OF assms] by blast
  show "snd ` entries T t' \<subseteq> insert r (snd ` entries T t)" unfolding e by force
  have "it_network T (fst net) (snd net) = Some net" if "net \<in> set nets" for net
  proof -
    note mem = that
    obtain j where "j < length nets" "net = nets ! j" using mem by (auto simp: in_set_conv_nth)
    then have "it_network T (fst (ps ! j)) (snd (ps ! j)) = Some net"
      using n by (simp add: list_all2_conv_all_nth split_beta)
    from table_lawsD(4) [OF assms(1) this] show ?thesis by simp
  qed
  note nets = this
  show "entries_ok T t'" if "entries_ok T t"
    unfolding entries_ok_def e
  proof (intro conjI ballI)
    show "single_valued ({(net, r) | net. net \<in> set nets} \<union> {e \<in> entries T t. fst e \<notin> set nets})"
      using that by (auto simp: entries_ok_def single_valued_def)
    show "it_network T (fst (fst e)) (snd (fst e)) = Some (fst e)"
      if "e \<in> {(net, r) | net. net \<in> set nets} \<union> {e \<in> entries T t. fst e \<notin> set nets}" for e
      using that \<open>entries_ok T t\<close> nets by (auto simp: entries_ok_def)
  qed
qed

section \<open>The invariant\<close>

definition refs :: "('g, 't) device \<Rightarrow> nat set" where
  "refs d = snd ` set (dv_peers d)"

definition tables_ok :: "'t ip_table \<Rightarrow> ('g, 't) device \<Rightarrow> bool" where
  "tables_ok T d \<longleftrightarrow>
     distinct (map fst (dv_peers d)) \<and> distinct (map snd (dv_peers d)) \<and> (\<forall>r \<in> refs d. r < dv_fresh d) \<and>
     (\<forall>i r. dv_by_idx d i = Some r \<longleftrightarrow> r \<in> refs d \<and> peer_index (dv_store d r) = i) \<and>
     entries_ok T (dv_by_ip d) \<and> snd ` entries T (dv_by_ip d) \<subseteq> refs d \<and>
     (\<forall>r. peer_conn (dv_store d r) \<longrightarrow> r \<in> refs d) \<and>
     lfsr_used (dv_next_index d) (dom (dv_by_idx d))"

text \<open>The place of the peer with a key: what the device is configured with, and the peer's own index and preshared key.\<close>

definition place_of :: "'g world \<Rightarrow> ('g, 't) device \<Rightarrow> bytes \<times> bytes \<Rightarrow> bytes \<Rightarrow> 'g peer \<Rightarrow> placement" where
  "place_of W d pair key p =
     \<lparr> pl_amnezia = dv_amnezia d, pl_params = noise_params_new (w_crypto W) (fst pair) (snd pair) key (peer_psk p),
       pl_obf = dv_obf d, pl_index = peer_index p \<rparr>"

definition peer_ok :: "'g world \<Rightarrow> ('g, 't) device \<Rightarrow> bytes \<Rightarrow> 'g peer \<Rightarrow> bool" where
  "peer_ok W d key p \<longleftrightarrow>
     tunn_ok W (peer_tunnel p) \<and>
     (\<exists>pair. dv_key_pair d = Some pair \<and> placed (place_of W d pair key p) (peer_tunnel p))"

definition peers_ok :: "'g world \<Rightarrow> ('g, 't) device \<Rightarrow> bool" where
  "peers_ok W d \<longleftrightarrow>
     config_wf (dv_amnezia d) \<and> (dv_limiter d = None \<longleftrightarrow> dv_key_pair d = None) \<and>
     (\<forall>sk pk. dv_key_pair d = Some (sk, pk) \<longrightarrow> pk = x25519_public (w_crypto W) sk) \<and>
     (\<forall>key r. (key, r) \<in> set (dv_peers d) \<longrightarrow> peer_ok W d key (dv_store d r))"

definition hints_sound :: "pending \<Rightarrow> bool" where
  "hints_sound p \<longleftrightarrow> distinct (pe_order p) \<and> set (pe_order p) = dom (pe_by_source p)"

definition device_ok :: "'g world \<Rightarrow> 't ip_table \<Rightarrow> ('g, 't) device \<Rightarrow> bool" where
  "device_ok W T d \<longleftrightarrow> tables_ok T d \<and> peers_ok W d \<and> hints_sound (dv_hints d)"

lemma hints_clear_sound [simp]: "hints_sound (hints_clear p)"
  by (simp add: hints_sound_def hints_clear_def pending_default_def)

lemma refs_iff: "r \<in> refs d \<longleftrightarrow> (\<exists>key. (key, r) \<in> set (dv_peers d))"
  by (force simp: refs_def)

lemma lookup_ref: "map_of (dv_peers d) key = Some r \<Longrightarrow> (key, r) \<in> set (dv_peers d) \<and> r \<in> refs d"
  by (auto simp: refs_iff dest: map_of_SomeD)

lemma device_new_ok:
  assumes "table_laws T" "index_lfsr_default R g = Some (l, g')" "config_wf amnezia" "\<not> peer_conn blank"
  shows "device_ok W T (device_new blank T now software l obf amnezia rate mtu)"
  using assms index_lfsr_default_used [OF assms(2)]
  by (auto simp: device_ok_def tables_ok_def peers_ok_def device_new_def refs_def table_lawsD(1) entries_ok_new hints_sound_def
      pending_default_def config_wf_def)

section \<open>Control operations\<close>

text \<open>One peer changed, in what the tables and the other peers do not depend on.\<close>

lemma refs_upd [simp]: "refs (dv_upd_peer r f d) = refs d"
  by (simp add: refs_def dv_upd_peer_def)

lemma upd_peer_tables:
  assumes "tables_ok T d" "\<And>p. peer_index (f p) = peer_index p" "\<And>p. peer_conn (f p) \<Longrightarrow> peer_conn p"
  shows "tables_ok T (dv_upd_peer r f d)"
  using assms by (simp add: tables_ok_def) (auto simp: dv_upd_peer_def)

lemma upd_peer_peers:
  assumes "tables_ok T d" "peers_ok W d" "(key, r) \<in> set (dv_peers d)"
    and "\<And>pair. dv_key_pair d = Some pair \<Longrightarrow> tunn_ok W (peer_tunnel (dv_store d r)) \<Longrightarrow>
      placed (place_of W d pair key (dv_store d r)) (peer_tunnel (dv_store d r)) \<Longrightarrow>
      tunn_ok W (peer_tunnel (f (dv_store d r))) \<and> placed (place_of W d pair key (f (dv_store d r))) (peer_tunnel (f (dv_store d r)))"
  shows "peers_ok W (dv_upd_peer r f d)"
proof -
  let ?d = "dv_upd_peer r f d"
  have f: "dv_peers ?d = dv_peers d" "dv_key_pair ?d = dv_key_pair d" "dv_amnezia ?d = dv_amnezia d" "dv_limiter ?d = dv_limiter d"
    "place_of W ?d = place_of W d" "dv_store ?d = (dv_store d)(r := f (dv_store d r))"
    by (simp_all add: dv_upd_peer_def place_of_def fun_eq_iff)
  have "peer_ok W ?d key' (dv_store ?d r')" if m: "(key', r') \<in> set (dv_peers d)" for key' r'
  proof (cases "r' = r")
    case True
    have "inj_on snd (set (dv_peers d))" using assms(1) by (simp add: tables_ok_def distinct_map)
    then have "key' = key" using inj_onD [of snd "set (dv_peers d)" "(key', r)" "(key, r)"] m assms(3) True by simp
    moreover have "peer_ok W d key (dv_store d r)" using assms(2,3) by (simp add: peers_ok_def)
    then obtain pair where "dv_key_pair d = Some pair" "tunn_ok W (peer_tunnel (dv_store d r))"
      "placed (place_of W d pair key (dv_store d r)) (peer_tunnel (dv_store d r))" by (auto simp: peer_ok_def)
    ultimately show ?thesis using assms(4) [of pair] True by (simp add: peer_ok_def f)
  next
    case False
    then show ?thesis using m assms(2) by (simp add: peers_ok_def peer_ok_def f)
  qed
  then show ?thesis using assms(2) by (simp add: peers_ok_def f)
qed

lemma remove_peer_ok:
  assumes "table_laws T" "device_ok W T d"
  shows "device_ok W T (remove_peer T key d)"
proof (cases "map_of (dv_peers d) key")
  case None
  then show ?thesis using assms(2) by (simp add: remove_peer_def)
next
  case (Some r)
  let ?d = "remove_peer T key d" and ?i = "peer_index (dv_store d r)"
  have r: "(key, r) \<in> set (dv_peers d)" using Some by (rule map_of_SomeD)
  have ok: "tables_ok T d" "peers_ok W d" using assms(2) by (simp_all add: device_ok_def)
  have f: "dv_peers ?d = filter (\<lambda>e. fst e \<noteq> key) (dv_peers d)" "dv_by_idx ?d = (dv_by_idx d)(?i := None)"
    "dv_by_ip ?d = allowed_remove T (\<lambda>p. p = r) (dv_by_ip d)" "dv_fresh ?d = dv_fresh d" "dv_next_index ?d = dv_next_index d"
    "dv_store ?d = (dv_store d)(r := shutdown_endpoint (dv_store d r))" "dv_hints ?d = hints_clear (dv_hints d)"
    "dv_amnezia ?d = dv_amnezia d" "dv_obf ?d = dv_obf d" "dv_key_pair ?d = dv_key_pair d" "dv_limiter ?d = dv_limiter d"
    by (simp_all add: remove_peer_def Some Let_def dv_upd_peer_def shutdown_endpoint_def)
  have refs: "refs ?d = refs d - {r}"
  proof -
    have "fst e = key \<longleftrightarrow> snd e = r" if "e \<in> set (dv_peers d)" for e
      using that r ok(1) unfolding tables_ok_def distinct_map inj_on_def by (metis fst_conv snd_conv)
    then show ?thesis by (auto simp: refs_def f)
  qed
  have inj: "ra = r" if "ra \<in> refs d" "peer_index (dv_store d ra) = ?i" for ra
  proof -
    have "dv_by_idx d ?i = Some ra" "dv_by_idx d ?i = Some r"
      using ok(1) that r by (auto simp: tables_ok_def refs_iff)
    then show ?thesis by simp
  qed
  have "tables_ok T ?d"
    unfolding tables_ok_def refs f table_lawsD(3) [OF assms(1)]
  proof (intro conjI)
    show "\<forall>i ra. ((dv_by_idx d)(?i := None)) i = Some ra \<longleftrightarrow> ra \<in> refs d - {r} \<and>
        peer_index (((dv_store d)(r := shutdown_endpoint (dv_store d r))) ra) = i"
      using ok(1) inj by (auto simp: tables_ok_def)
    show "\<forall>ra. peer_conn (((dv_store d)(r := shutdown_endpoint (dv_store d r))) ra) \<longrightarrow> ra \<in> refs d - {r}"
      using ok(1) by (auto simp: tables_ok_def shutdown_endpoint_def)
    show "lfsr_used (dv_next_index d) (dom ((dv_by_idx d)(?i := None)))"
      using ok(1) by (auto simp: tables_ok_def intro: lfsr_used_mono)
    show "entries_ok T (allowed_remove T (\<lambda>p. p = r) (dv_by_ip d))"
      by (rule entries_ok_subset [of T "dv_by_ip d"]) (use ok(1) in \<open>auto simp: tables_ok_def table_lawsD(3) [OF assms(1)]\<close>)
  qed (use ok(1) in \<open>auto simp: tables_ok_def distinct_map_filter\<close>)
  moreover have "peers_ok W ?d"
    using ok(2) by (auto simp: peers_ok_def f peer_ok_def place_of_def shutdown_endpoint_def)
  ultimately show ?thesis by (simp add: device_ok_def f)
qed


text \<open>The steps of a merge that change the peer itself.\<close>

lemma peer_steps_kept:
  "peer_index (set_endpoint addr p) = peer_index p" "peer_index (peer_set_keepalive_range W r p) = peer_index p"
  "peer_index (peer_set_preshared_key psk p) = peer_index p"
  "peer_conn (set_endpoint addr p) \<Longrightarrow> peer_conn p" "peer_conn (peer_set_keepalive_range W r p) = peer_conn p"
  "peer_conn (peer_set_preshared_key psk p) = peer_conn p"
  by (simp_all add: set_endpoint_def move_endpoint_def Let_def peer_set_keepalive_range_def peer_set_preshared_key_def split: if_splits)

lemma place_of_peer [simp]:
  "place_of W d pair key (p\<lparr> peer_tunnel := t \<rparr>) = place_of W d pair key p"
  "place_of W d pair key (p\<lparr> peer_conn := b \<rparr>) = place_of W d pair key p"
  "place_of W d pair key (p\<lparr> peer_addr := a \<rparr>) = place_of W d pair key p"
  "place_of W d pair key (p\<lparr> peer_suppressed := b \<rparr>) = place_of W d pair key p"
  "place_of W d pair key (p\<lparr> peer_lifetime := l \<rparr>) = place_of W d pair key p"
  by (simp_all add: place_of_def)

lemma reset_window_ok [simp]:
  "tunn_ok W (reset_udp_window t) = tunn_ok W t" "tunn_ok W (discard_imitation_hint t) = tunn_ok W t"
  "tunn_ok W (snd (set_persistent_keepalive_range W' low high t)) = tunn_ok W t"
  by (simp_all add: reset_udp_window_def discard_imitation_hint_def set_persistent_keepalive_range_def keepalive_range_ok
      split: option.splits)

lemma peer_steps_ok:
  assumes "tunn_ok W (peer_tunnel p)" "placed (place_of W d pair key p) (peer_tunnel p)"
  shows "tunn_ok W (peer_tunnel (set_endpoint addr p)) \<and>
      placed (place_of W d pair key (set_endpoint addr p)) (peer_tunnel (set_endpoint addr p))"
    "tunn_ok W (peer_tunnel (peer_set_keepalive_range W' r p)) \<and>
      placed (place_of W d pair key (peer_set_keepalive_range W' r p)) (peer_tunnel (peer_set_keepalive_range W' r p))"
    "tunn_ok W (peer_tunnel (peer_set_preshared_key psk p)) \<and>
      placed (place_of W d pair key (peer_set_preshared_key psk p)) (peer_tunnel (peer_set_preshared_key psk p))"
proof -
  show "tunn_ok W (peer_tunnel (set_endpoint addr p)) \<and>
      placed (place_of W d pair key (set_endpoint addr p)) (peer_tunnel (set_endpoint addr p))"
    "tunn_ok W (peer_tunnel (peer_set_keepalive_range W' r p)) \<and>
      placed (place_of W d pair key (peer_set_keepalive_range W' r p)) (peer_tunnel (peer_set_keepalive_range W' r p))"
    using assms by (simp_all add: set_endpoint_def move_endpoint_def Let_def peer_set_keepalive_range_def)
  have "place_of W d pair key (peer_set_preshared_key psk p) =
      (place_of W d pair key p)\<lparr> pl_params := (pl_params (place_of W d pair key p))\<lparr> np_preshared_key := psk \<rparr> \<rparr>"
    by (simp add: place_of_def peer_set_preshared_key_def noise_params_new_def)
  then show "tunn_ok W (peer_tunnel (peer_set_preshared_key psk p)) \<and>
      placed (place_of W d pair key (peer_set_preshared_key psk p)) (peer_tunnel (peer_set_preshared_key psk p))"
    using assms set_preshared_key_placed [OF assms(2), of psk] by (simp add: peer_set_preshared_key_def set_preshared_key_ok)
qed

definition core_ok :: "'g world \<Rightarrow> 't ip_table \<Rightarrow> nat \<Rightarrow> ('g, 't) device \<Rightarrow> bool" where
  "core_ok W T r d \<longleftrightarrow> device_ok W T d \<and> r \<in> refs d"

lemma core_upd:
  assumes "core_ok W T r d" "\<And>p. peer_index (f p) = peer_index p" "\<And>p. peer_conn (f p) \<Longrightarrow> peer_conn p"
    and "\<And>key pair p. tunn_ok W (peer_tunnel p) \<Longrightarrow> placed (place_of W d pair key p) (peer_tunnel p) \<Longrightarrow>
      tunn_ok W (peer_tunnel (f p)) \<and> placed (place_of W d pair key (f p)) (peer_tunnel (f p))"
  shows "core_ok W T r (dv_upd_peer r f d)"
proof -
  have ok: "tables_ok T d" "peers_ok W d" "hints_sound (dv_hints d)" using assms(1) by (simp_all add: core_ok_def device_ok_def)
  obtain key where key: "(key, r) \<in> set (dv_peers d)" using assms(1) by (auto simp: core_ok_def refs_iff)
  have "tables_ok T (dv_upd_peer r f d)" by (rule upd_peer_tables [OF ok(1) assms(2,3)])
  moreover have "peers_ok W (dv_upd_peer r f d)" by (rule upd_peer_peers [OF ok(1,2) key assms(4)])
  ultimately show ?thesis using ok(3) assms(1) by (simp add: core_ok_def device_ok_def) (simp add: dv_upd_peer_def)
qed

lemma device_ok_by_ip:
  "device_ok W T d \<Longrightarrow> entries_ok T t \<Longrightarrow> snd ` entries T t \<subseteq> refs d \<Longrightarrow> device_ok W T (d\<lparr> dv_by_ip := t \<rparr>)"
  by (simp add: device_ok_def tables_ok_def refs_def peers_ok_def peer_ok_def place_of_def)

text \<open>What a merge changes besides the prefixes, and the prefixes it then inserts.\<close>

definition merge_settings ::
  "'g world \<Rightarrow> nat \<Rightarrow> socket_addr option \<Rightarrow> (u16 \<times> u16) option \<Rightarrow> bytes option \<Rightarrow> ('g, 't) device \<Rightarrow> ('g, 't) device" where
  "merge_settings W r endpoint ka psk d =
     (let d = (case endpoint of
           Some addr \<Rightarrow> dv_upd_peer r (set_endpoint (canonical_endpoint addr))
             (if peer_addr (dv_store d r) \<noteq> Some (canonical_endpoint addr)
              then dv_upd_peer r (\<lambda>p. p\<lparr> peer_tunnel := discard_imitation_hint (peer_tunnel p) \<rparr>) d else d)
         | None \<Rightarrow> d);
          d = (case ka of Some range0 \<Rightarrow> dv_upd_peer r (peer_set_keepalive_range W range0) d | None \<Rightarrow> d)
      in if psk \<noteq> None then dv_upd_peer r (peer_set_preshared_key psk) d else d)"

lemma upd_peer_by_ip [simp]: "dv_by_ip (dv_upd_peer r f d) = dv_by_ip d"
  by (simp add: dv_upd_peer_def)

lemma merge_settings_by_ip [simp]: "dv_by_ip (merge_settings W r endpoint ka psk d) = dv_by_ip d"
  by (simp add: merge_settings_def Let_def split: option.splits)

lemma merge_peer_unfold:
  "merge_peer W T r replace_ips endpoint ips ka psk d = (if replace_ips \<or> ips \<noteq> [] then do {
     t \<leftarrow> insert_prefixes T r ((if replace_ips then [] else peer_allowed_ips T d r) @ ips) (allowed_remove T (\<lambda>p. p = r) (dv_by_ip d));
     Some ((merge_settings W r endpoint ka psk d)\<lparr> dv_by_ip := t \<rparr>) } else Some (merge_settings W r endpoint ka psk d))"
proof -
  let ?d = "merge_settings W r endpoint ka psk d"
  have "merge_peer W T r replace_ips endpoint ips ka psk d = (if replace_ips \<or> ips \<noteq> [] then do {
     t \<leftarrow> insert_prefixes T r ((if replace_ips then [] else peer_allowed_ips T ?d r) @ ips) (allowed_remove T (\<lambda>p. p = r) (dv_by_ip ?d));
     Some (?d\<lparr> dv_by_ip := t \<rparr>) } else Some ?d)"
    unfolding merge_peer_def merge_settings_def Let_def ..
  then show ?thesis by (simp add: peer_allowed_ips_def)
qed

lemma merge_settings_ok:
  assumes "device_ok W T d" "r \<in> refs d"
  shows "core_ok W T r (merge_settings W' r endpoint ka psk d)"
proof -
  have 0: "core_ok W T r d" using assms by (simp add: core_ok_def)
  have d: "core_ok W T r (dv_upd_peer r (\<lambda>p. p\<lparr> peer_tunnel := discard_imitation_hint (peer_tunnel p) \<rparr>) d)"
    by (rule core_upd [OF 0]) simp_all
  define d1 where "d1 = (case endpoint of
      Some addr \<Rightarrow> dv_upd_peer r (set_endpoint (canonical_endpoint addr))
        (if peer_addr (dv_store d r) \<noteq> Some (canonical_endpoint addr)
         then dv_upd_peer r (\<lambda>p. p\<lparr> peer_tunnel := discard_imitation_hint (peer_tunnel p) \<rparr>) d else d)
    | None \<Rightarrow> d)"
  define d2 where "d2 = (case ka of Some range0 \<Rightarrow> dv_upd_peer r (peer_set_keepalive_range W' range0) d1 | None \<Rightarrow> d1)"
  have 1: "core_ok W T r d1" unfolding d1_def
    using 0 d by (auto intro!: core_upd peer_steps_ok simp: peer_steps_kept dest: peer_steps_kept(4) split: option.splits)
  have 2: "core_ok W T r d2" unfolding d2_def
    using 1 by (auto intro!: core_upd peer_steps_ok simp: peer_steps_kept split: option.splits)
  have "merge_settings W' r endpoint ka psk d = (if psk \<noteq> None then dv_upd_peer r (peer_set_preshared_key psk) d2 else d2)"
    unfolding merge_settings_def Let_def d1_def [symmetric] d2_def [symmetric] ..
  then show ?thesis using 2 by (auto intro!: core_upd peer_steps_ok simp: peer_steps_kept)
qed

lemma merge_peer_ok:
  assumes "table_laws T" "device_ok W T d" "r \<in> refs d"
    "merge_peer W' T r replace_ips endpoint ips ka psk d = Some d'"
  shows "device_ok W T d'"
proof -
  define d3 where "d3 = merge_settings W' r endpoint ka psk d"
  define ps where "ps = (if replace_ips then [] else peer_allowed_ips T d r) @ ips"
  have m: "merge_peer W' T r replace_ips endpoint ips ka psk d = (if replace_ips \<or> ips \<noteq> [] then do {
      t \<leftarrow> insert_prefixes T r ps (allowed_remove T (\<lambda>p. p = r) (dv_by_ip d3)); Some (d3\<lparr> dv_by_ip := t \<rparr>) } else Some d3)"
    by (simp add: merge_peer_unfold d3_def ps_def)
  have 3: "core_ok W T r d3" unfolding d3_def by (rule merge_settings_ok [OF assms(2,3)])
  show ?thesis
  proof (cases "replace_ips \<or> ips \<noteq> []")
    case True
    then obtain t where t: "insert_prefixes T r ps (allowed_remove T (\<lambda>p. p = r) (dv_by_ip d3)) = Some t"
      and d': "d' = d3\<lparr> dv_by_ip := t \<rparr>"
      using assms(4) m by (cases "insert_prefixes T r ps (allowed_remove T (\<lambda>p. p = r) (dv_by_ip d3))") simp_all
    have ok3: "device_ok W T d3" "r \<in> refs d3" using 3 by (simp_all add: core_ok_def)
    have sub: "entries T (allowed_remove T (\<lambda>p. p = r) (dv_by_ip d3)) \<subseteq> entries T (dv_by_ip d3)"
      by (auto simp: table_lawsD(3) [OF assms(1)])
    have old: "entries_ok T (dv_by_ip d3)" "snd ` entries T (dv_by_ip d3) \<subseteq> refs d3"
      using ok3(1) by (simp_all add: device_ok_def tables_ok_def)
    have rest: "entries_ok T (allowed_remove T (\<lambda>p. p = r) (dv_by_ip d3))"
      "snd ` entries T (allowed_remove T (\<lambda>p. p = r) (dv_by_ip d3)) \<subseteq> refs d3"
      using entries_ok_subset [OF old(1) sub] subset_trans [OF image_mono [OF sub] old(2)] by simp_all
    note own = insert_prefixes_owners [OF assms(1) t]
    show ?thesis unfolding d' by (rule device_ok_by_ip [OF ok3(1) own(2) [OF rest(1)]]) (use own(1) rest(2) ok3(2) in blast)
  next
    case False
    then show ?thesis using assms(4) m 3 by (simp add: core_ok_def)
  qed
qed


text \<open>A new peer, at a reference no table has, with the next index.\<close>

lemma device_ok_next_index:
  "device_ok W T d \<Longrightarrow> lfsr_used l (dom (dv_by_idx d)) \<Longrightarrow> device_ok W T (d\<lparr> dv_next_index := l \<rparr>)"
  by (simp add: device_ok_def tables_ok_def refs_def peers_ok_def peer_ok_def place_of_def)

lemma new_peer_ok:
  assumes "table_laws T" "device_ok W T d" "map_of (dv_peers d) key = None"
    and i: "i \<notin> dom (dv_by_idx d)" "lfsr_used l (insert i (dom (dv_by_idx d)))"
    and p: "peer_ok W d key p" "peer_index p = i" "\<not> peer_conn p"
    and t: "insert_prefixes T (dv_fresh d) ips (dv_by_ip d) = Some t"
  shows "device_ok W T (d\<lparr> dv_next_index := l, dv_store := (dv_store d)(dv_fresh d := p), dv_fresh := dv_fresh d + 1,
    dv_peers := (key, dv_fresh d) # dv_peers d, dv_by_idx := (dv_by_idx d)(i \<mapsto> dv_fresh d), dv_by_ip := t \<rparr>)"
    (is "device_ok W T ?d")
proof -
  have ok: "tables_ok T d" "peers_ok W d" "hints_sound (dv_hints d)" using assms(2) by (simp_all add: device_ok_def)
  have refs: "refs ?d = insert (dv_fresh d) (refs d)" by (simp add: refs_def)
  have new: "dv_fresh d \<notin> refs d" using ok(1) by (auto simp: tables_ok_def)
  have key: "key \<notin> fst ` set (dv_peers d)" using assms(3) by (simp add: map_of_eq_None_iff)
  note own = insert_prefixes_owners [OF assms(1) t]
  have "tables_ok T ?d"
    unfolding tables_ok_def refs
  proof (intro conjI)
    show "\<forall>j r. dv_by_idx ?d j = Some r \<longleftrightarrow> r \<in> insert (dv_fresh d) (refs d) \<and> peer_index (dv_store ?d r) = j"
      using ok(1) i(1) new p(2) by (auto simp: tables_ok_def dom_def)
    show "distinct (map snd (dv_peers ?d))" using ok(1) new by (simp add: tables_ok_def refs_def)
    show "distinct (map fst (dv_peers ?d))" using ok(1) key by (simp add: tables_ok_def)
    show "\<forall>r \<in> insert (dv_fresh d) (refs d). r < dv_fresh ?d" using ok(1) by (auto simp: tables_ok_def)
    show "entries_ok T (dv_by_ip ?d)" using ok(1) own(2) by (simp add: tables_ok_def)
    show "snd ` entries T (dv_by_ip ?d) \<subseteq> insert (dv_fresh d) (refs d)" 
    proof -
      have "snd ` entries T (dv_by_ip d) \<subseteq> refs d" using ok(1) by (simp add: tables_ok_def)
      then show ?thesis using own(1) by (simp add: subset_iff insert_iff) blast
    qed
    show "\<forall>r. peer_conn (dv_store ?d r) \<longrightarrow> r \<in> insert (dv_fresh d) (refs d)" using ok(1) p(3) by (simp add: tables_ok_def)
    show "lfsr_used (dv_next_index ?d) (dom (dv_by_idx ?d))" using i(2) by simp
  qed
  moreover have "peer_ok W ?d = peer_ok W d" by (simp add: fun_eq_iff peer_ok_def place_of_def)
  then have "peers_ok W ?d" using ok(2) p(1) new by (auto simp: peers_ok_def refs_iff)
  ultimately show ?thesis using ok(3) by (simp add: device_ok_def)
qed

lemma update_peer_ok:
  assumes "table_laws T" "device_ok W T d"
    "update_peer W T k se key remove replace_ips endpoint ips ka psk d = Some (res, d')"
  shows "device_ok W T d'"
proof (cases "remove \<or> map_of (dv_peers d) key \<noteq> None")
  case True
  then show ?thesis using assms(3) remove_peer_ok [OF assms(1,2)] merge_peer_ok [OF assms(1,2)]
    by (auto simp: update_peer_def dest: lookup_ref split: if_splits option.splits bind_splits)
next
  case False
  obtain i l where n: "lfsr_next (dv_next_index d) = Some (i, l)"
    using assms(3) False by (auto simp: update_peer_def split: bind_splits)
  have "lfsr_used (dv_next_index d) (dom (dv_by_idx d))" using assms(2) by (simp add: device_ok_def tables_ok_def)
  note fresh = lfsr_next_fresh [OF this n]
  have ok: "device_ok W T (d\<lparr> dv_next_index := l \<rparr>)"
    by (rule device_ok_next_index [OF assms(2) lfsr_used_mono [OF fresh(3)]]) blast
  show ?thesis
  proof (cases "dv_key_pair d")
    case None
    then show ?thesis using assms(3) False n ok by (simp add: update_peer_def)
  next
    case (Some pair)
    obtain sk pk where pair: "pair = (sk, pk)" by fastforce
    let ?new = "new_with_obfuscation W k (se_limiter se) (se_rng se) (se_jitter se) (se_stamper se) sk key
        psk (option_filter (\<lambda>lo. lo > 0) (map_option fst ka)) i (dv_limiter d) (dv_obf d) (dv_amnezia d)"
    show ?thesis
    proof (cases ?new)
      case (Inl e)
      then show ?thesis using assms(3) False n ok Some pair by (simp add: update_peer_def)
    next
      case (Inr t)
      define p where "p = (case ka of Some r \<Rightarrow> peer_set_keepalive_range W r (peer_new t i endpoint psk) | None \<Rightarrow> peer_new t i endpoint psk)"
      have pk: "pk = x25519_public (w_crypto W) sk" "config_wf (dv_amnezia d)"
        using assms(2) Some pair by (auto simp: device_ok_def peers_ok_def)
      have "placed (place_of W d pair key (peer_new t i endpoint psk)) t"
        using new_placed [OF Inr] by (simp add: place_of_def peer_new_def pair pk(1) narrow_upper [OF fresh(2)])
      then have "peer_ok W d key p" "peer_index p = i" "\<not> peer_conn p"
        using new_with_obfuscation_ok [OF Inr pk(2)] Some
        by (auto simp: p_def peer_ok_def peer_set_keepalive_range_def split: option.splits) (simp_all add: peer_new_def)
      then show ?thesis using assms(3) False n ok Some pair Inr fresh
          new_peer_ok [OF assms(1,2) _ fresh(1,3)]
        by (auto simp: update_peer_def p_def [symmetric] Let_def split: bind_splits)
    qed
  qed
qed


section \<open>Operations on every peer\<close>

lemma each_tunnel_effect:
  assumes "each_tunnel f rs s = Some s'" "distinct rs"
  shows "if r \<in> set rs then \<exists>t. f (peer_tunnel (s r)) = Some t \<and> s' r = (s r)\<lparr> peer_tunnel := t \<rparr> else s' r = s r"
  using assms
proof (induction rs arbitrary: s)
  case (Cons r0 rs)
  obtain t where t: "f (peer_tunnel (s r0)) = Some t"
    and e: "each_tunnel f rs (s(r0 := (s r0)\<lparr> peer_tunnel := t \<rparr>)) = Some s'"
    using Cons.prems(1) by (auto split: bind_splits)
  show ?case using Cons.IH [OF e] Cons.prems(2) t by (cases "r = r0") auto
qed simp

lemma each_tunnel_returns:
  "(\<And>r. r \<in> set rs \<Longrightarrow> returns (f (peer_tunnel (s r)))) \<Longrightarrow> distinct rs \<Longrightarrow> returns (each_tunnel f rs s)"
proof (induction rs arbitrary: s)
  case (Cons r0 rs)
  obtain t where t: "f (peer_tunnel (s r0)) = Some t" using Cons.prems(1) [of r0] by (auto simp: returns_def)
  have "returns (each_tunnel f rs (s(r0 := (s r0)\<lparr> peer_tunnel := t \<rparr>)))"
    by (rule Cons.IH) (use Cons.prems in auto)
  then show ?case using t by simp
qed (simp add: returns_def)

text \<open>The device after its configuration has changed, and every tunnel with it.\<close>

lemma reconfigured_ok:
  assumes d: "device_ok W T d" and e: "each_tunnel f (map snd (dv_peers d)) (dv_store d) = Some s"
    and same: "dv_peers d' = dv_peers d" "dv_by_idx d' = dv_by_idx d" "dv_by_ip d' = dv_by_ip d" "dv_fresh d' = dv_fresh d"
      "dv_next_index d' = dv_next_index d" "dv_store d' = s"
    and new: "config_wf (dv_amnezia d')" "dv_limiter d' = None \<longleftrightarrow> dv_key_pair d' = None"
      "\<And>sk pk. dv_key_pair d' = Some (sk, pk) \<Longrightarrow> pk = x25519_public (w_crypto W) sk" "hints_sound (dv_hints d')"
    and f: "\<And>key p t. peer_ok W d key p \<Longrightarrow> f (peer_tunnel p) = Some t \<Longrightarrow> peer_ok W d' key (p\<lparr> peer_tunnel := t \<rparr>)"
  shows "device_ok W T d'"
proof -
  have ok: "tables_ok T d" "peers_ok W d" using d by (simp_all add: device_ok_def)
  have refs: "refs d' = refs d" by (simp add: refs_def same)
  have "distinct (map snd (dv_peers d))" using ok(1) by (simp add: tables_ok_def)
  note eff = each_tunnel_effect [OF e this]
  have s: "\<exists>t. s r = (dv_store d r)\<lparr> peer_tunnel := t \<rparr>" for r
    using eff [of r] by (cases "r \<in> set (map snd (dv_peers d))") (auto intro: exI [of _ "peer_tunnel (dv_store d r)"])
  have "peer_index (s r) = peer_index (dv_store d r)" "peer_conn (s r) = peer_conn (dv_store d r)" for r
    using s [of r] by auto
  then have "tables_ok T d'" using ok(1) by (simp add: tables_ok_def refs same)
  moreover have "peers_ok W d'"
    unfolding peers_ok_def same
  proof (intro conjI allI impI new)
    fix key r
    assume m: "(key, r) \<in> set (dv_peers d)"
    then obtain t where "f (peer_tunnel (dv_store d r)) = Some t" "s r = (dv_store d r)\<lparr> peer_tunnel := t \<rparr>"
      using eff [of r] by (force simp: image_iff split: if_splits)
    then show "peer_ok W d' key (s r)" using f [of key "dv_store d r" t] ok(2) m by (simp add: peers_ok_def)
  qed
  ultimately show ?thesis using new(4) by (simp add: device_ok_def)
qed

lemma set_key_ok:
  assumes "device_ok W T d" "set_key W k ls sk d = Some d'"
  shows "device_ok W T d'"
proof (cases "Some (x25519_public (w_crypto W) sk) = map_option snd (dv_key_pair d)")
  case True
  then show ?thesis using assms by (simp add: set_key_def Let_def)
next
  case False
  define pk where "pk = x25519_public (w_crypto W) sk"
  define l where "l = rate_limiter_new (w_crypto W) pk HANDSHAKE_RATE_LIMIT (ls_secret ls) (ls_nonce_key ls)
    (at_now k) (at_now k) (ls_hash1 ls) (ls_hash2 ls)"
  obtain s where s: "each_tunnel (tunn_set_static_private W k ls sk pk (Some l)) (map snd (dv_peers d)) (dv_store d) = Some s"
    and d': "d' = d\<lparr> dv_store := s, dv_key_pair := Some (sk, pk), dv_hints := hints_clear (dv_hints d), dv_limiter := Some l \<rparr>"
    using assms(2) False by (auto simp: set_key_def Let_def pk_def l_def split: bind_splits)
  show ?thesis
  proof (rule reconfigured_ok [OF assms(1) s])
    fix key p t
    assume p: "peer_ok W d key p" and t: "tunn_set_static_private W k ls sk pk (Some l) (peer_tunnel p) = Some t"
    obtain pair where pl: "placed (place_of W d pair key p) (peer_tunnel p)" and ok: "tunn_ok W (peer_tunnel p)"
      using p by (auto simp: peer_ok_def)
    have "place_of W d' (sk, pk) key (p\<lparr> peer_tunnel := t \<rparr>) = (place_of W d pair key p)\<lparr> pl_params :=
        (pl_params (place_of W d pair key p))\<lparr> np_static_private := sk, np_static_public := pk, np_static_shared :=
          x25519_dh (w_crypto W) sk (np_peer_static_public (pl_params (place_of W d pair key p))) \<rparr> \<rparr>"
      by (simp add: place_of_def d' noise_params_new_def)
    then show "peer_ok W d' key (p\<lparr> peer_tunnel := t \<rparr>)"
      using set_static_private_placed [OF pl t] tunn_set_static_private_ok [OF ok t] by (simp add: peer_ok_def d')
  qed (use assms(1) in \<open>auto simp: d' pk_def device_ok_def peers_ok_def\<close>)
qed

lemma device_set_obfuscation_ok:
  assumes "device_ok W T d" "config_wf amnezia" "check_header_protection_nonce amnezia = Ok ()"
    "device_set_obfuscation W obf amnezia d = Some (b, d')"
  shows "device_ok W T d'"
proof (cases "dv_obf d = obf \<and> dv_amnezia d = amnezia")
  case True
  then show ?thesis using assms by (simp add: device_set_obfuscation_def)
next
  case False
  obtain s where s: "each_tunnel (set_obfuscation W obf amnezia) (map snd (dv_peers d)) (dv_store d) = Some s"
    and d': "d' = d\<lparr> dv_obf := obf, dv_amnezia := amnezia, dv_hints := hints_clear (dv_hints d), dv_store := s \<rparr>"
    using assms(4) False by (auto simp: device_set_obfuscation_def Let_def split: bind_splits)
  show ?thesis
  proof (rule reconfigured_ok [OF assms(1) s])
    fix key p t
    assume p: "peer_ok W d key p" and t: "set_obfuscation W obf amnezia (peer_tunnel p) = Some t"
    obtain pair where pl: "dv_key_pair d = Some pair" "placed (place_of W d pair key p) (peer_tunnel p)"
      and ok: "tunn_ok W (peer_tunnel p)"
      using p by (auto simp: peer_ok_def)
    have "place_of W d' pair key (p\<lparr> peer_tunnel := t \<rparr>) = (place_of W d pair key p)\<lparr> pl_amnezia := amnezia, pl_obf := obf \<rparr>"
      by (simp add: place_of_def d')
    moreover have "tunn_ok W t" using t try_set_obfuscation_ok [OF ok assms(2)] by (auto simp: set_obfuscation_def)
    ultimately show "peer_ok W d' key (p\<lparr> peer_tunnel := t \<rparr>)"
      using set_obfuscation_placed [OF pl(2) assms(3) t] pl(1) by (simp add: peer_ok_def d')
  qed (use assms(1,2) in \<open>auto simp: d' device_ok_def peers_ok_def\<close>)
qed

lemma refresh_mtu_ok:
  assumes "device_ok W T d" "refresh_mtu read d = Some d'"
  shows "device_ok W T d'"
proof (cases read)
  case None
  then show ?thesis using assms by (simp add: refresh_mtu_def)
next
  case (Some n)
  let ?mtu = "of_nat (min n 65535) :: u16"
  have mtu: "device_ok W T (d\<lparr> dv_mtu := n \<rparr>)"
    using assms(1) by (simp add: device_ok_def tables_ok_def refs_def peers_ok_def peer_ok_def place_of_def)
  show ?thesis
  proof (cases "content_padding_mtu (dv_amnezia d) = ?mtu")
    case True
    then show ?thesis using assms(2) Some mtu by (simp add: refresh_mtu_def Let_def)
  next
    case False
    obtain s where s: "each_tunnel (\<lambda>t. Some (set_content_padding_mtu ?mtu t)) (map snd (dv_peers d)) (dv_store d) = Some s"
      and d': "d' = d\<lparr> dv_mtu := n, dv_amnezia := (dv_amnezia d)\<lparr> content_padding_mtu := ?mtu \<rparr>, dv_store := s \<rparr>"
      using assms(2) Some False by (auto simp: refresh_mtu_def Let_def split: bind_splits)
    show ?thesis
    proof (rule reconfigured_ok [OF assms(1) s])
      fix key p t
      assume p: "peer_ok W d key p" and t: "Some (set_content_padding_mtu ?mtu (peer_tunnel p)) = Some t"
      obtain pair where pl: "dv_key_pair d = Some pair" "placed (place_of W d pair key p) (peer_tunnel p)"
        and ok: "tunn_ok W (peer_tunnel p)"
        using p by (auto simp: peer_ok_def)
      have "place_of W d' pair key (p\<lparr> peer_tunnel := t \<rparr>) = (place_of W d pair key p)\<lparr> pl_amnezia :=
          (pl_amnezia (place_of W d pair key p))\<lparr> content_padding_mtu := ?mtu \<rparr> \<rparr>"
        by (simp add: place_of_def d')
      then show "peer_ok W d' key (p\<lparr> peer_tunnel := t \<rparr>)"
        using set_mtu_placed [OF pl(2)] set_mtu_ok [OF ok] t pl(1) by (auto simp: peer_ok_def d')
    qed (use assms(1) in \<open>auto simp: d' device_ok_def peers_ok_def config_wf_def\<close>)
  qed
qed

lemma clear_peers_ok:
  assumes "table_laws T" "device_ok W T d"
  shows "device_ok W T (clear_peers T d)"
proof -
  have "tables_ok T (clear_peers T d)"
    using assms(2) unfolding device_ok_def tables_ok_def
    by (auto simp: clear_peers_def refs_def table_lawsD(1) [OF assms(1)] entries_ok_new [OF assms(1)] shutdown_endpoint_def intro: lfsr_used_mono split: if_splits)
  then show ?thesis using assms(2) by (simp add: device_ok_def peers_ok_def) (auto simp: clear_peers_def)
qed



section \<open>The prefixes of a peer\<close>

lemma insert_prefixes_assigns:
  assumes "table_laws T" "list_all2 (\<lambda>(addr, cidr) net. it_network T addr cidr = Some net) ps nets"
  shows "\<exists>t'. insert_prefixes T r ps t = Some t' \<and>
    entries T t' = {(net, r) | net. net \<in> set nets} \<union> {e \<in> entries T t. fst e \<notin> set nets}"
  using assms(2)
proof (induction ps nets arbitrary: t rule: list_all2_induct)
  case (Cons p ps net nets)
  obtain addr cidr where p: "p = (addr, cidr)" "it_network T addr cidr = Some net" using Cons.hyps(1) by (cases p) simp
  obtain t' where "insert_prefixes T r ps (it_insert T net r t) = Some t'"
    "entries T t' = {(net, r) | net. net \<in> set nets} \<union> {e \<in> entries T (it_insert T net r t). fst e \<notin> set nets}"
    using Cons.IH by blast
  then show ?case using p by (auto simp: allowed_insert_def table_lawsD(2) [OF assms(1)])
qed simp

lemma own_prefixes_valid:
  assumes "entries_ok T (dv_by_ip d)"
  shows "list_all2 (\<lambda>(addr, cidr) net. it_network T addr cidr = Some net) (peer_allowed_ips T d r) (peer_allowed_ips T d r)"
    "set (peer_allowed_ips T d r) = {net. (net, r) \<in> entries T (dv_by_ip d)}"
proof -
  show own: "set (peer_allowed_ips T d r) = {net. (net, r) \<in> entries T (dv_by_ip d)}"
    by (force simp: peer_allowed_ips_def index_prefixes_def allowed_iter_def entries_def)
  then show "list_all2 (\<lambda>(addr, cidr) net. it_network T addr cidr = Some net) (peer_allowed_ips T d r) (peer_allowed_ips T d r)"
    using assms by (auto simp: list_all2_same entries_ok_def split: prod.splits)
qed

lemma merge_peer_assigns:
  assumes "table_laws T" "entries_ok T (dv_by_ip d)" "list_all2 (\<lambda>(addr, cidr) net. it_network T addr cidr = Some net) ips nets"
  shows "\<exists>d'. merge_peer W T r replace_ips endpoint ips ka psk d = Some d' \<and>
    entries T (dv_by_ip d') = {(net, r) | net. net \<in> set nets} \<union>
      {e \<in> entries T (dv_by_ip d). fst e \<notin> set nets \<and> (snd e = r \<longrightarrow> \<not> replace_ips)}"
proof -
  let ?own = "if replace_ips then [] else peer_allowed_ips T d r"
  have own: "list_all2 (\<lambda>(addr, cidr) net. it_network T addr cidr = Some net) ?own ?own"
    using own_prefixes_valid(1) [OF assms(2)] by simp
  obtain t where t: "insert_prefixes T r (?own @ ips) (allowed_remove T (\<lambda>p. p = r) (dv_by_ip d)) = Some t"
    and e: "entries T t = {(net, r) | net. net \<in> set (?own @ nets)} \<union>
      {e \<in> entries T (allowed_remove T (\<lambda>p. p = r) (dv_by_ip d)). fst e \<notin> set (?own @ nets)}"
    using insert_prefixes_assigns [OF assms(1) list_all2_appendI [OF own assms(3)]] by blast
  have sv: "\<And>net r'. (net, r') \<in> entries T (dv_by_ip d) \<Longrightarrow> (net, r) \<in> entries T (dv_by_ip d) \<Longrightarrow> r' = r"
    using assms(2) by (auto simp: entries_ok_def single_valued_def)
  have "entries T t = {(net, r) | net. net \<in> set nets} \<union>
      {e \<in> entries T (dv_by_ip d). fst e \<notin> set nets \<and> (snd e = r \<longrightarrow> \<not> replace_ips)}"
    unfolding e table_lawsD(3) [OF assms(1)]
    by (cases replace_ips) (auto simp: own_prefixes_valid(2) [OF assms(2)] dest: sv)
  moreover have "nets = []" if "ips = []" using assms(3) that by simp
  ultimately show ?thesis using t by (cases "replace_ips \<or> ips \<noteq> []") (auto simp: merge_peer_unfold)
qed

end
