(* ===== verification/Device_Traffic.thy ===== *)
theory Device_Traffic
  imports Device_Tables
begin

text \<open>
  What a datagram, a packet of the interface or a tick does to a device: it returns, the invariant holds
  after it, and it reaches one peer at most. A datagram on the listener changes only the peer that has
  authenticated it, and what it writes to the interface has a source address of that peer's.
\<close>

section \<open>Evidence\<close>

lemma pop_oldest_sound: "hints_sound p \<Longrightarrow> hints_sound (pop_oldest p)"
  by (auto simp: hints_sound_def pop_oldest_def split: list.splits)

lemma pending_expire_sound:
  assumes "hints_sound p"
  shows "\<exists>p'. pending_expire now p = Some p' \<and> hints_sound p'"
  using assms
proof (induction now p rule: pending_expire.induct)
  case (1 now p)
  show ?case
  proof (cases "pe_order p")
    case Nil
    then show ?thesis using "1.prems" by (subst pending_expire.simps) simp
  next
    case (Cons s rest)
    then obtain h where "pe_by_source p s = Some h" using "1.prems" by (force simp: hints_sound_def dom_def)
    then show ?thesis using "1.IH" [OF Cons] "1.prems" Cons pop_oldest_sound [OF "1.prems"]
      by (subst pending_expire.simps) auto
  qed
qed

lemma hints_observe_sound:
  assumes "hints_sound p"
  shows "\<exists>p'. hints_observe now source datagram p = Some p' \<and> hints_sound p'"
proof -
  obtain q where q: "pending_expire now p = Some q" "hints_sound q" using pending_expire_sound [OF assms] by blast
  have add: "hints_sound (q'\<lparr> pe_by_source := (pe_by_source q')(source \<mapsto> h), pe_order := pe_order q' @ [source] \<rparr>)"
    if "hints_sound q'" "pe_by_source q' source = None" for q' h
    using that by (auto simp: hints_sound_def)
  have "pe_by_source (pop_oldest q) source = None" if "pe_by_source q source = None"
    using that by (simp add: pop_oldest_def split: list.splits)
  then show ?thesis using q assms add [OF pop_oldest_sound [OF q(2)]] add [OF q(2)]
    by (auto simp: hints_observe_def Let_def split: option.splits)
qed

lemma hints_get_sound:
  assumes "hints_sound p"
  shows "\<exists>found p'. hints_get now source p = Some (found, p') \<and> hints_sound p'"
  using pending_expire_sound [OF assms, of now] by (auto simp: hints_get_def)

lemma hints_discard_sound: "hints_sound p \<Longrightarrow> hints_sound (hints_discard source p)"
  by (auto simp: hints_sound_def hints_discard_def)

section \<open>What traffic leaves\<close>

definition same_tables :: "('g, 't) device \<Rightarrow> ('g, 't) device \<Rightarrow> bool" where
  "same_tables d d' \<longleftrightarrow>
     dv_key_pair d' = dv_key_pair d \<and> dv_peers d' = dv_peers d \<and> dv_by_idx d' = dv_by_idx d \<and> dv_by_ip d' = dv_by_ip d \<and>
     dv_fresh d' = dv_fresh d \<and> dv_next_index d' = dv_next_index d \<and> dv_obf d' = dv_obf d \<and> dv_amnezia d' = dv_amnezia d \<and>
     (dv_limiter d' = None \<longleftrightarrow> dv_limiter d = None)"

text \<open>A peer after some traffic: the same index and keys, and a tunnel that is as well formed and placed as before.\<close>

definition carries_on :: "'g world \<Rightarrow> 'g peer \<Rightarrow> 'g peer \<Rightarrow> bool" where
  "carries_on W p p' \<longleftrightarrow>
     peer_index p' = peer_index p \<and> peer_psk p' = peer_psk p \<and>
     (tunn_ok W (peer_tunnel p) \<longrightarrow> tunn_ok W (peer_tunnel p')) \<and>
     (\<forall>c. placed c (peer_tunnel p) \<longrightarrow> placed c (peer_tunnel p'))"

definition carried :: "'g world \<Rightarrow> ('g, 't) device \<Rightarrow> ('g, 't) device \<Rightarrow> bool" where
  "carried W d d' \<longleftrightarrow>
     same_tables d d' \<and> (hints_sound (dv_hints d) \<longrightarrow> hints_sound (dv_hints d')) \<and>
     (\<forall>r. carries_on W (dv_store d r) (dv_store d' r) \<and>
          (peer_conn (dv_store d' r) \<longrightarrow> peer_conn (dv_store d r) \<or> r \<in> refs d))"

lemma carries_on_refl [simp]: "carries_on W p p"
  by (simp add: carries_on_def)

lemma carries_on_trans: "carries_on W p q \<Longrightarrow> carries_on W q r \<Longrightarrow> carries_on W p r"
  by (simp add: carries_on_def)

lemma carried_refl [simp]: "carried W d d"
  by (simp add: carried_def same_tables_def)

lemma carried_trans: "carried W d d' \<Longrightarrow> carried W d' d'' \<Longrightarrow> carried W d d''"
  unfolding carried_def same_tables_def refs_def by (auto intro: carries_on_trans)

lemma carried_ok: "carried W d d' \<Longrightarrow> device_ok W T d \<Longrightarrow> device_ok W T d'"
  unfolding device_ok_def
proof (intro conjI; elim conjE)
  assume c: "carried W d d'" and t: "tables_ok T d"
  then have s: "same_tables d d'" "\<And>r. peer_index (dv_store d' r) = peer_index (dv_store d r)"
    "\<And>r. peer_conn (dv_store d' r) \<Longrightarrow> peer_conn (dv_store d r) \<or> r \<in> refs d"
    by (auto simp: carried_def carries_on_def)
  have "r \<in> refs d" if "peer_conn (dv_store d' r)" for r using s(3) [OF that] t by (auto simp: tables_ok_def)
  moreover have "refs d' = refs d" using s(1) by (simp add: refs_def same_tables_def)
  ultimately show "tables_ok T d'" using t s(1,2) by (simp add: tables_ok_def same_tables_def)
next
  assume c: "carried W d d'" and p: "peers_ok W d"
  have "place_of W d' pair key (dv_store d' r) = place_of W d pair key (dv_store d r)" for pair key r
    using c by (simp add: carried_def same_tables_def carries_on_def place_of_def)
  then have "peer_ok W d' key (dv_store d' r)" if "peer_ok W d key (dv_store d r)" for key r
    using that c by (auto simp: peer_ok_def carried_def same_tables_def carries_on_def)
  then show "peers_ok W d'" using p c by (auto simp: peers_ok_def carried_def same_tables_def)
qed (simp add: carried_def)

lemma carried_fields:
  "carried W d (d\<lparr> dv_responder := x \<rparr>)" "dv_limiter d \<noteq> None \<Longrightarrow> carried W d (d\<lparr> dv_limiter := Some l \<rparr>)"
  "(hints_sound (dv_hints d) \<Longrightarrow> hints_sound h) \<Longrightarrow> carried W d (d\<lparr> dv_hints := h \<rparr>)"
  by (simp_all add: carried_def same_tables_def)

lemma carried_upd:
  "carries_on W (dv_store d r) (f (dv_store d r)) \<Longrightarrow> (peer_conn (f (dv_store d r)) \<Longrightarrow> peer_conn (dv_store d r) \<or> r \<in> refs d) \<Longrightarrow>
   carried W d (dv_upd_peer r f d)"
  by (auto simp: carried_def same_tables_def dv_upd_peer_def)

text \<open>The limiter goes with the tunnel it is loaded into.\<close>

lemma tunnel_at_ok [simp]: "tunn_ok W (tunnel_at d r) = tunn_ok W (peer_tunnel (dv_store d r))"
  by (simp add: tunnel_at_def Let_def split: option.splits)

lemma tunnel_at_placed [simp]: "placed c (tunnel_at d r) = placed c (peer_tunnel (dv_store d r))"
  by (simp add: tunnel_at_def Let_def split: option.splits)

lemma carried_put:
  assumes "tunn_ok W (peer_tunnel (dv_store d r)) \<Longrightarrow> tunn_ok W t"
    "\<And>c. placed c (peer_tunnel (dv_store d r)) \<Longrightarrow> placed c t"
  shows "carried W d (put_tunnel r t d)"
  using assms by (auto simp: carried_def same_tables_def put_tunnel_def dv_upd_peer_def carries_on_def)

definition only_peer :: "nat \<Rightarrow> ('g, 't) device \<Rightarrow> ('g, 't) device \<Rightarrow> bool" where
  "only_peer r d d' \<longleftrightarrow> (\<forall>r'. r' \<noteq> r \<longrightarrow> dv_store d' r' = dv_store d r')"

lemma only_peer_rules [simp, intro]:
  "only_peer r d d" "only_peer r d (dv_upd_peer r f d)" "only_peer r d (put_tunnel r t d)"
  "only_peer r d (d\<lparr> dv_hints := h \<rparr>)" "only_peer r d (d\<lparr> dv_limiter := l \<rparr>)" "only_peer r d (d\<lparr> dv_responder := x \<rparr>)"
  by (simp_all add: only_peer_def dv_upd_peer_def put_tunnel_def)

lemma only_peer_trans: "only_peer r d d' \<Longrightarrow> only_peer r d' d'' \<Longrightarrow> only_peer r d d''"
  by (simp add: only_peer_def)

section \<open>Source addresses\<close>

text \<open>The source address of a packet, by its version.\<close>

definition ip_source :: "bytes \<Rightarrow> ip_addr" where
  "ip_source packet = (if drop_bit 4 (hd packet) = 4 then IpV4 (slice 12 16 packet) else IpV6 (slice 8 24 packet))"

definition well_sourced :: "tunn_result \<Rightarrow> bool" where
  "well_sourced result =
     (case result of
        TrWriteToTunnelV4 packet a \<Rightarrow> ip_source packet = IpV4 a
      | TrWriteToTunnelV6 packet a \<Rightarrow> ip_source packet = IpV6 a
      | _ \<Rightarrow> True)"

lemma sent_well_sourced: "is_err r \<or> is_network r \<Longrightarrow> well_sourced r"
  by (auto simp: is_err_def is_network_def well_sourced_def split: tunn_result.splits)

lemma well_sourced_simps [simp]: "well_sourced TrDone" "well_sourced (TrErr e)" "well_sourced (TrWriteToNetwork p)"
  by (simp_all add: well_sourced_def)

lemma commit_data_well_sourced: "commit_data W i plaintext t = (r, t') \<Longrightarrow> well_sourced r"
  using delivered_facts [where W = W and i = i and plaintext = plaintext and t = t]
  by (cases r) (auto simp: well_sourced_def ip_source_def)

lemma write_well_sourced:
  "write_to_network W dst n t = Some (r, t') \<Longrightarrow> well_sourced r"
  "write_handshake_to_network W dst n ceil t = Some (r, t') \<Longrightarrow> well_sourced r"
  "write_to_network_with_imitation W dst n room protocol t = Some (r, t') \<Longrightarrow> well_sourced r"
  by (auto simp: write_to_network_def write_handshake_to_network_def write_to_network_with_def
      write_to_network_with_imitation_def split: bind_splits sum.splits)

lemma commit_well_sourced:
  assumes "commit_with_imitation_and_budget W k packet datagram hint0 dst budget t = Some (r, t')"
  shows "well_sourced r"
proof -
  have "well_sourced r1" if "commit_with_budget W k packet dst budget t1 = Some (r1, t2)" for r1 t1 t2
    using that
    by (auto simp: commit_with_budget_def Let_def commit_handshake_init_def commit_handshake_response_def case_prod_beta
        commit_cookie_reply_def dest: write_well_sourced commit_data_well_sourced
        split: authenticated.splits bind_splits sum.splits prod.splits)
  then show ?thesis using assms
    by (auto simp: commit_with_imitation_and_budget_def Let_def split: if_splits bind_splits)
qed

section \<open>Committing at the device\<close>

lemma commit_anonymous_ok:
  assumes "tunn_ok W (peer_tunnel p)" "token_ok packet"
  shows "\<exists>result p'. commit_anonymous W k packet from datagram found dst p = Some (result, p') \<and> well_sourced result \<and>
    peer_index p' = peer_index p \<and> peer_psk p' = peer_psk p \<and> tunn_ok W (peer_tunnel p') \<and> (peer_conn p' \<longrightarrow> peer_conn p) \<and>
    (\<forall>c. placed c (peer_tunnel p) \<longrightarrow> token_addressed (pl_index c) packet \<longrightarrow> placed c (peer_tunnel p'))"
proof -
  define moves where "moves = moves_endpoint (authenticated_kind_of packet)"
  define t where "t = (if moves \<and> peer_addr p \<noteq> Some from then snd (begin_new_path (peer_tunnel p)) else peer_tunnel p)"
  define replaced where "replaced = (if moves \<and> peer_addr p \<noteq> Some from then Some (fst (begin_new_path (peer_tunnel p))) else None)"
  have t: "tunn_ok W t" "placed c t = placed c (peer_tunnel p)" for c
    using assms(1) by (simp_all add: t_def begin_new_path_def)
  obtain r t1 where c: "commit_with_imitation_and_budget W k packet datagram found dst budget_UNBOUNDED t = Some (r, t1)"
    using returnsE [OF commit_with_imitation_returns [OF t(1)]] by blast
  define t2 where "t2 = (case replaced of
      Some window \<Rightarrow> if \<not> is_err r then discard_imitation_hint t1 else restore_udp_window window t1 | None \<Rightarrow> t1)"
  have t2: "tunn_ok W t2 = tunn_ok W t1" "placed c t2 = placed c t1" for c
    by (simp_all add: t2_def restore_udp_window_def split: option.splits)
  define p' where "p' = (if moves \<and> \<not> is_err r then adopt_endpoint from (p\<lparr> peer_tunnel := t2 \<rparr>) else p\<lparr> peer_tunnel := t2 \<rparr>)"
  have e: "commit_anonymous W k packet from datagram found dst p = Some (r, p')"
    using c by (simp add: p'_def commit_anonymous_def commit_with_imitation_def moves_def t_def t2_def replaced_def begin_new_path_def
        split: if_splits)
  have p': "peer_index p' = peer_index p" "peer_psk p' = peer_psk p" "peer_tunnel p' = t2" "peer_conn p' \<longrightarrow> peer_conn p"
    by (auto simp: p'_def adopt_endpoint_def move_endpoint_def Let_def)
  have "placed c t2" if "placed c (peer_tunnel p)" "token_addressed (pl_index c) packet" for c
    using commit_with_imitation_placed [OF _ that(2) c] that(1) t(2) t2(2) by simp
  moreover have "tunn_ok W t2" using commit_with_imitation_ok [OF t(1) assms(2) c] t2(1) by simp
  ultimately show ?thesis using e p' commit_well_sourced [OF c] by (intro exI [of _ r] exI [of _ p']) simp
qed


section \<open>The shared listener\<close>

lemma peer_named_live: "device_ok W T d \<Longrightarrow> peer_named W' sk pk packet d = Ok r \<Longrightarrow> r \<in> refs d"
  by (auto simp: peer_named_def Let_def device_ok_def tables_ok_def refs_iff split: packet.splits sum.splits option.splits
      dest!: map_of_SomeD)

lemma upd_same_tunnel: "dv_upd_peer r (\<lambda>p. p\<lparr> peer_tunnel := peer_tunnel (dv_store d r) \<rparr>) d = d"
  by (simp add: dv_upd_peer_def)

text \<open>
  Authentication at the device is a trial in the sense of the receive loop, like that of one tunnel: the
  peers a refused reading was tried on are as they were.
\<close>

interpretation listener_trial: inbound_trial "authenticate_anonymous W k n sk pk" for W k n sk pk
proof unfold_locales
  fix p e
  fix d d' :: "('a, 'b) device"
  assume a: "authenticate_anonymous W k n sk pk p d = (Inl e, d')"
  show "d' = d"
  proof (cases "peer_named W sk pk p d")
    case (Inr r)
    obtain x t where x: "tunn_authenticate W k n p (peer_tunnel (dv_store d r)) = (x, t)" by fastforce
    then have "t = peer_tunnel (dv_store d r)"
      using a Inr tunnel_trial.refusal_transparent unfolding tunn_authenticate_def authenticate_anonymous_def
      by (auto split: sum.splits)
    then show ?thesis using a Inr x by (auto simp: authenticate_anonymous_def upd_same_tunnel split: sum.splits)
  qed (use a in \<open>simp add: authenticate_anonymous_def\<close>)
qed

lemma authenticate_anonymous_accepted:
  assumes "authenticate_anonymous W k n sk pk p d = (Inr (r, a), d')"
  obtains t where "peer_named W sk pk p d = Ok r" "tunn_authenticate W k n p (peer_tunnel (dv_store d r)) = (Inr a, t)"
    "d' = dv_upd_peer r (\<lambda>p. p\<lparr> peer_tunnel := t \<rparr>) d"
  using assms by (auto simp: authenticate_anonymous_def split: sum.splits prod.splits)

text \<open>What goes out: datagrams to one address, and packets from addresses of one peer.\<close>

definition outs_ok :: "'t ip_table \<Rightarrow> ('g, 't) device \<Rightarrow> nat \<Rightarrow> socket_addr \<Rightarrow> dev_out list \<Rightarrow> bool" where
  "outs_ok T d r addr outs \<longleftrightarrow>
     (\<forall>out \<in> set outs. case out of OutUdp a _ \<Rightarrow> a = addr | OutTun packet \<Rightarrow> peer_owns T d r (ip_source packet))"

lemma outs_ok_carried:
  assumes "carried W d d'"
  shows "outs_ok T d' r addr outs = outs_ok T d r addr outs"
proof -
  have same: "peer_owns T d' r = peer_owns T d r"
    using assms by (simp add: fun_eq_iff peer_owns_def carried_def same_tables_def)
  show ?thesis unfolding outs_ok_def same ..
qed

lemma peer_in_ok: "device_ok W T d \<Longrightarrow> r \<in> refs d \<Longrightarrow> tunn_ok W (peer_tunnel (dv_store d r))"
  by (auto simp: device_ok_def peers_ok_def peer_ok_def refs_iff)

lemma carry_result_ok:
  assumes "world_ok W" "device_ok W T d" "r \<in> refs d" "well_sourced result"
  shows "\<exists>outs d'. carry_result W T k dst r addr result d = Some (outs, d') \<and> carried W d d' \<and> only_peer r d d' \<and>
    outs_ok T d r addr outs"
proof (cases result)
  case (TrWriteToNetwork packet)
  have "tunn_ok W (tunnel_at d r)" using peer_in_ok [OF assms(2,3)] by simp
  then obtain packets t where "flush_queue W k dst (tunnel_at d r) = Some (packets, t)" "tunn_ok W t"
    "\<forall>c. placed c (peer_tunnel (dv_store d r)) \<longrightarrow> placed c t"
    using flush_queue_returns [OF assms(1), of "tunnel_at d r" k dst] by auto
  then show ?thesis using TrWriteToNetwork by (auto simp: carry_result_def outs_ok_def intro!: carried_put)
qed (use assms(4) in \<open>auto simp: carry_result_def outs_ok_def well_sourced_def\<close>)

text \<open>A packet that a peer has authenticated.\<close>

lemma listener_accepted_ok:
  assumes "world_ok W" "device_ok W T d" "r \<in> refs d" "token_ok packet"
    "\<And>c. placed c (peer_tunnel (dv_store d r)) \<Longrightarrow> token_addressed (pl_index c) packet"
  shows "\<exists>outs d'. listener_accepted W T k dst from datagram r packet d = Some (outs, d') \<and> carried W d d' \<and>
    only_peer r d d' \<and> outs_ok T d r from outs"
proof -
  define auto_ini where "auto_ini = (im_protocol (cfg_imitation (dv_amnezia d)) = ImAuto \<and> is_auth_init packet)"
  have "hints_sound (dv_hints d)" using assms(2) by (simp add: device_ok_def)
  then obtain found hints where h: "(if auto_ini then hints_get (at_now k) from (dv_hints d) else Some (None, dv_hints d)) = Some (found, hints)"
    "hints_sound hints"
    using hints_get_sound [of "dv_hints d" "at_now k" "from"] by (cases auto_ini) auto
  define d1 where "d1 = d\<lparr> dv_hints := hints \<rparr>"
  define p where "p = (dv_store d1 r)\<lparr> peer_tunnel := tunnel_at d1 r \<rparr>"
  have d1: "carried W d d1" unfolding d1_def by (rule carried_fields(3)) (rule h(2))
  have s: "dv_store d1 = dv_store d" "refs d1 = refs d" by (simp_all add: d1_def refs_def)
  have t: "tunn_ok W (peer_tunnel p)" "placed c (peer_tunnel p) = placed c (peer_tunnel (dv_store d r))" for c
    using peer_in_ok [OF assms(2,3)] by (simp_all add: p_def s)
  from commit_anonymous_ok [OF t(1) assms(4), of k "from" datagram found dst] obtain result p' where
    c: "commit_anonymous W k packet from datagram found dst p = Some (result, p')" "well_sourced result"
    and p': "peer_index p' = peer_index p" "peer_psk p' = peer_psk p" "tunn_ok W (peer_tunnel p')" "peer_conn p' \<longrightarrow> peer_conn p"
      "\<forall>c. placed c (peer_tunnel p) \<longrightarrow> token_addressed (pl_index c) packet \<longrightarrow> placed c (peer_tunnel p')" by blast
  define d2 where "d2 = put_tunnel r (peer_tunnel p') (dv_upd_peer r (\<lambda>_. p') d1)"
  define d3 where "d3 = (if auto_ini \<and> imitation_protocol_of (peer_tunnel p') \<noteq> ImNone
    then d2\<lparr> dv_hints := hints_discard from (dv_hints d2) \<rparr> else d2)"
  have "carries_on W (dv_store d1 r) p'"
    using p' t assms(5) by (simp add: carries_on_def s) (simp add: p_def s)
  then have u: "carried W d1 (dv_upd_peer r (\<lambda>_. p') d1)" by (rule carried_upd) (use assms(3) s in simp)
  have "carried W (dv_upd_peer r (\<lambda>_. p') d1) d2"
    unfolding d2_def by (rule carried_put) (simp_all add: dv_upd_peer_def)
  then have d2: "carried W d d2" using carried_trans [OF carried_trans [OF d1 u]] by blast
  moreover have "carried W d2 d3" unfolding d3_def by (auto intro!: carried_fields(3) hints_discard_sound)
  ultimately have d3: "carried W d d3" by (rule carried_trans)
  have o2: "only_peer r d d2" "only_peer r d d3"
    by (simp_all add: d3_def d2_def d1_def only_peer_def put_tunnel_def dv_upd_peer_def)
  note own = outs_ok_carried [OF d3]
  have "device_ok W T d3" "r \<in> refs d3"
    using carried_ok [OF d3 assms(2)] d3 assms(3) by (simp_all add: carried_def same_tables_def refs_def)
  from carry_result_ok [OF assms(1) this c(2), of k dst "from"] obtain outs d4 where
    r: "carry_result W T k dst r from result d3 = Some (outs, d4)" "carried W d3 d4" "only_peer r d3 d4" "outs_ok T d r from outs"
    unfolding own by blast
  have "listener_accepted W T k dst from datagram r packet d =
      (if is_err result then Some ([], d2) else carry_result W T k dst r from result d3)"
    using h(1) c(1) unfolding listener_accepted_def auto_ini_def [symmetric]
    by (simp add: d1_def [symmetric] p_def s Let_def d2_def [symmetric] d3_def [symmetric] cong: if_cong)
  then show ?thesis
    using r d2 o2 carried_trans [OF d3 r(2)] only_peer_trans [OF o2(2) r(3)] by (cases "is_err result") (auto simp: outs_ok_def)
qed


lemma peer_named_cong:
  "dv_peers d' = dv_peers d \<Longrightarrow> dv_by_idx d' = dv_by_idx d \<Longrightarrow> peer_named W sk pk p d' = peer_named W sk pk p d"
  by (simp only: peer_named_def)

lemma peer_in_placed:
  assumes "device_ok W T d" "r \<in> refs d"
  shows "\<exists>c. placed c (peer_tunnel (dv_store d r))"
proof -
  obtain key where "(key, r) \<in> set (dv_peers d)" using assms(2) by (auto simp: refs_iff)
  then have "peer_ok W d key (dv_store d r)" using assms(1) by (simp add: device_ok_def peers_ok_def)
  then show ?thesis by (auto simp: peer_ok_def)
qed

lemma placed_index_unique: "placed c t \<Longrightarrow> placed c' t \<Longrightarrow> pl_index c = pl_index c'"
  by (simp add: placed_def hs_addressed_def)

lemma cookie_config_sound:
  assumes "hints_sound p"
  shows "\<exists>c p'. cookie_config now amnezia source datagram p = Some (c, p') \<and> hints_sound p'"
  using hints_get_sound [OF assms, of now source] assms by (auto simp: cookie_config_def Let_def)

lemma listener_cookie_ok:
  assumes "hints_sound (dv_hints d)" "dv_limiter d \<noteq> None"
  shows "\<exists>outs ws' d'. listener_cookie W k dst from datagram demand0 l ws d = Some (outs, ws', d') \<and> carried W d d' \<and>
    dv_store d' = dv_store d \<and> (\<forall>out \<in> set outs. \<exists>p. out = OutUdp from p)"
proof -
  obtain x g l' where f: "format_cookie_demand (w_crypto W) (w_rng W) (dv_obf d) (wk_os ws) demand0 (length dst) l = (x, g, l')"
    by (metis prod_cases3)
  have c1: "carried W d (d\<lparr> dv_limiter := Some l' \<rparr>)" by (rule carried_fields(2) [OF assms(2)])
  have c2: "carried W d (d\<lparr> dv_limiter := Some l', dv_hints := h \<rparr>)" if "hints_sound h" for h
    using assms that by (simp add: carried_def same_tables_def)
  show ?thesis
  proof (cases x)
    case (Inl e)
    then show ?thesis using f c1 by (simp add: listener_cookie_def)
  next
    case (Inr cookie)
    obtain c h where h: "cookie_config (at_now k) (dv_amnezia d) from datagram (dv_hints d) = Some (c, h)" "hints_sound h"
      using cookie_config_sound [OF assms(1)] by blast
    obtain out g' where "prepend_outbound_with_trailer (w_rng W) (w_cipher W) c (dv_obf d) (into_dst cookie dst)
        (length cookie) (Some (trailer_room_cookie_reply (length datagram))) (wk_junk ws) = Some (out, g')"
      using prepend_returns [of "w_rng W" "w_cipher W" c "dv_obf d" "into_dst cookie dst" "length cookie"
          "Some (trailer_room_cookie_reply (length datagram))" "wk_junk ws"] by (auto simp: returns_def)
    then show ?thesis using f Inr h(1) c1 c2 [OF h(2)]
      by (cases "cookie_verdict_for from (length datagram) (cookie_reply_len (dv_amnezia d) (length cookie))")
        (auto simp: listener_cookie_def Let_def split: sum.splits)
  qed
qed

lemma hints_classify_ok:
  assumes "ip_wf (sa_ip from)" "hints_sound p"
  shows "\<exists>ingress responder' g' p'. hints_classify R SC now datagram amnezia obf from responder g p = Some (ingress, responder', g', p') \<and>
    hints_sound p'"
proof -
  have "\<exists>r' g'. probe_classify R SC now datagram amnezia obf from responder g = Some r'" 
  proof (cases responder)
    case (Some r)
    show ?thesis
      by (rule reply_to_cases [OF assms(1), of R now datagram "im_protocol (cfg_imitation amnezia)" r g])
        (auto simp: probe_classify_def Let_def Some)
  qed (simp add: probe_classify_def Let_def)
  then obtain ingress responder' g' where "probe_classify R SC now datagram amnezia obf from responder g = Some (ingress, responder', g')"
    by (metis prod_cases3)
  then show ?thesis using hints_observe_sound [OF assms(2), of now "from" datagram] assms(2)
    by (auto simp: hints_classify_def)
qed

lemma listener_accepted_authenticated:
  assumes "world_ok W" "device_ok W T d" "authenticate_anonymous W k (length dst) sk pk p d = (Inr (r, a), d2)" "dv_limiter d \<noteq> None"
  shows "\<exists>outs d'. listener_accepted W T k dst from datagram r a (d2\<lparr> dv_limiter := Some l \<rparr>) = Some (outs, d') \<and> carried W d d' \<and>
    only_peer r d d' \<and> outs_ok T d r from outs \<and> r \<in> refs d \<and> peer_named W sk pk p d = Ok r \<and>
    (\<exists>t. tunn_authenticate W k (length dst) p (peer_tunnel (dv_store d r)) = (Inr a, t))"
proof -
  from assms(3) obtain t where t: "peer_named W sk pk p d = Ok r"
    "tunn_authenticate W k (length dst) p (peer_tunnel (dv_store d r)) = (Inr a, t)"
    "d2 = dv_upd_peer r (\<lambda>p. p\<lparr> peer_tunnel := t \<rparr>) d"
    by (rule authenticate_anonymous_accepted)
  define d3 where "d3 = d2\<lparr> dv_limiter := Some l \<rparr>"
  have r: "r \<in> refs d" by (rule peer_named_live [OF assms(2) t(1)])
  have ok: "tunn_ok W t" "token_ok a" "\<And>c. placed c (peer_tunnel (dv_store d r)) \<Longrightarrow> placed c t \<and> token_addressed (pl_index c) a"
    using authenticate_ok [OF peer_in_ok [OF assms(2) r]] authenticate_placed t(2) unfolding tunn_authenticate_def by metis+
  have "carried W d d2" unfolding t(3) by (rule carried_upd) (use ok r in \<open>auto simp: carries_on_def\<close>)
  moreover have "carried W d2 d3" unfolding d3_def by (rule carried_fields(2)) (simp add: t(3) dv_upd_peer_def assms(4))
  ultimately have c3: "carried W d d3" by (rule carried_trans)
  have st: "peer_tunnel (dv_store d3 r) = t" "refs d3 = refs d" by (simp_all add: d3_def t(3) dv_upd_peer_def refs_def)
  have o3: "only_peer r d d3" by (simp add: only_peer_def d3_def t(3) dv_upd_peer_def)
  obtain c0 where "placed c0 (peer_tunnel (dv_store d r))" using peer_in_placed [OF assms(2) r] by blast
  then have tok: "token_addressed (pl_index c) a" if "placed c t" for c
    using placed_index_unique [OF that] ok(3) by metis
  from listener_accepted_ok [OF assms(1) carried_ok [OF c3 assms(2)] _ ok(2), of r k dst "from" datagram] r st tok
  obtain outs d4 where la: "listener_accepted W T k dst from datagram r a d3 = Some (outs, d4)" "carried W d3 d4"
    "only_peer r d3 d4" "outs_ok T d3 r from outs" by auto
  then show ?thesis
    using carried_trans [OF c3 la(2)] only_peer_trans [OF o3 la(3)] outs_ok_carried [OF c3] r t(1,2) unfolding d3_def by auto
qed

text \<open>
  One datagram on the listener. Either no peer authenticates it, and no peer changes; or one does, and
  only that peer changes. What is sent goes back to where the datagram came from.
\<close>

definition authenticates :: "'g world \<Rightarrow> call \<Rightarrow> nat \<Rightarrow> ('g, 't) device \<Rightarrow> bytes \<Rightarrow> nat \<Rightarrow> bool" where
  "authenticates W k n d datagram r \<longleftrightarrow>
     (\<exists>sk pk cand m packet a t. dv_key_pair d = Some (sk, pk) \<and>
        cand \<in> set (candidates_iter (inbound_candidates (w_cipher W) (dv_amnezia d) (dv_obf d) datagram)) \<and>
        reading_of (w_cipher W) (dv_amnezia d) (dv_obf d) datagram cand = Some (m, packet) \<and>
        peer_named W sk pk packet d = Ok r \<and>
        tunn_authenticate W k n packet (peer_tunnel (dv_store d r)) = (Ok a, t))"

definition one_peer :: "'g world \<Rightarrow> 't ip_table \<Rightarrow> call \<Rightarrow> nat \<Rightarrow> socket_addr \<Rightarrow> bytes \<Rightarrow> dev_out list \<Rightarrow> ('g, 't) device
    \<Rightarrow> ('g, 't) device \<Rightarrow> bool" where
  "one_peer W T k n from datagram outs d d' \<longleftrightarrow>
     dv_store d' = dv_store d \<and> (\<forall>out \<in> set outs. \<exists>p. out = OutUdp from p) \<or>
     (\<exists>r \<in> refs d. authenticates W k n d datagram r \<and> only_peer r d d' \<and> outs_ok T d r from outs)"

lemma classify_candidates:
  assumes "hints_classify R SC now datagram amnezia obf from responder g p = Some (IngressWireguard candidates, x)"
  shows "candidates = inbound_candidates SC amnezia obf datagram"
  using assms by (auto simp: hints_classify_def probe_classify_def Let_def split: bind_splits option.splits if_splits prod.splits)

lemma listener_datagram_ok:
  assumes "world_ok W" "device_ok W T d" "ip_wf (sa_ip from)"
  shows "\<exists>outs ws' d'. listener_datagram W T k dst from datagram ws d = Some (outs, ws', d') \<and> carried W d d' \<and>
    one_peer W T k (length dst) from datagram outs d d'"
proof (cases "dv_key_pair d = None \<or> dv_limiter d = None")
  case True
  then show ?thesis by (auto simp: listener_datagram_def one_peer_def split: option.splits)
next
  case False
  then obtain sk pk l where kp: "dv_key_pair d = Some (sk, pk)" and l: "dv_limiter d = Some l"
    by (cases "dv_key_pair d"; cases "dv_limiter d") auto
  have hs: "hints_sound (dv_hints d)" using assms(2) by (simp add: device_ok_def)
  obtain ingress responder g hints where cl: "hints_classify (w_rng W) (w_cipher W) (at_now k) datagram (dv_amnezia d)
      (dv_obf d) from (dv_responder d) (wk_probe ws) (dv_hints d) = Some (ingress, responder, g, hints)" and hs': "hints_sound hints"
    using hints_classify_ok [OF assms(3) hs, of "w_rng W" "w_cipher W" "at_now k" datagram "dv_amnezia d" "dv_obf d"
        "dv_responder d" "wk_probe ws"] by blast
  define d1 where "d1 = d\<lparr> dv_responder := responder, dv_hints := hints \<rparr>"
  have c1: "carried W d d1" using hs' by (simp add: d1_def carried_def same_tables_def)
  have s1: "dv_store d1 = dv_store d" "dv_amnezia d1 = dv_amnezia d" "dv_obf d1 = dv_obf d" "dv_limiter d1 = dv_limiter d"
    "refs d1 = refs d" "dv_hints d1 = hints"
    by (simp_all add: d1_def refs_def)
  show ?thesis
  proof (cases ingress)
    case (IngressWireguard candidates)
    have cands: "candidates = inbound_candidates (w_cipher W) (dv_amnezia d) (dv_obf d) datagram"
      by (rule classify_candidates [OF cl [unfolded IngressWireguard]])
    obtain outcome l2 d2 where rc: "receive (w_crypto W) (w_cipher W) (gate_clock_of k) (dv_amnezia d) (dv_obf d)
        (Some (SrcEndpoint from)) candidates datagram (authenticate_anonymous W k (length dst) sk pk) l d1 = (outcome, l2, d2)"
      by (metis prod_cases3)
    note dec = listener_trial.receive_decides [OF rc]
    define d3 where "d3 = d2\<lparr> dv_limiter := Some l2 \<rparr>"
    have eq: "listener_datagram W T k dst from datagram ws d = (case outcome of
         Accepted (r, packet) \<Rightarrow> do { (outs, d) \<leftarrow> listener_accepted W T k dst from datagram r packet d3; Some (outs, ws\<lparr> wk_probe := g \<rparr>, d) }
       | InCookie demand0 \<Rightarrow> listener_cookie W k dst from datagram demand0 l2 (ws\<lparr> wk_probe := g \<rparr>) d3
       | Refused e hint_allowed \<Rightarrow> do {
           hints \<leftarrow> (if hint_allowed then observe_refused (at_now k) datagram (dv_amnezia d3) from (dv_hints d3) else Some (dv_hints d3));
           Some ([], ws\<lparr> wk_probe := g \<rparr>, d3\<lparr> dv_hints := hints \<rparr>) }
       | NotOurs \<Rightarrow> Some ([], ws\<lparr> wk_probe := g \<rparr>, d3))"
      using kp l cl IngressWireguard rc unfolding listener_datagram_def d3_def
      by (simp add: d1_def [symmetric] s1 Let_def)
    show ?thesis
    proof (cases outcome)
      case (Accepted x)
      obtain r a where x: "x = (r, a)" by fastforce
      from dec Accepted x obtain pre cand post m p where c: "candidates_iter candidates = pre @ cand # post"
        and p: "reading_of (w_cipher W) (dv_amnezia d) (dv_obf d) datagram cand = Some (m, p)"
        "authenticate_anonymous W k (length dst) sk pk p d1 = (Inr (r, a), d2)" by auto
      have cand: "cand \<in> set (candidates_iter candidates)" by (simp add: c)
      from listener_accepted_authenticated [OF assms(1) carried_ok [OF c1 assms(2)] p(2), of "from" datagram l2] l s1(4)
      obtain outs d4 t where la: "listener_accepted W T k dst from datagram r a d3 = Some (outs, d4)" "carried W d1 d4"
        "only_peer r d1 d4" "outs_ok T d1 r from outs" "r \<in> refs d1" "peer_named W sk pk p d1 = Ok r"
        "tunn_authenticate W k (length dst) p (peer_tunnel (dv_store d1 r)) = (Inr a, t)"
        unfolding d3_def by auto
      have "peer_named W sk pk p d = Ok r" using la(6) peer_named_cong [of d1 d W sk pk p] by (simp add: d1_def)
      then have "authenticates W k (length dst) d datagram r"
        unfolding authenticates_def using kp cand p(1) cands la(7) s1(1) by (intro exI conjI) auto
      then show ?thesis unfolding eq using Accepted x la(1,3,5) carried_trans [OF c1 la(2)] la(4) outs_ok_carried [OF c1] s1(1,5)
        by (auto simp: one_peer_def only_peer_def)
    next
      case (InCookie demand0)
      then have "d2 = d1" using dec by simp
      then have c3: "carried W d d3" and s3: "dv_store d3 = dv_store d" "hints_sound (dv_hints d3)" "dv_limiter d3 \<noteq> None"
        using c1 hs' l by (auto simp: d3_def d1_def carried_def same_tables_def)
      show ?thesis unfolding eq using InCookie listener_cookie_ok [OF s3(2,3), of W k dst "from" datagram demand0 l2 "ws\<lparr> wk_probe := g \<rparr>"]
          carried_trans [OF c3] s3(1) by (fastforce simp: one_peer_def)
    next
      case (Refused e hint_allowed)
      then have "d2 = d1" using dec by simp
      then have s3: "dv_store d3 = dv_store d" "hints_sound (dv_hints d3)" and c3: "hints_sound h \<Longrightarrow> carried W d (d3\<lparr> dv_hints := h \<rparr>)" for h
        using c1 hs' l by (auto simp: d3_def d1_def carried_def same_tables_def)
      have "\<exists>h. (if hint_allowed then observe_refused (at_now k) datagram (dv_amnezia d3) from (dv_hints d3) else Some (dv_hints d3)) =
          Some h \<and> hints_sound h"
        using hints_observe_sound [OF s3(2), of "at_now k" "from" datagram] s3(2) by (auto simp: observe_refused_def)
      then obtain h where "(if hint_allowed then observe_refused (at_now k) datagram (dv_amnezia d3) from (dv_hints d3)
          else Some (dv_hints d3)) = Some h" "hints_sound h" by blast
      then show ?thesis unfolding eq using Refused s3(1) c3 by (simp add: one_peer_def)
    next
      case NotOurs
      then have "d2 = d1" using dec by simp
      then show ?thesis unfolding eq using NotOurs c1 l by (simp add: one_peer_def d3_def s1 d1_def carried_def same_tables_def)
    qed
  qed (use kp l cl c1 s1 in \<open>auto simp: listener_datagram_def one_peer_def Let_def d1_def [symmetric]\<close>)
qed


section \<open>Connected sockets, the interface and the timers\<close>

lemma decapsulate_well_sourced:
  assumes "decapsulate_source W k src datagram dst budget t = Some (r, t')" "datagram \<noteq> []"
  shows "well_sourced r"
  using decapsulate_source_cases [OF assms(2), of W k src dst budget t]
proof cases
  case (2 a out l t1)
  have "well_sourced r1" if "answer_cookie W k s b demand0 dst t2 = Some (r1, t3)" for s b demand0 t2 r1 t3
    using that by (auto simp: answer_cookie_def Let_def case_prod_beta dest: write_well_sourced(3)
        split: sum.splits if_splits bind_splits tunn_result.splits)
  moreover have "carry_out W k src datagram dst budget out (t1\<lparr> tn_rate_limiter := l \<rparr>) = Some (r, t')"
    using 2(2) assms(1) by simp
  ultimately show ?thesis
    by (cases out) (auto simp: carry_out_def Let_def dest: commit_well_sourced)
qed (use assms in auto)

lemma receive_on_connection_ok:
  assumes "world_ok W" "tunn_ok W t"
  shows "\<exists>r t'. receive_on_connection W k from datagram dst t = Some (r, t') \<and> tunn_ok W t' \<and> well_sourced r \<and>
    (\<forall>c. placed c t \<longrightarrow> placed c t')"
proof (cases "datagram = []")
  case True
  then show ?thesis using assms(2) by (simp add: receive_on_connection_def)
next
  case False
  obtain r t' where d: "decapsulate_source W k (Some (SrcEndpoint from)) datagram dst budget_UNBOUNDED t = Some (r, t')"
    using returnsE [OF decapsulate_returns [OF assms]] by blast
  then show ?thesis
    using False decapsulate_source_ok [OF assms(2) d] decapsulate_well_sourced [OF d False] decapsulate_source_placed [OF _ d]
    by (simp add: receive_on_connection_def decapsulate_from_def)
qed

lemma conn_datagram_ok:
  assumes "world_ok W" "device_ok W T d"
  shows "\<exists>outs d'. conn_datagram W T k dst r lifetime endpoint datagram d = Some (outs, d') \<and> carried W d d' \<and>
    only_peer r d d' \<and> outs_ok T d r endpoint outs \<and> (\<not> is_current_connection lifetime endpoint (dv_store d r) \<longrightarrow> d' = d \<and> outs = [])"
proof (cases "is_current_connection lifetime endpoint (dv_store d r)")
  case False
  then show ?thesis by (simp add: conn_datagram_def outs_ok_def)
next
  case True
  then have "peer_conn (dv_store d r)" by (simp add: is_current_connection_def)
  then have r: "r \<in> refs d" using assms(2) by (simp add: device_ok_def tables_ok_def)
  have t: "tunn_ok W (tunnel_at d r)" using peer_in_ok [OF assms(2) r] by simp
  obtain result t' where rc: "receive_on_connection W k endpoint datagram dst (tunnel_at d r) = Some (result, t')"
    and t': "tunn_ok W t'" "well_sourced result" "\<And>c. placed c (peer_tunnel (dv_store d r)) \<Longrightarrow> placed c t'"
    using receive_on_connection_ok [OF assms(1) t, of k endpoint datagram dst] by auto
  have c: "carried W d (put_tunnel r t' d)" by (rule carried_put) (use t' in auto)
  have "refs (put_tunnel r t' d) = refs d" by (simp add: refs_def put_tunnel_def dv_upd_peer_def)
  from carry_result_ok [OF assms(1) carried_ok [OF c assms(2)] _ t'(2), of r k dst endpoint] r this
  obtain outs d' where "carry_result W T k dst r endpoint result (put_tunnel r t' d) = Some (outs, d')"
    "carried W (put_tunnel r t' d) d'" "only_peer r (put_tunnel r t' d) d'" "outs_ok T (put_tunnel r t' d) r endpoint outs" by auto
  then show ?thesis using True rc carried_trans [OF c] only_peer_trans [OF only_peer_rules(3)] outs_ok_carried [OF c]
    by (auto simp: conn_datagram_def)
qed

text \<open>
  A packet of the interface goes to the peer with the longest prefix that covers its destination, at
  that peer's endpoint, or nowhere.
\<close>

lemma iface_packet_ok:
  assumes "world_ok W" "table_laws T" "device_ok W T d"
  shows "\<exists>outs d'. iface_packet W T k dst src d = Some (outs, d') \<and> carried W d d' \<and>
    (case dst_address src of
       None \<Rightarrow> outs = [] \<and> d' = d
     | Some a \<Rightarrow> (case allowed_find T a (dv_by_ip d) of
         None \<Rightarrow> outs = [] \<and> d' = d
       | Some r \<Rightarrow> r \<in> refs d \<and> only_peer r d d' \<and>
           (\<forall>out \<in> set outs. \<exists>addr packet. out = OutUdp addr packet \<and> peer_addr (dv_store d r) = Some addr)))"
proof (cases "dst_address src")
  case None
  then show ?thesis by (simp add: iface_packet_def)
next
  case (Some a)
  show ?thesis
  proof (cases "allowed_find T a (dv_by_ip d)")
    case None
    then show ?thesis using Some by (simp add: iface_packet_def)
  next
    case r: (Some r)
    obtain net where "(net, r) \<in> entries T (dv_by_ip d)" using allowed_find_entry [OF assms(2) r] by blast
    then have m: "r \<in> refs d" using assms(3) by (force simp: device_ok_def tables_ok_def)
    have t: "tunn_ok W (tunnel_at d r)" using peer_in_ok [OF assms(3) m] by simp
    obtain result t' where e: "encapsulate_with_budget W k src dst budget_UNBOUNDED (tunnel_at d r) = Some (result, t')"
      using returnsE [OF encapsulate_returns [OF assms(1) t]] by blast
    have "carried W d (put_tunnel r t' d)"
      by (rule carried_put) (use encapsulate_with_budget_ok [OF t e] encapsulate_with_budget_placed [OF _ e] in auto)
    then show ?thesis using Some r e m
      by (auto simp: iface_packet_def encapsulate_def split: tunn_result.splits option.splits)
  qed
qed

lemma run_timers_ok:
  assumes "world_ok W" "device_ok W T d" "set rs \<subseteq> refs d"
  shows "\<exists>outs d'. run_timers W k dst rs d = Some (outs, d') \<and> carried W d d'"
  using assms(2,3)
proof (induction rs arbitrary: d)
  case (Cons r rs)
  show ?case
  proof (cases "peer_addr (dv_store d r)")
    case None
    then show ?thesis using Cons.IH [OF Cons.prems(1)] Cons.prems(2) by simp
  next
    case (Some addr)
    have t: "tunn_ok W (tunnel_at d r)" using peer_in_ok [OF Cons.prems(1)] Cons.prems(2) by simp
    obtain result t' where u: "update_timers_with_budget W k dst budget_UNBOUNDED (tunnel_at d r) = Some (result, t')"
      using returnsE [OF update_timers_returns [OF assms(1) t]] by blast
    define d1 where "d1 = put_tunnel r t' d"
    define d2 where "d2 = (if result = TrErr ConnectionExpired then dv_upd_peer r shutdown_endpoint d1 else d1)"
    have "carried W d d1" unfolding d1_def
      by (rule carried_put) (use update_timers_with_budget_ok [OF t u] update_timers_placed [OF _ u] in auto)
    moreover have "carried W d1 d2" unfolding d2_def
      by (auto intro!: carried_upd simp: shutdown_endpoint_def carries_on_def)
    ultimately have c: "carried W d d2" by (rule carried_trans)
    then have "set rs \<subseteq> refs d2" using Cons.prems(2) by (auto simp: carried_def same_tables_def refs_def)
    from Cons.IH [OF carried_ok [OF c Cons.prems(1)] this] obtain outs d' where
      "run_timers W k dst rs d2 = Some (outs, d')" "carried W d2 d'" by blast
    then show ?thesis using Some u carried_trans [OF c]
      by (auto simp: update_timers_def d1_def [symmetric] d2_def [symmetric])
  qed
qed simp

lemma device_timers_ok:
  assumes "world_ok W" "device_ok W T d"
  shows "\<exists>outs d'. device_timers W k dst d = Some (outs, d') \<and> carried W d d'"
  using run_timers_ok [OF assms, of "map snd (dv_peers d)"] by (simp add: device_timers_def refs_def)

lemma limiter_tick_carried: "carried W d (limiter_tick k d)"
  by (simp add: limiter_tick_def carried_def same_tables_def)

lemma upgrade_carried:
  "r \<in> refs d \<Longrightarrow> carried W d (dv_upd_peer r (\<lambda>p. snd (upgrade_connection use_conn os_failure registered token disabled p)) d)"
  by (rule carried_upd) (auto simp: upgrade_connection_def connect_endpoint_def suppress_upgrade_def commit_connection_lifetime_def
      carries_on_def Let_def split: option.splits connect_error.splits)


end
