(* ===== verification/Device_Machine.thy ===== *)
theory Device_Machine
  imports Device_Traffic
begin

text \<open>
  The device as a state machine: one value of \<open>device_op\<close> per control operation and per event handler,
  \<open>device_perform\<close> for what it does, and the step relation of all of them from the devices the constructor
  gives. The locale \<open>invariant_system\<close> of the prelude is interpreted on it; the properties of the device
  rest on that interpretation.
\<close>

section \<open>Operations\<close>

datatype 'g device_op =
    DevSetKey call limiter_seed bytes
  | DevSetObfuscation obfuscation_ranges amnezia_config
  | DevUpdatePeer call "'g tunn_seed" bytes bool bool "socket_addr option" "(ip_addr \<times> u8) list" "(u16 \<times> u16) option" "bytes option"
  | DevClearPeers
  | DevRefreshMtu "nat option"
  | DevListener call bytes socket_addr bytes "'g worker_rngs"
  | DevConnection call bytes nat nat socket_addr bytes
  | DevInterface call bytes bytes
  | DevTimers call bytes
  | DevLimiterTick call
  | DevUpgrade nat bool "int option option" bool nat bool

definition device_perform ::
  "'g world \<Rightarrow> 't ip_table \<Rightarrow> 'g device_op \<Rightarrow> ('g, 't) device \<Rightarrow> (dev_out list \<times> ('g, 't) device) option" where
  "device_perform W T op d =
     (case op of
        DevSetKey k ls sk \<Rightarrow> map_option (Pair []) (set_key W k ls sk d)
      | DevSetObfuscation obf amnezia \<Rightarrow> map_option (\<lambda>(_, d). ([], d)) (device_set_obfuscation W obf amnezia d)
      | DevUpdatePeer k se key remove replace_ips endpoint ips ka psk \<Rightarrow>
          map_option (\<lambda>(_, d). ([], d)) (update_peer W T k se key remove replace_ips endpoint ips ka psk d)
      | DevClearPeers \<Rightarrow> Some ([], clear_peers T d)
      | DevRefreshMtu n \<Rightarrow> map_option (Pair []) (refresh_mtu n d)
      | DevListener k dst from datagram ws \<Rightarrow>
          map_option (\<lambda>(outs, _, d). (outs, d)) (listener_datagram W T k dst from datagram ws d)
      | DevConnection k dst r lifetime endpoint datagram \<Rightarrow> conn_datagram W T k dst r lifetime endpoint datagram d
      | DevInterface k dst src \<Rightarrow> iface_packet W T k dst src d
      | DevTimers k dst \<Rightarrow> device_timers W k dst d
      | DevLimiterTick k \<Rightarrow> Some ([], limiter_tick k d)
      | DevUpgrade r use_conn os_failure registered token disabled \<Rightarrow>
          Some ([], dv_upd_peer r (\<lambda>p. snd (upgrade_connection use_conn os_failure registered token disabled p)) d))"

text \<open>
  What is owed to an operation: a configuration built by its constructors whose header protection has its
  nonce, as the configuration interface checks; an address of the right length; an upgrade of a peer the device has.
\<close>

fun device_op_ok :: "'g device_op \<Rightarrow> ('g, 't) device \<Rightarrow> bool" where
  "device_op_ok (DevSetObfuscation obf amnezia) d = (config_wf amnezia \<and> check_header_protection_nonce amnezia = Ok ())"
| "device_op_ok (DevListener k dst from datagram ws) d = ip_wf (sa_ip from)"
| "device_op_ok (DevUpgrade r use_conn os_failure registered token disabled) d = (r \<in> refs d)"
| "device_op_ok _ d = True"

fun is_event :: "'g device_op \<Rightarrow> bool" where
  "is_event (DevUpdatePeer k se key remove replace_ips endpoint ips ka psk) = remove"
| "is_event _ = True"

inductive device_init :: "'t ip_table \<Rightarrow> ('g, 't) device \<Rightarrow> bool" for T where
  started: "index_lfsr_default (R :: 'g rng) g = Some (l, g') \<Longrightarrow> config_wf amnezia \<Longrightarrow> \<not> peer_conn (blank :: 'g peer) \<Longrightarrow>
    device_init T (device_new blank T now software l obf amnezia rate mtu)"

inductive device_step :: "'g world \<Rightarrow> 't ip_table \<Rightarrow> ('g, 't) device \<Rightarrow> ('g, 't) device \<Rightarrow> bool" for W T where
  device_performed: "device_op_ok op d \<Longrightarrow> device_perform W T op d = Some (outs, d') \<Longrightarrow> device_step W T d d'"

inductive_cases device_initE: "device_init T d"
inductive_cases device_stepE: "device_step W T d d'"

lemma event_ok:
  assumes "world_ok W" "table_laws T" "device_ok W T d" "device_op_ok op d" "device_perform W T op d = Some (outs, d')"
  shows "device_ok W T d'"
proof -
  have c: "device_ok W T d'" if "carried W d d'" using carried_ok [OF that assms(3)] .
  show ?thesis
  proof (cases op)
    case (DevListener k dst a datagram ws)
    then show ?thesis using listener_datagram_ok [OF assms(1,3), of a k dst datagram ws] assms(4,5) c
      by (auto simp: device_perform_def)
  next
    case (DevConnection k dst r lifetime endpoint datagram)
    then show ?thesis using conn_datagram_ok [OF assms(1,3), of k dst r lifetime endpoint datagram] assms(5) c
      by (auto simp: device_perform_def)
  next
    case (DevInterface k dst src)
    then show ?thesis using iface_packet_ok [OF assms(1-3), of k dst src] assms(5) c by (auto simp: device_perform_def)
  next
    case (DevTimers k dst)
    then show ?thesis using device_timers_ok [OF assms(1,3), of k dst] assms(5) c by (auto simp: device_perform_def)
  next
    case (DevUpgrade r use_conn os_failure registered token disabled)
    then show ?thesis using upgrade_carried [of r d W use_conn os_failure registered token disabled] assms(4,5) c
      by (auto simp: device_perform_def)
  qed (use assms c limiter_tick_carried in \<open>auto simp: device_perform_def intro: set_key_ok device_set_obfuscation_ok update_peer_ok
      clear_peers_ok refresh_mtu_ok\<close>)
qed

interpretation device_system: invariant_system "\<lambda>d. world_ok W \<and> table_laws T \<and> device_init T d" "device_step W T"
  "\<lambda>d. world_ok W \<and> table_laws T \<and> device_ok W T d" for W T
  by unfold_locales (auto elim!: device_initE device_stepE intro: device_new_ok event_ok)

lemma reachable_device_ok:
  assumes "world_ok W" "table_laws T" "reachable (device_init T) (device_step W T) d"
  shows "device_ok W T d"
proof -
  have "reachable (\<lambda>d. world_ok W \<and> table_laws T \<and> device_init T d) (device_step W T) d"
    using assms(3) by (induction rule: reachable.induct) (use assms(1,2) in \<open>auto intro: reachable.intros\<close>)
  then show ?thesis using device_system.reachable_inv by blast
qed

text \<open>Everything but the creation of a peer returns: no event and no other control operation panics.\<close>

lemma event_returns:
  assumes "world_ok W" "table_laws T" "device_ok W T d" "device_op_ok op d" "is_event op"
  shows "\<exists>outs d'. device_perform W T op d = Some (outs, d')"
proof -
  have dist: "distinct (map snd (dv_peers d))" using assms(3) by (simp add: device_ok_def tables_ok_def)
  show ?thesis
  proof (cases op)
    case (DevSetKey k ls sk)
    have "returns (each_tunnel (tunn_set_static_private W k ls sk (x25519_public (w_crypto W) sk) l) (map snd (dv_peers d)) (dv_store d))" for l
      by (rule each_tunnel_returns [OF set_static_private_returns dist])
    then have "returns (set_key W k ls sk d)" unfolding set_key_def Let_def by (intro returning) (auto simp: returns_def)
    then show ?thesis using DevSetKey by (auto simp: device_perform_def returns_def)
  next
    case (DevSetObfuscation obf amnezia)
    have "returns (each_tunnel (set_obfuscation W obf amnezia) (map snd (dv_peers d)) (dv_store d))"
      by (rule each_tunnel_returns [OF _ dist])
        (use try_set_obfuscation_returns [OF assms(1)] assms(4) DevSetObfuscation in \<open>simp add: set_obfuscation_def returns_map\<close>)
    then show ?thesis using DevSetObfuscation by (auto simp: device_perform_def device_set_obfuscation_def Let_def returns_def)
  next
    case (DevRefreshMtu n)
    have "returns (each_tunnel (\<lambda>t. Some (set_content_padding_mtu mtu t)) (map snd (dv_peers d)) (dv_store d))" for mtu
      by (rule each_tunnel_returns [OF _ dist]) (simp add: returns_def)
    then have "returns (refresh_mtu n d)"
      unfolding refresh_mtu_def Let_def by (intro returning) (auto simp: returns_def)
    then show ?thesis using DevRefreshMtu by (auto simp: device_perform_def returns_def)
  next
    case (DevListener k dst a datagram ws)
    then show ?thesis using listener_datagram_ok [OF assms(1,3), of a k dst datagram ws] assms(4)
      by (auto simp: device_perform_def)
  next
    case (DevConnection k dst r lifetime endpoint datagram)
    then show ?thesis using conn_datagram_ok [OF assms(1,3), of k dst r lifetime endpoint datagram]
      by (auto simp: device_perform_def)
  next
    case (DevInterface k dst src)
    then show ?thesis using iface_packet_ok [OF assms(1-3), of k dst src] by (auto simp: device_perform_def)
  next
    case (DevTimers k dst)
    then show ?thesis using device_timers_ok [OF assms(1,3), of k dst] by (auto simp: device_perform_def)
  qed (use assms(5) in \<open>auto simp: device_perform_def update_peer_def\<close>)
qed

end
