(* ===== verification/Device_Properties.thy ===== *)
theory Device_Properties
  imports Device_Machine
begin

text \<open>
  The properties of the device: its tables agree in every reachable state, its peers are configured as it
  is and are found by the indices they give out, no event is left unfinished, and a datagram reaches one
  peer at most. A list of prefixes stands for the trie in the witnesses.
\<close>

section \<open>A table of prefixes\<close>

fun keep_bits :: "nat \<Rightarrow> bytes \<Rightarrow> bytes" where
  "keep_bits n [] = []"
| "keep_bits n (b # bs) = (if n \<ge> 8 then b # keep_bits (n - 8) bs else and b (not (mask (8 - n))) # replicate (length bs) 0)"

definition list_network :: "ip_addr \<Rightarrow> u8 \<Rightarrow> network option" where
  "list_network addr cidr =
     (case addr of
        IpV4 v \<Rightarrow> if cidr \<le> 32 then Some (IpV4 (keep_bits (unat cidr) v), cidr) else None
      | IpV6 v \<Rightarrow> if cidr \<le> 128 then Some (IpV6 (keep_bits (unat cidr) v), cidr) else None)"

fun list_longest :: "ip_addr \<Rightarrow> (network \<times> nat) list \<Rightarrow> (network \<times> nat) option" where
  "list_longest addr [] = None"
| "list_longest addr (e # es) =
     (if list_network addr (snd (fst e)) = Some (fst e) then
        (case list_longest addr es of
           Some e' \<Rightarrow> if snd (fst e) < snd (fst e') then Some e' else Some e
         | None \<Rightarrow> Some e)
      else list_longest addr es)"

definition list_table :: "(network \<times> nat) list ip_table" where
  "list_table = \<lparr> it_new = [], it_network = list_network, it_insert = (\<lambda>net v t. (net, v) # filter (\<lambda>e. fst e \<noteq> net) t),
     it_longest = list_longest, it_retain = (\<lambda>P. filter (\<lambda>e. P (fst e) (snd e))), it_iter = id \<rparr>"

lemma keep_bits_idem: "keep_bits n (keep_bits n bs) = keep_bits n bs"
  by (induction n bs rule: keep_bits.induct) (auto simp: and.assoc)

lemma list_network_idem:
  "list_network addr cidr = Some net \<Longrightarrow> snd net = cidr \<and> list_network (fst net) cidr = Some net"
  by (auto simp: list_network_def keep_bits_idem split: ip_addr.splits if_splits)

lemma list_longest_law:
  "case list_longest addr t of
     None \<Rightarrow> \<forall>e \<in> set t. list_network addr (snd (fst e)) \<noteq> Some (fst e)
   | Some e \<Rightarrow> e \<in> set t \<and> list_network addr (snd (fst e)) = Some (fst e) \<and>
       (\<forall>e' \<in> set t. list_network addr (snd (fst e')) = Some (fst e') \<longrightarrow> snd (fst e') \<le> snd (fst e))"
  by (induction t) (auto split: option.splits)

lemma list_table_laws: "table_laws list_table"
  unfolding table_laws_def
proof (intro conjI allI impI)
  fix addr t
  show "case it_longest list_table addr t of
      None \<Rightarrow> \<forall>e \<in> entries list_table t. \<not> covers list_table (fst e) addr
    | Some e \<Rightarrow> e \<in> entries list_table t \<and> covers list_table (fst e) addr \<and>
        (\<forall>e' \<in> entries list_table t. covers list_table (fst e') addr \<longrightarrow> snd (fst e') \<le> snd (fst e))"
    using list_longest_law [where addr = addr and t = t] by (auto simp: entries_def covers_def list_table_def split: option.splits)
qed (auto simp: list_table_def entries_def dest: list_network_idem)

section \<open>A sample device\<close>

definition one_rng :: "unit rng" where
  "one_rng = zero_rng\<lparr> next_u32 := (\<lambda>g. (1, g)) \<rparr>"

definition sample_device :: "(unit, (network \<times> nat) list) device" where
  "sample_device = device_new (peer_new sample_tunn 0 None None) list_table (at_nanos 0) []
     \<lparr> lf_initial = 1, lf_lfsr = 1, lf_mask = 1 \<rparr> obfuscation_default (config_new 0 0 0 0) None 1420"

definition sample_seed :: "unit tunn_seed" where
  "sample_seed = \<lparr> se_limiter = sample_limiter_seed, se_rng = Inr (), se_jitter = (), se_stamper = sample_stamper \<rparr>"

definition sample_net :: "ip_addr \<times> u8" where
  "sample_net = (IpV4 [10, 0, 0, 0], 8)"

lemma sample_device_init: "device_init list_table sample_device"
proof -
  have "random_index one_rng () = Some (1, ())" by (subst random_index.simps) (simp add: one_rng_def)
  then have "index_lfsr_default one_rng () = Some (\<lparr> lf_initial = 1, lf_lfsr = 1, lf_mask = 1 \<rparr>, ())"
    by (simp add: index_lfsr_default_def)
  then show ?thesis unfolding sample_device_def
    by (rule started [OF _ config_wf_new]) (simp add: peer_new_def)
qed

lemma mtu_unprotected: "\<not> header_protection_enabled ((config_new a b c d)\<lparr> content_padding_mtu := m \<rparr>)"
  using config_new_unprotected [of a b c d] by (simp add: header_protection_enabled_def)

lemma sample_peer_reachable:
  "\<exists>d. reachable (device_init list_table) (device_step sample_world list_table) d \<and>
     dv_peers d = [([2], 0)] \<and> dv_by_ip d = [(sample_net, 0)] \<and> dv_key_pair d = Some ([1], x25519_public sample_crypto [1]) \<and>
     peer_index (dv_store d 0) = 1 \<and> peer_addr (dv_store d 0) = None \<and> dv_amnezia d = (config_new 0 0 0 0)\<lparr> content_padding_mtu := 1420 \<rparr> \<and>
     (let t = peer_tunnel (dv_store d 0) in hs_state (tn_handshake t) = HsNone \<and> tn_pending t = None \<and> tn_packet_queue t = [] \<and>
        tn_sessions t = replicate 8 None \<and> tn_amnezia t = dv_amnezia d)"
proof -
  define pk where "pk = x25519_public (w_crypto sample_world) [1]"
  obtain d1 where 1: "set_key sample_world (sample_call 0) sample_limiter_seed [1] sample_device = Some d1"
    and d1: "dv_peers d1 = []" "dv_by_ip d1 = []" "dv_key_pair d1 = Some ([1], pk)" "dv_fresh d1 = 0"
      "dv_next_index d1 = \<lparr> lf_initial = 1, lf_lfsr = 1, lf_mask = 1 \<rparr>"
      "dv_amnezia d1 = (config_new 0 0 0 0)\<lparr> content_padding_mtu := 1420 \<rparr>"
    by (simp add: set_key_def Let_def sample_device_def device_new_def pk_def list_table_def)
  have r1: "reachable (device_init list_table) (device_step sample_world list_table) d1"
  proof (rule reachable_step [OF reachable_init [of "device_init list_table", OF sample_device_init]])
    show "device_step sample_world list_table sample_device d1"
      by (rule device_performed [of "DevSetKey (sample_call 0) sample_limiter_seed [1]" _ _ _ "[]"])
        (use 1 in \<open>simp_all add: device_perform_def\<close>)
  qed
  have next1: "lfsr_next (dv_next_index d1) = Some (1, \<lparr> lf_initial = 1, lf_lfsr = LFSR_POLY, lf_mask = 1 \<rparr>)"
    by (simp add: d1 lfsr_next_def Let_def lfsr_shift_def LFSR_POLY_def)
  obtain t where t: "new_with_obfuscation sample_world (sample_call 0) sample_limiter_seed (Inr ()) () sample_stamper [1] [2]
      None None 1 (dv_limiter d1) (dv_obf d1) (dv_amnezia d1) = Inr t"
    and tf: "hs_state (tn_handshake t) = HsNone" "tn_pending t = None" "tn_packet_queue t = []" "tn_sessions t = replicate 8 None"
      "tn_amnezia t = dv_amnezia d1"
    by (simp add: new_with_obfuscation_def handshake_new_def check_header_protection_nonce_def d1 mtu_unprotected Let_def N_SESSIONS_def)
  let ?u = "update_peer sample_world list_table (sample_call 0) sample_seed [2] False False None [sample_net] None None d1"
  have "insert_prefixes list_table 0 [sample_net] [] = Some [(sample_net, 0)]"
    by (simp add: sample_net_def allowed_insert_def list_table_def list_network_def)
  then obtain d2 where u: "?u = Some (Ok (), d2)"
    and d2: "dv_peers d2 = [([2], 0)]" "dv_by_ip d2 = [(sample_net, 0)]" "dv_key_pair d2 = Some ([1], pk)"
      "peer_index (dv_store d2 0) = 1" "peer_addr (dv_store d2 0) = None" "dv_amnezia d2 = dv_amnezia d1"
      "peer_tunnel (dv_store d2 0) = t"
    using next1 t by (simp add: update_peer_def d1 sample_seed_def option_filter_def peer_new_def)
  have "reachable (device_init list_table) (device_step sample_world list_table) d2"
  proof (rule reachable_step [OF r1])
    show "device_step sample_world list_table d1 d2"
      by (rule device_performed [of "DevUpdatePeer (sample_call 0) sample_seed [2] False False None [sample_net] None None" _ _ _ "[]"])
        (use u in \<open>simp_all add: device_perform_def\<close>)
  qed
  then show ?thesis using d2 d1(6) tf by (auto simp: pk_def sample_world_def Let_def)
qed

text \<open>The sample peer after a packet for it, which starts a handshake.\<close>

definition sample_packet :: bytes where
  "sample_packet = [0x45, 0, 0, 20, 0, 0, 0, 0, 0, 0, 0, 0, 0, 0, 0, 0, 10, 0, 0, 5]"

lemma sample_packet_routed:
  "dst_address sample_packet = Some (IpV4 [10, 0, 0, 5])" "allowed_find list_table (IpV4 [10, 0, 0, 5]) [(sample_net, 0)] = Some 0"
  by code_simp+

lemma sample_initiation_reachable:
  "\<exists>d s. reachable (device_init list_table) (device_step sample_world list_table) d \<and> dv_peers d = [([2], 0)] \<and>
     hs_state (tn_handshake (peer_tunnel (dv_store d 0))) = HsInitSent s"
proof -
  obtain d where r: "reachable (device_init list_table) (device_step sample_world list_table) d"
    and d: "dv_peers d = [([2], 0)]" "dv_by_ip d = [(sample_net, 0)]"
      "dv_amnezia d = (config_new 0 0 0 0)\<lparr> content_padding_mtu := 1420 \<rparr>"
    and t: "let t = peer_tunnel (dv_store d 0) in hs_state (tn_handshake t) = HsNone \<and> tn_pending t = None \<and>
        tn_packet_queue t = [] \<and> tn_sessions t = replicate 8 None \<and> tn_amnezia t = dv_amnezia d"
    using sample_peer_reachable by blast
  let ?dst = "replicate 200 0 :: bytes" and ?k = "sample_call 7"
  define t0 where "t0 = tunnel_at d 0"
  have t0: "hs_state (tn_handshake t0) = HsNone" "tn_pending t0 = None" "tn_packet_queue t0 = []"
    "tn_sessions t0 = replicate 8 None" "tn_amnezia t0 = dv_amnezia d"
    using t by (auto simp: t0_def tunnel_at_def Let_def split: option.splits)
  have ok: "tunn_ok sample_world t0"
    using peer_in_ok [OF reachable_device_ok [OF sample_world_ok list_table_laws r], of 0] d(1) by (simp add: t0_def refs_def)
  obtain res t1 where n: "format_handshake_initiation_now_with_budget sample_world ?k ?dst False False budget_UNBOUNDED t0 = Some (res, t1)"
    using returnsE [OF initiation_now_returns] by blast
  have p: "\<not> is_in_progress (tn_handshake t0)" using t0 by (simp add: is_in_progress_def)
  have a: "admit (Some (initiation_wire_floor t0)) (length ?dst) (control_for budget_UNBOUNDED OtherControl) = Inr 200"
    by (simp add: admit_def initiation_wire_floor_def t0 d handshake_init_junk_size_def outbound_junk_size_def config_new_def exceeds_def
        budget_UNBOUNDED_def control_for_def HANDSHAKE_INIT_SZ_def budget_ceiling_def)
  have "awaiting t1" by (rule initiation_awaits(1) [OF p a n])
  have f: "format_handshake_initiation_with_budget sample_world ?k ?dst False budget_UNBOUNDED t0 = Some (res, t1)"
    using n by (simp add: format_handshake_initiation_with_budget_def t0 d is_in_progress_def hs_is_expired_def
        emits_pre_handshake_def config_new_def junk_is_enabled_def pre_handshake_junk_default_def has_imitation_sequence_def
        imitation_default_def)
  have "\<not> has_current_session t0" by (simp add: has_current_session_def t0 selected_slot_def N_SESSIONS_def)
  then have "\<exists>res2 t2. encapsulate sample_world ?k sample_packet ?dst t0 = Some (res2, t2) \<and>
      hs_state (tn_handshake t2) = hs_state (tn_handshake t1)"
    using f by (auto simp: encapsulate_def encapsulate_with_budget_def admit_without_session_def queue_has_room_def t0
        MAX_QUEUE_DEPTH_def queue_packet_def note_event_def)
  then obtain res2 t2 where e: "encapsulate sample_world ?k sample_packet ?dst t0 = Some (res2, t2)"
    and "hs_state (tn_handshake t2) = hs_state (tn_handshake t1)" by blast
  with \<open>awaiting t1\<close> obtain s where s: "hs_state (tn_handshake t2) = HsInitSent s"
    by (auto simp: awaiting_def hs_timer_def split: handshake_state.splits)
  have i: "iface_packet sample_world list_table ?k ?dst sample_packet d = Some (outs, put_tunnel 0 t2 d)"
    if "outs = (case (res2, peer_addr (dv_store d 0)) of (TrWriteToNetwork packet, Some addr) \<Rightarrow> [OutUdp addr packet] | _ \<Rightarrow> [])" for outs
    using e that by (simp add: iface_packet_def sample_packet_routed d t0_def)
  have "device_step sample_world list_table d (put_tunnel 0 t2 d)"
    by (rule device_performed [of "DevInterface ?k ?dst sample_packet"]) (use i in \<open>simp_all add: device_perform_def\<close>)
  then have "reachable (device_init list_table) (device_step sample_world list_table) (put_tunnel 0 t2 d)"
    by (rule reachable_step [OF r])
  then show ?thesis using s d(1) by (intro exI [of _ "put_tunnel 0 t2 d"]) (simp add: put_tunnel_def dv_upd_peer_def)
qed

section \<open>The tables\<close>

text \<open>
  C11. In every state a device can reach, the three tables agree. Two keys never name the same peer. The
  table of indices finds a peer by an index exactly when the peer is in the device and has that index,
  so no two peers share one. A prefix belongs to one peer, and every address that is routed is routed
  to a peer of the device. A peer that was removed has no connected socket left.
\<close>

theorem device_tables_agree:
  assumes "world_ok W" "table_laws T" "reachable (device_init T) (device_step W T) d"
  shows "(\<forall>key key' r. map_of (dv_peers d) key = Some r \<and> map_of (dv_peers d) key' = Some r \<longrightarrow> key = key') \<and>
    (\<forall>i r. dv_by_idx d i = Some r \<longleftrightarrow> (\<exists>key. map_of (dv_peers d) key = Some r) \<and> peer_index (dv_store d r) = i) \<and>
    (\<forall>net r r'. (net, r) \<in> entries T (dv_by_ip d) \<and> (net, r') \<in> entries T (dv_by_ip d) \<longrightarrow> r = r') \<and>
    (\<forall>addr r. allowed_find T addr (dv_by_ip d) = Some r \<longrightarrow> (\<exists>key. map_of (dv_peers d) key = Some r)) \<and>
    (\<forall>r. peer_conn (dv_store d r) \<longrightarrow> (\<exists>key. map_of (dv_peers d) key = Some r))"
proof -
  have ok: "tables_ok T d" using reachable_device_ok [OF assms] by (simp add: device_ok_def)
  have dist: "distinct (map fst (dv_peers d))" "inj_on snd (set (dv_peers d))"
    using ok by (simp_all add: tables_ok_def distinct_map)
  have refs: "r \<in> refs d \<longleftrightarrow> (\<exists>key. map_of (dv_peers d) key = Some r)" for r
    using dist(1) by (auto simp: refs_iff dest: map_of_SomeD)
  have keys: "key = key'" if "map_of (dv_peers d) key = Some r" "map_of (dv_peers d) key' = Some r" for key key' r
    using inj_onD [OF dist(2), of "(key, r)" "(key', r)"] that by (simp add: map_of_SomeD)
  have routed: "\<exists>key. map_of (dv_peers d) key = Some r" if "allowed_find T addr (dv_by_ip d) = Some r" for addr r
  proof -
    note found = that
    obtain net where "(net, r) \<in> entries T (dv_by_ip d)" using allowed_find_entry [OF assms(2) found] by blast
    then have "r \<in> refs d" using ok by (force simp: tables_ok_def)
    then show ?thesis using refs by simp
  qed
  have idx: "dv_by_idx d i = Some r \<longleftrightarrow> (\<exists>key. map_of (dv_peers d) key = Some r) \<and> peer_index (dv_store d r) = i" for i r
    using ok by (simp add: tables_ok_def refs)
  have sv: "single_valued (entries T (dv_by_ip d))" using ok by (simp add: tables_ok_def entries_ok_def)
  have conns: "peer_conn (dv_store d r) \<Longrightarrow> \<exists>key. map_of (dv_peers d) key = Some r" for r
    using ok unfolding tables_ok_def refs by blast
  show ?thesis
  proof (intro conjI)
    show "\<forall>net r r'. (net, r) \<in> entries T (dv_by_ip d) \<and> (net, r') \<in> entries T (dv_by_ip d) \<longrightarrow> r = r'"
      using single_valuedD [OF sv] by blast
  qed (use keys idx routed conns in blast)+
qed

theorem device_tables_agree_witness:
  "\<exists>d. reachable (device_init list_table) (device_step sample_world list_table) d \<and> map_of (dv_peers d) [2] = Some 0 \<and>
     dv_by_idx d 1 = Some 0"
proof -
  obtain d where r: "reachable (device_init list_table) (device_step sample_world list_table) d"
    and d: "dv_peers d = [([2], 0)]" "peer_index (dv_store d 0) = 1"
    using sample_peer_reachable by blast
  have k: "map_of (dv_peers d) [2] = Some 0" by (simp add: d)
  have "dv_by_idx d 1 = Some 0" using device_tables_agree [OF sample_world_ok list_table_laws r] k d(2) by blast
  then show ?thesis using r k by blast
qed

section \<open>The peers\<close>

text \<open>
  C15. Every peer of a reachable device frames as the device parses: its tunnel has the device's AmneziaWG
  configuration and header ranges, however both were reconfigured. It has the device's key pair and the
  public key under which the device knows the peer, with the secrets derived from them, and the
  preshared key the device reports.
\<close>

theorem peers_configured_as_device:
  assumes "world_ok W" "table_laws T" "reachable (device_init T) (device_step W T) d"
    and "map_of (dv_peers d) key = Some r"
  shows "\<exists>sk. dv_key_pair d = Some (sk, x25519_public (w_crypto W) sk) \<and>
    tn_amnezia (peer_tunnel (dv_store d r)) = dv_amnezia d \<and>
    hs_obf (tn_handshake (peer_tunnel (dv_store d r))) = dv_obf d \<and>
    hs_params (tn_handshake (peer_tunnel (dv_store d r))) =
      noise_params_new (w_crypto W) sk (x25519_public (w_crypto W) sk) key (peer_psk (dv_store d r))"
proof -
  have ok: "peers_ok W d" using reachable_device_ok [OF assms(1-3)] by (simp add: device_ok_def)
  then have "peer_ok W d key (dv_store d r)" using map_of_SomeD [OF assms(4)] by (simp add: peers_ok_def)
  then obtain sk pk where "dv_key_pair d = Some (sk, pk)" "placed (place_of W d (sk, pk) key (dv_store d r)) (peer_tunnel (dv_store d r))"
    by (auto simp: peer_ok_def)
  then show ?thesis using ok by (auto simp: peers_ok_def placed_def place_of_def)
qed

theorem peers_configured_as_device_witness:
  "\<exists>d. reachable (device_init list_table) (device_step sample_world list_table) d \<and> map_of (dv_peers d) [2] = Some 0 \<and>
     content_padding_mtu (tn_amnezia (peer_tunnel (dv_store d 0))) = 1420"
proof -
  obtain d where r: "reachable (device_init list_table) (device_step sample_world list_table) d"
    and d: "dv_peers d = [([2], 0)]" "dv_amnezia d = (config_new 0 0 0 0)\<lparr> content_padding_mtu := 1420 \<rparr>"
    using sample_peer_reachable by blast
  have k: "map_of (dv_peers d) [2] = Some 0" by (simp add: d)
  show ?thesis using peers_configured_as_device [OF sample_world_ok list_table_laws r k] r k d(2) by auto
qed

text \<open>
  C14. An index leads back to the peer that gave it out: in every reachable device, looking up the upper
  24 bits of the index of a stored session, of an initiation in flight or of the message a cookie reply
  may answer finds the peer that has it, whatever handshakes have come and gone.
\<close>

theorem indices_lead_back:
  assumes "world_ok W" "table_laws T" "reachable (device_init T) (device_step W T) d"
    and "map_of (dv_peers d) key = Some r" "t = peer_tunnel (dv_store d r)"
  shows "(\<forall>s. Some s \<in> set (tn_sessions t) \<longrightarrow> dv_by_idx d (drop_bit 8 (receiving_index s)) = Some r) \<and>
    (\<forall>s. hs_state (tn_handshake t) = HsInitSent s \<or> hs_previous (tn_handshake t) = HsInitSent s \<longrightarrow>
       dv_by_idx d (drop_bit 8 (is_local_index s)) = Some r) \<and>
    (ck_last_mac1 (hs_cookies (tn_handshake t)) \<noteq> None \<longrightarrow>
       dv_by_idx d (drop_bit 8 (ck_index (hs_cookies (tn_handshake t)))) = Some r)"
proof -
  have ok: "tables_ok T d" "peers_ok W d" using reachable_device_ok [OF assms(1-3)] by (simp_all add: device_ok_def)
  have m: "(key, r) \<in> set (dv_peers d)" using assms(4) by (rule map_of_SomeD)
  then have "peer_ok W d key (dv_store d r)" using ok(2) by (simp add: peers_ok_def)
  then obtain pair where "placed (place_of W d pair key (dv_store d r)) t" using assms(5) by (auto simp: peer_ok_def)
  then have a: "hs_addressed (peer_index (dv_store d r)) (tn_handshake t)"
    "sessions_addressed (peer_index (dv_store d r)) (tn_sessions t)"
    by (simp_all add: placed_def place_of_def)
  have "dv_by_idx d (peer_index (dv_store d r)) = Some r" using ok(1) m by (auto simp: tables_ok_def refs_iff)
  then show ?thesis using a
    by (auto simp: hs_addressed_def sessions_addressed_def session_addressed_def)
qed

theorem indices_lead_back_witness:
  "\<exists>d s. reachable (device_init list_table) (device_step sample_world list_table) d \<and> map_of (dv_peers d) [2] = Some 0 \<and>
     hs_state (tn_handshake (peer_tunnel (dv_store d 0))) = HsInitSent s \<and> dv_by_idx d (drop_bit 8 (is_local_index s)) = Some 0"
proof -
  obtain d s where d: "reachable (device_init list_table) (device_step sample_world list_table) d" "dv_peers d = [([2], 0)]"
    "hs_state (tn_handshake (peer_tunnel (dv_store d 0))) = HsInitSent s"
    using sample_initiation_reachable by blast
  have k: "map_of (dv_peers d) [2] = Some 0" by (simp add: d)
  show ?thesis using indices_lead_back [OF sample_world_ok list_table_laws d(1) k refl] d k by blast
qed


section \<open>Traffic\<close>



text \<open>
  C12. A datagram on the shared listener reaches one peer at most. If none of its readings is authenticated
  by the peer it names, no peer of the device changes and nothing is written to the interface. If one is,
  only that peer changes, and a packet goes to the interface only when the longest prefix that covers its own
  source address belongs to that peer. What is sent to the network goes back to the sender of the datagram.
\<close>

theorem datagram_reaches_one_peer:
  assumes "world_ok W" "table_laws T" "reachable (device_init T) (device_step W T) d" "ip_wf (sa_ip from)"
    and "listener_datagram W T k dst from datagram ws d = Some (outs, ws', d')"
  shows "(\<forall>addr packet. OutUdp addr packet \<in> set outs \<longrightarrow> addr = from) \<and>
    (dv_store d' = dv_store d \<and> (\<forall>packet. OutTun packet \<notin> set outs) \<or>
     (\<exists>key r. map_of (dv_peers d) key = Some r \<and> authenticates W k (length dst) d datagram r \<and>
        (\<forall>r'. r' \<noteq> r \<longrightarrow> dv_store d' r' = dv_store d r') \<and>
        (\<forall>packet. OutTun packet \<in> set outs \<longrightarrow> allowed_find T (ip_source packet) (dv_by_ip d) = Some r)))"
proof -
  have ok: "device_ok W T d" by (rule reachable_device_ok [OF assms(1-3)])
  then have dist: "distinct (map fst (dv_peers d))" by (simp add: device_ok_def tables_ok_def)
  have "one_peer W T k (length dst) from datagram outs d d'"
    using listener_datagram_ok [OF assms(1) ok assms(4), of k dst datagram ws] assms(5) by auto
  then show ?thesis
    unfolding one_peer_def
  proof (elim disjE bexE conjE)
    fix r
    assume r: "r \<in> refs d" "authenticates W k (length dst) d datagram r" "only_peer r d d'" "outs_ok T d r from outs"
    have o: "addr = from" if "OutUdp addr packet \<in> set outs" for addr packet
      using bspec [OF r(4) [unfolded outs_ok_def] that] by simp
    have p: "allowed_find T (ip_source packet) (dv_by_ip d) = Some r" if "OutTun packet \<in> set outs" for packet
      using bspec [OF r(4) [unfolded outs_ok_def] that] by (simp add: peer_owns_def index_owns_def)
    obtain key where "map_of (dv_peers d) key = Some r" using r(1) dist by (auto simp: refs_iff)
    then show ?thesis using r(2,3) o p unfolding only_peer_def by blast
  qed auto
qed

theorem datagram_reaches_one_peer_witness:
  "\<exists>d outs ws' d'. reachable (device_init list_table) (device_step sample_world list_table) d \<and> dv_peers d = [([2], 0)] \<and>
     listener_datagram sample_world list_table (sample_call 7) (replicate 200 0) \<lparr> sa_ip = IpV4 [192, 0, 2, 1], sa_port = 5 \<rparr>
       (replicate 32 4) \<lparr> wk_probe = (), wk_junk = (), wk_os = () \<rparr> d = Some (outs, ws', d') \<and>
     (\<forall>addr packet. OutUdp addr packet \<in> set outs \<longrightarrow> addr = \<lparr> sa_ip = IpV4 [192, 0, 2, 1], sa_port = 5 \<rparr>)"
proof -
  let ?from = "\<lparr> sa_ip = IpV4 [192, 0, 2, 1], sa_port = 5 \<rparr>" and ?ws = "\<lparr> wk_probe = (), wk_junk = (), wk_os = () \<rparr>"
  obtain d where r: "reachable (device_init list_table) (device_step sample_world list_table) d" and d: "dv_peers d = [([2], 0)]"
    using sample_peer_reachable by blast
  have f: "ip_wf (sa_ip ?from)" by (simp add: ip_wf_def)
  obtain outs ws' d' where l: "listener_datagram sample_world list_table (sample_call 7) (replicate 200 0) ?from (replicate 32 4) ?ws d =
      Some (outs, ws', d')"
    using listener_datagram_ok [OF sample_world_ok reachable_device_ok [OF sample_world_ok list_table_laws r] f] by blast
  show ?thesis using datagram_reaches_one_peer [OF sample_world_ok list_table_laws r f l] r d l by blast
qed


section \<open>Routing\<close>

text \<open>
  C16. Giving prefixes to a peer that exists never fails, and assigns them exactly: afterwards the prefixes
  of the request belong to the peer, taken from whichever peer had them; the peer keeps its other prefixes
  unless they are being replaced; and every other prefix of every other peer stays where it was.
\<close>

theorem prefixes_move_to_peer:
  assumes "world_ok W" "table_laws T" "reachable (device_init T) (device_step W T) d"
    and "map_of (dv_peers d) key = Some r"
    and "list_all2 (\<lambda>(addr, cidr) net. it_network T addr cidr = Some net) ips nets"
  shows "\<exists>d'. update_peer W T k se key False replace_ips endpoint ips ka psk d = Some (Ok (), d') \<and>
    entries T (dv_by_ip d') = {(net, r) | net. net \<in> set nets} \<union>
      {e \<in> entries T (dv_by_ip d). fst e \<notin> set nets \<and> (snd e = r \<longrightarrow> \<not> replace_ips)}"
proof -
  have "entries_ok T (dv_by_ip d)" using reachable_device_ok [OF assms(1-3)] by (simp add: device_ok_def tables_ok_def)
  then obtain d' where "merge_peer W T r replace_ips endpoint ips ka psk d = Some d'"
    and e: "entries T (dv_by_ip d') = {(net, r) | net. net \<in> set nets} \<union>
      {e \<in> entries T (dv_by_ip d). fst e \<notin> set nets \<and> (snd e = r \<longrightarrow> \<not> replace_ips)}"
    using merge_peer_assigns [OF assms(2) _ assms(5), of d W r replace_ips endpoint ka psk] by blast
  then have "update_peer W T k se key False replace_ips endpoint ips ka psk d = Some (Ok (), d')"
    using assms(4) by (simp add: update_peer_def)
  then show ?thesis using e by blast
qed

theorem prefixes_move_to_peer_witness:
  "\<exists>d d'. reachable (device_init list_table) (device_step sample_world list_table) d \<and>
     entries list_table (dv_by_ip d) = {(sample_net, 0)} \<and>
     update_peer sample_world list_table (sample_call 0) sample_seed [2] False True None [(IpV4 [10, 1, 2, 3], 16)] None None d = Some (Ok (), d') \<and>
     entries list_table (dv_by_ip d') = {((IpV4 [10, 1, 0, 0], 16), 0)}"
proof -
  obtain d where r: "reachable (device_init list_table) (device_step sample_world list_table) d"
    and d: "dv_peers d = [([2], 0)]" "dv_by_ip d = [(sample_net, 0)]"
    using sample_peer_reachable by blast
  have k: "map_of (dv_peers d) [2] = Some 0" by (simp add: d)
  have "it_network list_table (IpV4 [10, 1, 2, 3]) 16 = Some (IpV4 [10, 1, 0, 0], 16)" by code_simp
  then have n: "list_all2 (\<lambda>(addr, cidr) net. it_network list_table addr cidr = Some net) [(IpV4 [10, 1, 2, 3], 16)] [(IpV4 [10, 1, 0, 0], 16)]"
    by simp
  have e: "entries list_table (dv_by_ip d) = {(sample_net, 0)}" by (simp add: d entries_def list_table_def)
  obtain d' where "update_peer sample_world list_table (sample_call 0) sample_seed [2] False True None [(IpV4 [10, 1, 2, 3], 16)] None None d =
      Some (Ok (), d')"
    "entries list_table (dv_by_ip d') = {(net, 0) | net. net \<in> set [(IpV4 [10, 1, 0, 0], 16)]} \<union>
      {e \<in> {(sample_net, 0)}. fst e \<notin> set [(IpV4 [10, 1, 0, 0], 16)] \<and> (snd e = 0 \<longrightarrow> \<not> True)}"
    using prefixes_move_to_peer [OF sample_world_ok list_table_laws r k n, of "sample_call 0" sample_seed True None None None]
    unfolding e by blast
  moreover have "{(net, 0 :: nat) | net. net \<in> set [(IpV4 [10, 1, 0, 0], 16)]} \<union>
      {e \<in> {(sample_net, 0)}. fst e \<notin> set [(IpV4 [10, 1, 0, 0], 16)] \<and> (snd e = 0 \<longrightarrow> \<not> True)} = {((IpV4 [10, 1, 0, 0], 16), 0)}"
    by auto
  ultimately show ?thesis using r e by (intro exI [of _ d] exI [of _ d']) simp
qed



end
