(* ===== verification/Spec2Isabelle.thy ===== *)
theory Spec2Isabelle
  imports Device_Properties
begin

text \<open>
  A verification library for the userspace WireGuard and AmneziaWG tunnel of this repository
  (\<open>src/boringtun/src\<close>). A \<open>Tunn\<close> turns IP packets into datagrams for one peer and back. It runs the
  Noise handshake, keeps up to eight transport sessions, defends itself against floods with MAC1 and
  cookies, and, in its AmneziaWG form, hides the packets: random message tags, prefixes and trailers of
  invented bytes, masked headers, and bursts of datagrams of other protocols before a handshake. A \<open>Device\<close>
  holds many such tunnels, one per peer, finds the peer of a packet by its destination address and of a
  datagram by its index or its key, and answers probes of strangers as the imitated service would.

  \<^bold>\<open>The theories, in the order they build on each other.\<close>

  \<^item> \<open>Prelude\<close>: the machine types (words of their width; \<open>usize\<close> is \<open>nat\<close>), byte strings, results
    (a sum type, \<open>Ok\<close> and \<open>Err\<close>), little and big endian integers, the interface \<open>byte_codec\<close>.
  \<^item> \<open>Wire\<close> (\<open>noise/errors.rs\<close>, the packet types and \<open>parse_incoming_packet\<close> of \<open>noise/mod.rs\<close>,
    \<open>ObfuscationRanges\<close> of \<open>noise/handshake.rs\<close>): the four messages and their tag ranges.
  \<^item> \<open>Crypto\<close>: the primitives, taken from other crates, as fields of a record \<open>crypto\<close>, and the wrappers of
    \<open>noise/handshake.rs\<close> around them.
  \<^item> \<open>Session\<close> (\<open>noise/session.rs\<close>): nonces, the replay window, data frames.
  \<^item> \<open>Clock\<close> (\<open>sleepyinstant\<close>), \<open>Budget\<close> (\<open>noise/budget.rs\<close>).
  \<^item> \<open>Handshake\<close> (\<open>noise/handshake.rs\<close>): both ends of the handshake, time stamps, cookies.
  \<^item> \<open>Rate_Limiter\<close> (\<open>noise/rate_limiter.rs\<close>): the aggregate and the per-source budget, the cookie gate.
  \<^item> \<open>Header_Protection\<close>, \<open>Amnezia_Config\<close>, \<open>Junk\<close>, \<open>Framing\<close> (\<open>noise/header_protection.rs\<close>,
    \<open>noise/amnezia.rs\<close>): the configuration and its checks, the random draws, prefixes and trailers, the
    readings a datagram admits.
  \<^item> \<open>Imitation\<close>, \<open>Quic\<close>, \<open>Detect\<close> (\<open>noise/imitation\<close>, \<open>noise/quic\<close>): DNS, SIP, STUN and QUIC
    datagrams, their replies, and how a peer's protocol is recognised.
  \<^item> \<open>Inbound\<close> (\<open>noise/inbound.rs\<close>): the readings of a datagram are tried in order, against a trial the
    caller supplies; the trial's contract is the locale \<open>inbound_trial\<close>.
  \<^item> \<open>Op_Report\<close>, \<open>Timers\<close>, \<open>Tunn\<close>, \<open>Tunn_Report\<close> (\<open>noise/op_report.rs\<close>, \<open>noise/timers.rs\<close>,
    \<open>noise/mod.rs\<close>): the tunnel itself. The record \<open>tunn\<close> has the fields of \<open>Tunn\<close>; one function per method
    takes the tunnel and returns its result with the tunnel it leaves, or \<open>None\<close> where the method panics.
  \<^item> \<open>Tunn_Frame\<close>, \<open>Tunn_Invariant\<close>, \<open>Tunn_Total\<close>, \<open>Tunn_Machine\<close>: what each method leaves alone, the
    invariant \<open>tunn_ok\<close> and its preservation, that no method panics, and the tunnel as a state machine
    (\<open>operation\<close>, \<open>tunn_step\<close>) that instantiates \<open>invariant_system\<close>.
  \<^item> \<open>Tunn_Properties\<close>, \<open>Tunn_Liveness\<close>: the properties of the whole tunnel.
  \<^item> \<open>Tunn_Address\<close>: what a tunnel keeps of its place in a device (\<open>placed\<close>): configuration, keys, and the
    24 bits that all its indices share.
  \<^item> \<open>Probe_Budget\<close>, \<open>Probe_Reply\<close>, \<open>Hints\<close> (\<open>device/probe_budget.rs\<close>, \<open>device/reply_policy.rs\<close>,
    \<open>device/probe_reply.rs\<close>, \<open>device/imitation_auto.rs\<close>): the ceiling on answers to strangers, the answers, and
    the cache of recognised protocols.
  \<^item> \<open>Peer\<close>, \<open>Device\<close>, \<open>Device_Io\<close> (\<open>device/peer.rs\<close>, \<open>device/mod.rs\<close>, \<open>device/allowed_ips.rs\<close>): a peer, the
    device with its tables and control operations, and one function per event handler. A peer is a
    reference into a store, as it is shared between the tables of the source.
  \<^item> \<open>Device_Flush\<close>, \<open>Device_Tables\<close>, \<open>Device_Traffic\<close>, \<open>Device_Machine\<close>: the loop that flushes a queue ends; the
    invariant \<open>device_ok\<close>; every control operation and every event keeps it; the device as a state machine
    (\<open>device_op\<close>, \<open>device_step\<close>) that instantiates \<open>invariant_system\<close>, its listener \<open>inbound_trial\<close>.
  \<^item> \<open>Device_Properties\<close>: the properties of the whole device.

  \<^bold>\<open>What is a parameter.\<close> The primitives (\<open>crypto\<close>), the stream cipher of header protection, the
  random generator (\<open>rng\<close>), the jitter of the timers and the parts of cover traffic that come from other
  crates are arguments, collected in \<open>world\<close>. What is needed of them is a named hypothesis:
  \<open>sizes_ok\<close>, \<open>aead_correct\<close>, \<open>dh_agrees\<close>, \<open>rng_fair\<close>, \<open>fills_exactly\<close>, \<open>world_ok\<close>. The trie of prefixes is the
  record \<open>ip_table\<close>, with \<open>table_laws\<close>: insertion, removal, and that a lookup finds the longest prefix. Every
  theorem with such a hypothesis has a witness in which it holds, with \<open>sample_crypto\<close>, \<open>zero_rng\<close>,
  \<open>sample_world\<close> and \<open>list_table\<close>.

  \<^bold>\<open>Time, threads, loops.\<close> Every call carries the time it runs at; all readings of the clock within one
  call are that one. A tunnel is behind a lock in every caller, so its methods are sequential; the atomics of
  the session and of the rate limiter are modelled by the value they hold, and each event of a device is one
  step. The ceiling on replies has no lock: its compare-and-exchange loop is interleaved between any number of
  workers (\<open>ceiling_step\<close>). Loops are structural recursion or functions with a termination proof. Where a
  draw may be repeated (rejection sampling), the source's own bound on repetitions is the bound of the model;
  no other fuel is used. Two loops have no bound in the source, \<open>flush_queue\<close> and \<open>random_index\<close>. They are
  partial functions, \<open>None\<close> if they do not return. The first is proved to return; the second returns unless its
  generator yields zeros for ever.

  \<^bold>\<open>What the theorems show.\<close> Sessions: the replay window refines the set of counters received, no
  nonce is used twice, no counter is delivered twice. Handshake: the two ends agree on keys, and no
  initiation is accepted twice. Flood defence: unproven handshakes are bounded in every window, sources are
  never undercounted, the cookie exchange satisfies the gate, cookie replies never amplify. Framing: what one
  end frames the other reads back; draws are uniform and total. Imitation: the datagrams have the claimed
  shape and size, and replies reflect or attenuate. Tunnel: every reachable tunnel is well formed, nothing
  panics, packets handed in are owned by exactly one side and leave in order, an unauthenticated datagram
  changes nothing, what is delivered is one whole IP packet, and an unanswered handshake ends. Strangers: the
  replies they get are bounded under every interleaving, never answer tunnel traffic or each other, and the cache
  of protocols refines a map. Device: in every reachable state its tables agree, its peers are configured as it
  is, the indices they give out lead back to them, every event is handled to its end, a datagram reaches the
  one peer that authenticates it, what is written to the interface comes from an address of that peer, and
  packets follow the longest prefix.

  \<^bold>\<open>Not modelled.\<close> System calls: the sockets, event queues and interfaces themselves (\<open>device/epoll.rs\<close>,
  \<open>device/kqueue.rs\<close>, \<open>device/tun_linux.rs\<close>, \<open>device/tun_darwin.rs\<close>), their diagnostics
  (\<open>device/udp_diagnostics.rs\<close>), the device lock, the control socket and its text
  (\<open>device/api.rs\<close>, \<open>device/api_transport.rs\<close>), dropping privileges. The C and Java bindings (\<open>ffi/\<close>, \<open>jni.rs\<close>)
  and the command line wrap the methods modelled here. \<open>noise/quic/fingerprint.rs\<close> is compiled for tests only.
  Log messages, statistics in floating point and accessors compiled only for tests are left out of the
  components above.
\<close>

end
